(* ===== verification/Prelude.thy ===== *)
theory Prelude
  imports Main "HOL-Library.Word" "HOL-Library.Multiset"
begin

text \<open>
  The shared basis of the development: the error types of pgBackRest (build/error.yaml), the
  result type that models the try/catch/throw of src/common/error.h, names for the machine
  integers and strings of the C sources, and generic lemmas on lists, results and words.

  Conventions of the whole development. A C function that may throw is a function into
  \<^typ>\<open>'e + 'a\<close>: \<^term>\<open>Inl e\<close> is the thrown error, \<^term>\<open>Inr x\<close> the returned value. Only the
  error type is kept, not the message. The model is the DEBUG build of src/common/assert.h:
  a failing ASSERT() or CHECK() throws \<open>AssertError\<close>. A place where the C program would
  read or write outside an object, or free what is not allocated, is the explicit
  outcome \<open>UndefinedBehavior\<close>, which no C code can catch; \<open>NoReturn\<close> is the outcome of a call that
  loops forever.
\<close>

unbundle bit_operations_syntax

named_theorems result_simps "equations of the result type"
named_theorems bit_eqs "bit-level equations of the word models"

type_synonym byte = "8 word"
type_synonym u16 = "16 word"
type_synonym u32 = "32 word"
type_synonym u64 = "64 word"

section \<open>Errors and results\<close>

datatype ErrorType =
    AssertError | ChecksumError | ConfigError | FileInvalidError | FormatError
  | CommandRequiredError | OptionInvalidError | OptionInvalidValueError | OptionRequiredError
  | ProtocolError | FileOpenError | FileReadError | FileMissingError | FileRemoveError
  | PathMissingError | ArchiveMismatchError | ArchiveDuplicateError | ArchiveTimeoutError
  | VersionNotSupportedError | LockAcquireError | BackupMismatchError | BackupSetInvalidError
  | StopError | TermError | FileCloseError | FileWriteError | DbMismatchError
  | MemoryError | CryptoError | ParamInvalidError | JsonFormatError | RepoInvalidError
  | RuntimeError | UnhandledError | CommandError | PathRemoveError | FileOwnerError | FileInfoError | UnknownError
  | UndefinedBehavior | NoReturn

type_synonym 'a result = "ErrorType + 'a"

definition bindE :: "'e + 'a \<Rightarrow> ('a \<Rightarrow> 'e + 'b) \<Rightarrow> 'e + 'b" where
  "bindE r f = (case r of Inl e \<Rightarrow> Inl e | Inr x \<Rightarrow> f x)"

definition mapE :: "('a \<Rightarrow> 'b) \<Rightarrow> 'e + 'a \<Rightarrow> 'e + 'b" where
  "mapE f r = (case r of Inl e \<Rightarrow> Inl e | Inr x \<Rightarrow> Inr (f x))"

definition ASSERT :: "bool \<Rightarrow> unit result" where
  "ASSERT b = (if b then Inr () else Inl AssertError)"

lemma bindE_simps [simp, result_simps]:
  "bindE (Inl e) f = Inl e"
  "bindE (Inr x) f = f x"
  by (simp_all add: bindE_def)

lemma mapE_simps [simp, result_simps]:
  "mapE f (Inl e) = Inl e"
  "mapE f (Inr x) = Inr (f x)"
  by (simp_all add: mapE_def)

lemma ASSERT_simps [simp, result_simps]:
  "ASSERT True = Inr ()"
  "ASSERT False = Inl AssertError"
  by (simp_all add: ASSERT_def)

lemma bindE_eq_Inr [result_simps]:
  "bindE r f = Inr y \<longleftrightarrow> (\<exists>x. r = Inr x \<and> f x = Inr y)"
  by (cases r) auto

lemma bindE_eq_Inl [result_simps]:
  "bindE r f = Inl e \<longleftrightarrow> r = Inl e \<or> (\<exists>x. r = Inr x \<and> f x = Inl e)"
  by (cases r) auto

lemma mapE_eq_Inr [simp, result_simps]:
  "mapE f r = Inr y \<longleftrightarrow> (\<exists>x. r = Inr x \<and> y = f x)"
  by (cases r) auto

lemma mapE_eq_Inl [simp, result_simps]: "mapE f r = Inl e \<longleftrightarrow> r = Inl e"
  by (cases r) auto

lemma ASSERT_eq_Inr [simp, result_simps]: "ASSERT b = Inr u \<longleftrightarrow> b"
  by (simp add: ASSERT_def)

lemma ASSERT_eq_Inl [simp, result_simps]: "ASSERT b = Inl e \<longleftrightarrow> \<not> b \<and> e = AssertError"
  by (auto simp: ASSERT_def)

lemma bindE_assoc: "bindE (bindE r f) g = bindE r (\<lambda>x. bindE (f x) g)"
  by (cases r) simp_all

section \<open>Characters\<close>

abbreviation chr_code :: "char \<Rightarrow> nat" where
  "chr_code c \<equiv> of_char c"

text \<open>A property of all characters is checked on the 256 codes.\<close>

lemma all_char_codes:
  assumes "\<forall>n \<in> set [0..<256]. P (char_of n)"
  shows "P c"
proof -
  have "P (char_of (chr_code c))"
    using assms of_char_mod_256 [of c] mod_less_divisor [of 256 "chr_code c"]
    by (metis atLeastLessThan_iff atLeastLessThan_upt zero_le zero_less_numeral)
  then show ?thesis by simp
qed

lemma nth_in_set_take: "j < min (length xs) n \<Longrightarrow> xs ! j \<in> set (take n xs)"
  by (auto simp: in_set_conv_nth)

section \<open>Bits of bounded numbers\<close>

lemma bit_nat_bounded: "(e::nat) < 2 ^ w \<Longrightarrow> bit e k \<Longrightarrow> k < w"
proof (rule ccontr)
  assume "e < 2 ^ w" "bit e k" "\<not> k < w"
  then have "(2::nat) ^ w \<le> 2 ^ k" by (simp add: power_increasing)
  with \<open>e < 2 ^ w\<close> have "e < 2 ^ k" by linarith
  then have "e div 2 ^ k = 0" by simp
  with \<open>bit e k\<close> show False by (simp add: bit_iff_odd)
qed

lemma bit_word_bounded:
  fixes x :: "'a::len word"
  assumes "x < of_nat (2 ^ w)" "w < LENGTH('a)" "bit x k"
  shows "k < w"
proof -
  have "unat x < 2 ^ w"
    using assms(1,2) unfolding word_less_nat_alt unat_of_nat by simp
  moreover have "bit (unat x) k" using assms(3) by (simp add: bit_simps bit_imp_le_length)
  ultimately show ?thesis by (rule bit_nat_bounded)
qed

lemma bit_of_nat_word: "bit (of_nat e :: 'a::len word) k \<longleftrightarrow> k < LENGTH('a) \<and> bit e k"
  by (simp add: bit_simps)

end
