(* ===== verification/StringId.thy ===== *)
theory StringId
  imports Prelude
begin

text \<open>
  StringId: short strings as 64-bit integers (src/common/type/stringId.c and stringId.h). A
  StringId has a header of four bits (encoding in bits 0 and 1, prefix flag in bit 2) and up to
  60 bits of characters, 5 or 6 bits each, the first character lowest. The model keeps the two
  tables of each encoding, the fall-through switch of \<open>strIdFromZN\<close> (a loop from the highest
  character down) and the unrolled loop of \<open>strIdToZN\<close>. The locale \<open>strid_alphabet\<close> states
  what a pair of tables must satisfy, the round trip is proved once in it, and both encodings
  are interpretations.
\<close>

section \<open>Data\<close>

datatype StringIdBit = stringIdBit5 | stringIdBit6

definition STRING_ID_BIT_MASK :: u64 where "STRING_ID_BIT_MASK = 3"
definition STRING_ID_HEADER_SIZE :: nat where "STRING_ID_HEADER_SIZE = 4"
definition STRING_ID_PREFIX :: u64 where "STRING_ID_PREFIX = 4"
definition STRID5_MAX :: nat where "STRID5_MAX = 13"
definition STRID6_MAX :: nat where "STRID6_MAX = 11"

text \<open>The value of an encoding in the header is the value of the C enum constant.\<close>

fun stringIdBit_code :: "StringIdBit \<Rightarrow> u64" where
  "stringIdBit_code stringIdBit5 = 0"
| "stringIdBit_code stringIdBit6 = 1"

text \<open>The encoding tables, indexed by the character as an unsigned byte.\<close>

definition strId5Table :: "nat list" where
  "strId5Table =
    [0, 0, 0, 0, 0, 0, 0, 0, 0, 0, 0, 0, 0, 0, 0, 0,
     0, 0, 0, 0, 0, 0, 0, 0, 0, 0, 0, 0, 0, 0, 0, 0,
     0, 0, 0, 0, 0, 0, 0, 0, 0, 0, 0, 0, 0, 27, 0, 0,
     0, 0, 28, 0, 0, 29, 30, 0, 0, 0, 0, 0, 0, 0, 0, 0,
     0, 0, 0, 0, 0, 0, 0, 0, 0, 0, 0, 0, 0, 0, 0, 0,
     0, 0, 0, 0, 0, 0, 0, 0, 0, 0, 0, 0, 0, 0, 0, 0,
     0, 1, 2, 3, 4, 5, 6, 7, 8, 9, 10, 11, 12, 13, 14, 15,
     16, 17, 18, 19, 20, 21, 22, 23, 24, 25, 26, 0, 0, 0, 0, 0,
     0, 0, 0, 0, 0, 0, 0, 0, 0, 0, 0, 0, 0, 0, 0, 0,
     0, 0, 0, 0, 0, 0, 0, 0, 0, 0, 0, 0, 0, 0, 0, 0,
     0, 0, 0, 0, 0, 0, 0, 0, 0, 0, 0, 0, 0, 0, 0, 0,
     0, 0, 0, 0, 0, 0, 0, 0, 0, 0, 0, 0, 0, 0, 0, 0,
     0, 0, 0, 0, 0, 0, 0, 0, 0, 0, 0, 0, 0, 0, 0, 0,
     0, 0, 0, 0, 0, 0, 0, 0, 0, 0, 0, 0, 0, 0, 0, 0,
     0, 0, 0, 0, 0, 0, 0, 0, 0, 0, 0, 0, 0, 0, 0, 0,
     0, 0, 0, 0, 0, 0, 0, 0, 0, 0, 0, 0, 0, 0, 0, 0]"

definition strId6Table :: "nat list" where
  "strId6Table =
    [0, 0, 0, 0, 0, 0, 0, 0, 0, 0, 0, 0, 0, 0, 0, 0,
     0, 0, 0, 0, 0, 0, 0, 0, 0, 0, 0, 0, 0, 0, 0, 0,
     0, 0, 0, 0, 0, 0, 0, 0, 0, 0, 0, 0, 0, 27, 0, 0,
     28, 29, 30, 31, 32, 33, 34, 35, 36, 37, 0, 0, 0, 0, 0, 0,
     0, 38, 39, 40, 41, 42, 43, 44, 45, 46, 47, 48, 49, 50, 51, 52,
     53, 54, 55, 56, 57, 58, 59, 60, 61, 62, 63, 0, 0, 0, 0, 0,
     0, 1, 2, 3, 4, 5, 6, 7, 8, 9, 10, 11, 12, 13, 14, 15,
     16, 17, 18, 19, 20, 21, 22, 23, 24, 25, 26, 0, 0, 0, 0, 0,
     0, 0, 0, 0, 0, 0, 0, 0, 0, 0, 0, 0, 0, 0, 0, 0,
     0, 0, 0, 0, 0, 0, 0, 0, 0, 0, 0, 0, 0, 0, 0, 0,
     0, 0, 0, 0, 0, 0, 0, 0, 0, 0, 0, 0, 0, 0, 0, 0,
     0, 0, 0, 0, 0, 0, 0, 0, 0, 0, 0, 0, 0, 0, 0, 0,
     0, 0, 0, 0, 0, 0, 0, 0, 0, 0, 0, 0, 0, 0, 0, 0,
     0, 0, 0, 0, 0, 0, 0, 0, 0, 0, 0, 0, 0, 0, 0, 0,
     0, 0, 0, 0, 0, 0, 0, 0, 0, 0, 0, 0, 0, 0, 0, 0,
     0, 0, 0, 0, 0, 0, 0, 0, 0, 0, 0, 0, 0, 0, 0, 0]"

definition strId5Map :: "char \<Rightarrow> nat" where
  "strId5Map c = strId5Table ! chr_code c"

definition strId6Map :: "char \<Rightarrow> nat" where
  "strId6Map c = strId6Table ! chr_code c"

text \<open>The decoding tables.\<close>

definition strId5Char :: "nat \<Rightarrow> char" where
  "strId5Char n = ''!abcdefghijklmnopqrstuvwxyz-256!'' ! n"

definition strId6Char :: "nat \<Rightarrow> char" where
  "strId6Char n = ''!abcdefghijklmnopqrstuvwxyz-0123456789ABCDEFGHIJKLMNOPQRSTUVWXYZ'' ! n"

section \<open>Operations\<close>

text \<open>
  The switch on the size falls through from the case of the last character to the case of the
  first: \<open>strIdPack w m s i r\<close> is the state \<open>r\<close> of \<open>result\<close> at \<open>case i\<close>.
\<close>

fun strIdPack :: "nat \<Rightarrow> (char \<Rightarrow> nat) \<Rightarrow> string \<Rightarrow> nat \<Rightarrow> u64 \<Rightarrow> u64" where
  "strIdPack w m s 0 r = r"
| "strIdPack w m s (Suc i) r =
     strIdPack w m s i (r OR push_bit (STRING_ID_HEADER_SIZE + w * i) (of_nat (m (s ! i))))"

definition strIdEncode :: "StringIdBit \<Rightarrow> nat \<Rightarrow> nat \<Rightarrow> (char \<Rightarrow> nat) \<Rightarrow> string \<Rightarrow> u64 result" where
  "strIdEncode bits w maxSize m buffer =
     (if \<exists>c \<in> set (take (maxSize - 1) buffer). m c = 0 then Inl FormatError
      else Inr (strIdPack w m buffer (min (length buffer) (maxSize - 1))
                  (stringIdBit_code bits OR
                     (if maxSize \<le> length buffer then STRING_ID_PREFIX else 0))))"

definition strIdFromZN :: "StringIdBit \<Rightarrow> string \<Rightarrow> u64 result" where
  "strIdFromZN bits buffer =
     (if buffer = [] then Inl AssertError
      else case bits of
        stringIdBit5 \<Rightarrow> strIdEncode bits 5 STRID5_MAX strId5Map buffer
      | stringIdBit6 \<Rightarrow> strIdEncode bits 6 STRID6_MAX strId6Map buffer)"

text \<open>
  The unrolled decoding: \<open>n\<close> characters may follow the one decoded here. After the last one
  nothing may be left, and a prefix is marked with a plus sign.
\<close>

fun strIdUnpack :: "nat \<Rightarrow> (nat \<Rightarrow> char) \<Rightarrow> bool \<Rightarrow> nat \<Rightarrow> u64 \<Rightarrow> string result" where
  "strIdUnpack w m prefix 0 strId =
     (if drop_bit w strId = 0
      then Inr (m (unat (take_bit w strId)) # (if prefix then ''+'' else []))
      else Inl AssertError)"
| "strIdUnpack w m prefix (Suc n) strId =
     (if drop_bit w strId = 0 then Inr [m (unat (take_bit w strId))]
      else mapE ((#) (m (unat (take_bit w strId))))
             (strIdUnpack w m prefix n (drop_bit w strId)))"

definition strIdToZN :: "u64 \<Rightarrow> string result" where
  "strIdToZN strId =
     (if strId = 0 then Inl AssertError
      else let prefix = (strId AND STRING_ID_PREFIX \<noteq> 0);
               bits = strId AND STRING_ID_BIT_MASK;
               chars = drop_bit STRING_ID_HEADER_SIZE strId
        in if bits = 0 then strIdUnpack 5 strId5Char prefix 11 chars
           else if bits = 1 then strIdUnpack 6 strId6Char prefix 9 chars
           else Inl AssertError)"

section \<open>Bits of an encoded string\<close>

lemma bit_strIdPack [bit_eqs]:
  "bit (strIdPack w m s i r) k \<longleftrightarrow>
     bit r k \<or> (\<exists>j<i. 4 + w * j \<le> k \<and> k < 64 \<and> bit (m (s ! j)) (k - (4 + w * j)))"
proof (induction i arbitrary: r)
  case 0
  then show ?case by simp
next
  case (Suc i)
  have "bit (strIdPack w m s (Suc i) r) k \<longleftrightarrow>
      (bit r k \<or> (4 + w * i \<le> k \<and> k < 64 \<and> bit (m (s ! i)) (k - (4 + w * i)))) \<or>
      (\<exists>j<i. 4 + w * j \<le> k \<and> k < 64 \<and> bit (m (s ! j)) (k - (4 + w * j)))"
    by (simp add: Suc.IH STRING_ID_HEADER_SIZE_def bit_or_iff bit_simps) auto
  then show ?case by (auto simp: less_Suc_eq)
qed

text \<open>
  What the two tables of an encoding promise each other: codes fit the width, and every
  character with a code other than zero is found again by the decoding table.
\<close>

locale strid_alphabet =
  fixes w :: nat and n :: nat
    and enc :: "char \<Rightarrow> nat" and dec :: "nat \<Rightarrow> char"
  assumes enc_bound: "enc c < 2 ^ w"
    and dec_enc: "enc c \<noteq> 0 \<Longrightarrow> dec (enc c) = c"
    and chars_fit: "4 + w * n \<le> 64"
    and some_chars: "0 < n"
begin

definition packed :: "string \<Rightarrow> u64 \<Rightarrow> u64" where
  "packed s hdr = strIdPack w enc s (min (length s) n) hdr"

lemma bit_packed_at:
  assumes hdr: "hdr < 16" and j: "j < min (length s) n" and k: "k < w"
  shows "bit (packed s hdr) (4 + w * j + k) \<longleftrightarrow> bit (enc (s ! j)) k"
proof -
  have "w * Suc j \<le> w * n" using j by (intro mult_le_mono2) simp
  then have in64: "4 + w * j + k < 64" using chars_fit k by simp
  have nohdr: "\<not> bit hdr (4 + w * j + k)"
    using bit_word_bounded [of hdr 4] hdr by fastforce
  have uniq: "j' = j"
    if "4 + w * j' \<le> 4 + w * j + k" and b: "bit (enc (s ! j')) (4 + w * j + k - (4 + w * j'))" for j'
  proof -
    from bit_nat_bounded [OF enc_bound b] have "w * j + k < w * j' + w" using that(1) by linarith
    then have 1: "w * j < w * Suc j'" by simp
    have 2: "w * j' < w * Suc j" using that(1) k by simp
    from 1 2 show ?thesis by (metis less_Suc_eq_le mult_less_cancel1 order_antisym)
  qed
  have "bit (packed s hdr) (4 + w * j + k) \<longleftrightarrow>
      (\<exists>j'<min (length s) n. 4 + w * j' \<le> 4 + w * j + k \<and>
         bit (enc (s ! j')) (4 + w * j + k - (4 + w * j')))"
    using nohdr in64 by (simp add: packed_def bit_strIdPack)
  also have "\<dots> \<longleftrightarrow> bit (enc (s ! j)) k"
  proof
    assume "\<exists>j'<min (length s) n. 4 + w * j' \<le> 4 + w * j + k \<and>
         bit (enc (s ! j')) (4 + w * j + k - (4 + w * j'))"
    then show "bit (enc (s ! j)) k" using uniq by force
  next
    assume "bit (enc (s ! j)) k"
    then show "\<exists>j'<min (length s) n. 4 + w * j' \<le> 4 + w * j + k \<and>
         bit (enc (s ! j')) (4 + w * j + k - (4 + w * j'))"
      using j by (intro exI [of _ j]) simp
  qed
  finally show ?thesis .
qed

lemma char_at_packed:
  assumes "hdr < 16" "j < min (length s) n"
  shows "take_bit w (drop_bit (4 + w * j) (packed s hdr)) = of_nat (enc (s ! j))"
proof (rule bit_word_eqI)
  fix k assume "k < LENGTH(64)"
  then show "bit (take_bit w (drop_bit (4 + w * j) (packed s hdr))) k \<longleftrightarrow>
      bit (of_nat (enc (s ! j)) :: u64) k"
    using bit_packed_at [OF assms, of k] bit_nat_bounded [OF enc_bound, of "s ! j" k]
    by (auto simp: bit_simps)
qed

lemma rest_of_packed:
  assumes "hdr < 16"
  shows "drop_bit (4 + w * min (length s) n) (packed s hdr) = 0"
proof (rule bit_word_eqI)
  fix k assume "k < LENGTH(64)"
  have "\<not> bit hdr (4 + w * min (length s) n + k)"
    using bit_word_bounded [of hdr 4] assms by fastforce
  moreover have "\<not> bit (enc (s ! j)) (4 + w * min (length s) n + k - (4 + w * j))"
    if j: "j < min (length s) n" for j
  proof
    assume b: "bit (enc (s ! j)) (4 + w * min (length s) n + k - (4 + w * j))"
    have "w * Suc j \<le> w * min (length s) n" using j by (intro mult_le_mono2) simp
    moreover have "4 + w * min (length s) n + k - (4 + w * j) < w"
      using bit_nat_bounded [OF enc_bound b] .
    ultimately show False by simp
  qed
  ultimately show "bit (drop_bit (4 + w * min (length s) n) (packed s hdr)) k \<longleftrightarrow> bit (0::u64) k"
    by (auto simp: bit_drop_bit_eq packed_def bit_strIdPack)
qed

lemma unat_enc: "unat (of_nat (enc c) :: u64) = enc c"
proof -
  have "w \<le> w * n" using some_chars by simp
  then have "w \<le> 64" using chars_fit by linarith
  then have "(2::nat) ^ w \<le> 2 ^ 64" by (rule power_increasing) simp
  then have "enc c < 2 ^ 64" using enc_bound [of c] by linarith
  then show ?thesis by (simp add: unat_of_nat)
qed

lemma rest_not_empty:
  assumes "hdr < 16" "j < min (length s) n" "enc (s ! j) \<noteq> 0"
  shows "drop_bit (4 + w * j) (packed s hdr) \<noteq> 0"
proof
  assume "drop_bit (4 + w * j) (packed s hdr) = 0"
  with char_at_packed [OF assms(1,2)] have "(of_nat (enc (s ! j)) :: u64) = 0" by simp
  then have "enc (s ! j) = 0" using unat_enc [of "s ! j"] by simp
  with assms(3) show False by simp
qed

lemma unpack_packed_from:
  assumes hdr: "hdr < 16" and nz: "\<forall>c \<in> set (take n s). enc c \<noteq> 0"
    and full: "prefix \<Longrightarrow> n \<le> length s"
  shows "j < min (length s) n \<Longrightarrow>
    strIdUnpack w dec prefix (n - Suc j) (drop_bit (4 + w * j) (packed s hdr)) =
      Inr (drop j (take n s) @ (if prefix then ''+'' else []))"
proof (induction "n - Suc j" arbitrary: j)
  case 0
  let ?x = "drop_bit (4 + w * j) (packed s hdr)"
  from "0" have j: "j < length s" "n = Suc j" by auto
  have c: "take n s ! j = s ! j" "s ! j \<in> set (take n s)" using j by (simp_all add: nth_in_set_take)
  have ch: "dec (unat (take_bit w ?x)) = s ! j"
    using char_at_packed [OF hdr "0.prems"] unat_enc dec_enc nz c(2) by simp
  have "min (length s) n = Suc j" using j by simp
  then have "drop_bit w ?x = 0"
    using rest_of_packed [OF hdr, of s] by (simp add: add.assoc add.left_commute)
  moreover have "drop j (take n s) = [s ! j]" using j by (simp add: take_Suc_conv_app_nth)
  ultimately show ?case using ch "0.hyps" by simp
next
  case (Suc m)
  let ?x = "drop_bit (4 + w * j) (packed s hdr)"
  have c: "s ! j \<in> set (take n s)" using Suc.prems by (rule nth_in_set_take)
  have ch: "dec (unat (take_bit w ?x)) = s ! j"
    using char_at_packed [OF hdr Suc.prems] unat_enc dec_enc nz c by simp
  have nx: "drop_bit w ?x = drop_bit (4 + w * Suc j) (packed s hdr)" by (simp add: algebra_simps)
  have dr: "drop j (take n s) = s ! j # drop (Suc j) (take n s)"
    using Suc.prems by (simp add: Cons_nth_drop_Suc [symmetric])
  have sm: "n - Suc j = Suc (n - Suc (Suc j))" using Suc.hyps(2) by simp
  show ?case
  proof (cases "Suc j < min (length s) n")
    case True
    then have "enc (s ! Suc j) \<noteq> 0" using nz nth_in_set_take by blast
    then have "drop_bit w ?x \<noteq> 0" using rest_not_empty [OF hdr True] nx by simp
    then show ?thesis using Suc.hyps(1) [of "Suc j"] Suc.hyps(2) True ch nx dr sm by simp
  next
    case False
    then have l: "length s = Suc j" "\<not> prefix" using Suc.prems Suc.hyps(2) full by auto
    then have "drop_bit w ?x = 0"
      using rest_of_packed [OF hdr, of s] nx Suc.prems by (simp add: min_def split: if_splits)
    then show ?thesis using ch dr sm l by simp
  qed
qed

lemma header_of_packed:
  assumes "msk < 16"
  shows "packed s hdr AND msk = hdr AND msk"
proof (rule bit_word_eqI)
  fix k assume "k < LENGTH(64)"
  show "bit (packed s hdr AND msk) k \<longleftrightarrow> bit (hdr AND msk) k"
    using bit_word_bounded [of msk 4 k] assms
    by (auto simp: bit_and_iff packed_def bit_strIdPack)
qed

lemma packed_nonzero:
  assumes "hdr < 16" "s \<noteq> []" "\<forall>c \<in> set (take n s). enc c \<noteq> 0"
  shows "packed s hdr \<noteq> 0"
proof -
  have "0 < min (length s) n" using assms(2) some_chars by simp
  moreover from this have "enc (s ! 0) \<noteq> 0" using assms(3) nth_in_set_take by blast
  ultimately show ?thesis using rest_not_empty [OF assms(1), of 0 s] by auto
qed

lemma unpack_packed:
  assumes "hdr < 16" "s \<noteq> []" "\<forall>c \<in> set (take n s). enc c \<noteq> 0" "prefix \<Longrightarrow> n \<le> length s"
  shows "strIdUnpack w dec prefix (n - 1) (drop_bit 4 (packed s hdr)) =
    Inr (take n s @ (if prefix then ''+'' else []))"
  using unpack_packed_from [OF assms(1,3), of prefix 0] assms(2,4) some_chars by simp

lemma strIdEncode_eq:
  assumes "strIdEncode bits w (Suc n) enc s = Inr i"
  shows "i = packed s (stringIdBit_code bits OR (if n < length s then STRING_ID_PREFIX else 0))"
    and "\<forall>c \<in> set (take n s). enc c \<noteq> 0"
  using assms by (auto simp: strIdEncode_def packed_def Suc_le_eq min.commute split: if_splits)

end

section \<open>The two encodings\<close>

lemma strId5_tables:
  "list_all (\<lambda>(k, e). e < 32 \<and> (e \<noteq> 0 \<longrightarrow> chr_code (strId5Char e) = k)) (enumerate 0 strId5Table)"
  by (simp add: strId5Table_def strId5Char_def)

lemma strId6_tables:
  "list_all (\<lambda>(k, e). e < 64 \<and> (e \<noteq> 0 \<longrightarrow> chr_code (strId6Char e) = k)) (enumerate 0 strId6Table)"
  by (simp add: strId6Table_def strId6Char_def)

lemma table_lookup:
  assumes "list_all (\<lambda>(k, e). P k e) (enumerate 0 tab)" "length tab = 256"
  shows "P (chr_code c) (tab ! chr_code c)"
  using assms by (auto simp: list_all_length nth_enumerate_eq)

lemma strId5_lookup:
  "strId5Map c < 32" "strId5Map c \<noteq> 0 \<Longrightarrow> strId5Char (strId5Map c) = c"
  using table_lookup [OF strId5_tables, of c] unfolding strId5Map_def
  by (simp_all add: strId5Table_def del: nth_Cons)

lemma strId6_lookup:
  "strId6Map c < 64" "strId6Map c \<noteq> 0 \<Longrightarrow> strId6Char (strId6Map c) = c"
  using table_lookup [OF strId6_tables, of c] unfolding strId6Map_def
  by (simp_all add: strId6Table_def del: nth_Cons)

interpretation strid5: strid_alphabet 5 12 strId5Map strId5Char
  by unfold_locales (use strId5_lookup in auto)

interpretation strid6: strid_alphabet 6 10 strId6Map strId6Char
  by unfold_locales (use strId6_lookup in auto)

definition strIdMax :: "StringIdBit \<Rightarrow> nat" where
  "strIdMax bits = (case bits of stringIdBit5 \<Rightarrow> STRID5_MAX | stringIdBit6 \<Rightarrow> STRID6_MAX)"

lemmas strid_consts = STRID5_MAX_def STRID6_MAX_def STRING_ID_PREFIX_def STRING_ID_BIT_MASK_def
  STRING_ID_HEADER_SIZE_def strIdMax_def

lemma strid_header_small:
  "stringIdBit_code bits OR (if b then STRING_ID_PREFIX else 0) < 16"
  by (cases bits) (simp_all add: strid_consts)

lemma strid5_decode:
  assumes "strIdEncode stringIdBit5 5 13 strId5Map s = Inr i" "s \<noteq> []"
  shows "strIdToZN i = Inr (take 12 s @ (if 12 < length s then ''+'' else []))"
proof -
  let ?hdr = "stringIdBit_code stringIdBit5 OR (if 12 < length s then STRING_ID_PREFIX else 0)"
  have i: "i = strid5.packed s ?hdr" and nz: "\<forall>c \<in> set (take 12 s). strId5Map c \<noteq> 0"
    using strid5.strIdEncode_eq [of stringIdBit5 s i] assms(1) by simp_all
  have "i \<noteq> 0" unfolding i by (rule strid5.packed_nonzero [OF strid_header_small assms(2) nz])
  moreover have "i AND 3 = 0" "(i AND 4 \<noteq> 0) \<longleftrightarrow> 12 < length s"
    using strid5.header_of_packed [of 3 s ?hdr] strid5.header_of_packed [of 4 s ?hdr] i
    by (simp_all add: strid_consts)
  moreover have "strIdUnpack 5 strId5Char (12 < length s) (12 - 1) (drop_bit 4 i) =
      Inr (take 12 s @ (if 12 < length s then ''+'' else []))"
    unfolding i by (rule strid5.unpack_packed [OF strid_header_small assms(2) nz]) simp
  ultimately show ?thesis by (simp add: strIdToZN_def Let_def strid_consts)
qed

lemma strid6_decode:
  assumes "strIdEncode stringIdBit6 6 11 strId6Map s = Inr i" "s \<noteq> []"
  shows "strIdToZN i = Inr (take 10 s @ (if 10 < length s then ''+'' else []))"
proof -
  let ?hdr = "stringIdBit_code stringIdBit6 OR (if 10 < length s then STRING_ID_PREFIX else 0)"
  have i: "i = strid6.packed s ?hdr" and nz: "\<forall>c \<in> set (take 10 s). strId6Map c \<noteq> 0"
    using strid6.strIdEncode_eq [of stringIdBit6 s i] assms(1) by simp_all
  have "i \<noteq> 0" unfolding i by (rule strid6.packed_nonzero [OF strid_header_small assms(2) nz])
  moreover have "i AND 3 = 1" "(i AND 4 \<noteq> 0) \<longleftrightarrow> 10 < length s"
    using strid6.header_of_packed [of 3 s ?hdr] strid6.header_of_packed [of 4 s ?hdr] i
    by (simp_all add: strid_consts)
  moreover have "strIdUnpack 6 strId6Char (10 < length s) (10 - 1) (drop_bit 4 i) =
      Inr (take 10 s @ (if 10 < length s then ''+'' else []))"
    unfolding i by (rule strid6.unpack_packed [OF strid_header_small assms(2) nz]) simp
  ultimately show ?thesis by (simp add: strIdToZN_def Let_def strid_consts)
qed

lemma strId_decoded:
  assumes "strIdFromZN bits s = Inr i"
  shows "strIdToZN i =
    Inr (if length s < strIdMax bits then s else take (strIdMax bits - 1) s @ ''+'')"
proof (cases bits)
  case stringIdBit5
  then show ?thesis using assms strid5_decode [of s i]
    by (auto simp: strIdFromZN_def strid_consts split: if_splits)
next
  case stringIdBit6
  then show ?thesis using assms strid6_decode [of s i]
    by (auto simp: strIdFromZN_def strid_consts split: if_splits)
qed

lemma strId_encoding_bits:
  assumes "strIdFromZN bits s = Inr i"
  shows "i AND STRING_ID_BIT_MASK = stringIdBit_code bits"
proof (cases bits)
  case stringIdBit5
  then have "strIdEncode stringIdBit5 5 13 strId5Map s = Inr i"
    using assms by (auto simp: strIdFromZN_def strid_consts split: if_splits)
  from strid5.strIdEncode_eq(1) [of stringIdBit5 s i] this stringIdBit5 show ?thesis
    by (simp add: strid5.header_of_packed strid_consts)
next
  case stringIdBit6
  then have "strIdEncode stringIdBit6 6 11 strId6Map s = Inr i"
    using assms by (auto simp: strIdFromZN_def strid_consts split: if_splits)
  from strid6.strIdEncode_eq(1) [of stringIdBit6 s i] this stringIdBit6 show ?thesis
    by (simp add: strid6.header_of_packed strid_consts)
qed

section \<open>Properties\<close>

text \<open>
  C18. A string that either encoding accepts is read back from its StringId unchanged when it is
  shorter than the maximum of the encoding, and as its first characters with a plus sign
  otherwise. In particular two different short strings never share a StringId.
\<close>

theorem strId_roundtrip:
  assumes "strIdFromZN bits s = Inr i"
  shows "strIdToZN i =
    Inr (if length s < strIdMax bits then s else take (strIdMax bits - 1) s @ ''+'')"
  using assms by (rule strId_decoded)

theorem strId_roundtrip_witness:
  "strIdFromZN stringIdBit5 ''test'' = Inr 0xa4cb40 \<and> strIdToZN 0xa4cb40 = Inr ''test''"
proof -
  have "strIdFromZN stringIdBit5 ''test'' = Inr 0xa4cb40"
    by (simp add: strIdFromZN_def strIdEncode_def strid_consts numeral_nat strId5Map_def strId5Table_def)
  with strId_roundtrip [OF this] show ?thesis by (simp add: strid_consts)
qed

text \<open>
  StringIds can stand for strings in a switch: two strings below the maximum length that get
  the same StringId, by whichever encodings, are the same string in the same encoding.
\<close>

theorem strId_injective:
  assumes "strIdFromZN b1 s = Inr i" "strIdFromZN b2 t = Inr i"
    and "length s < strIdMax b1" "length t < strIdMax b2"
  shows "s = t \<and> b1 = b2"
proof -
  have "s = t" using strId_decoded [OF assms(1)] strId_decoded [OF assms(2)] assms(3,4) by simp
  moreover have "b1 = b2"
    using strId_encoding_bits [OF assms(1)] strId_encoding_bits [OF assms(2)]
    by (cases b1; cases b2) simp_all
  ultimately show ?thesis by simp
qed

theorem strId_injective_witness:
  "strIdFromZN stringIdBit5 ''a'' = Inr 16 \<and> ''a'' = ''a'' \<and> stringIdBit5 = stringIdBit5"
proof -
  have 1: "strIdFromZN stringIdBit5 ''a'' = Inr 16"
    by (simp add: strIdFromZN_def strIdEncode_def strid_consts strId5Map_def strId5Table_def)
  show ?thesis using 1 strId_injective [OF 1 1] by (simp add: strid_consts)
qed

end
