(* ===== verification/Encode.thy ===== *)
theory Encode
  imports Prelude
begin

text \<open>
  Binary to string encoding (src/common/encode.c): base64 with its validation and decoding, and
  the unpadded base64url, which is only encoded. Bytes are 8-bit words, strings are characters
  without the terminating zero. The loops over groups of three bytes or four characters are
  recursions on the list; the C counters are unsigned int, so the model is the code for inputs
  below 4 GiB. The decoding table is indexed by a char converted to int: on platforms where char
  is signed a character above 127 reads before the table, which the model shows as
  \<open>UndefinedBehavior\<close>.
\<close>

section \<open>Encoding\<close>

datatype EncodeType = encodeBase64 | encodeBase64Url

definition encodeBase64Lookup :: string where
  "encodeBase64Lookup = ''ABCDEFGHIJKLMNOPQRSTUVWXYZabcdefghijklmnopqrstuvwxyz0123456789+/''"

definition encodeBase64LookupUrl :: string where
  "encodeBase64LookupUrl = ''ABCDEFGHIJKLMNOPQRSTUVWXYZabcdefghijklmnopqrstuvwxyz0123456789-_''"

text \<open>The character of a six-bit value in a table.\<close>

definition encodeChar :: "string \<Rightarrow> byte \<Rightarrow> char" where
  "encodeChar lookup b = lookup ! unat b"

text \<open>0x3d is the padding character.\<close>

fun encodeToStrBase64 :: "byte list \<Rightarrow> string" where
  "encodeToStrBase64 [] = []"
| "encodeToStrBase64 [a] =
     [encodeChar encodeBase64Lookup (drop_bit 2 a),
      encodeChar encodeBase64Lookup (push_bit 4 (a AND 0x03)), CHR 0x3d, CHR 0x3d]"
| "encodeToStrBase64 [a, b] =
     [encodeChar encodeBase64Lookup (drop_bit 2 a),
      encodeChar encodeBase64Lookup (push_bit 4 (a AND 0x03) OR drop_bit 4 (b AND 0xf0)),
      encodeChar encodeBase64Lookup (push_bit 2 (b AND 0x0f)), CHR 0x3d]"
| "encodeToStrBase64 (a # b # c # rest) =
     [encodeChar encodeBase64Lookup (drop_bit 2 a),
      encodeChar encodeBase64Lookup (push_bit 4 (a AND 0x03) OR drop_bit 4 (b AND 0xf0)),
      encodeChar encodeBase64Lookup (push_bit 2 (b AND 0x0f) OR drop_bit 6 (c AND 0xc0)),
      encodeChar encodeBase64Lookup (c AND 0x3f)] @ encodeToStrBase64 rest"

definition encodeToStrSizeBase64 :: "nat \<Rightarrow> nat" where
  "encodeToStrSizeBase64 sourceSize =
     (let encodeGroupTotal = sourceSize div 3;
          encodeGroupTotal' = (if sourceSize mod 3 \<noteq> 0 then encodeGroupTotal + 1 else encodeGroupTotal)
      in encodeGroupTotal' * 4)"

fun encodeToStrBase64Url :: "byte list \<Rightarrow> string" where
  "encodeToStrBase64Url [] = []"
| "encodeToStrBase64Url [a] =
     [encodeChar encodeBase64LookupUrl (drop_bit 2 a),
      encodeChar encodeBase64LookupUrl (push_bit 4 (a AND 0x03))]"
| "encodeToStrBase64Url [a, b] =
     [encodeChar encodeBase64LookupUrl (drop_bit 2 a),
      encodeChar encodeBase64LookupUrl (push_bit 4 (a AND 0x03) OR drop_bit 4 (b AND 0xf0)),
      encodeChar encodeBase64LookupUrl (push_bit 2 (b AND 0x0f))]"
| "encodeToStrBase64Url (a # b # c # rest) =
     [encodeChar encodeBase64LookupUrl (drop_bit 2 a),
      encodeChar encodeBase64LookupUrl (push_bit 4 (a AND 0x03) OR drop_bit 4 (b AND 0xf0)),
      encodeChar encodeBase64LookupUrl (push_bit 2 (b AND 0x0f) OR drop_bit 6 (c AND 0xc0)),
      encodeChar encodeBase64LookupUrl (c AND 0x3f)] @ encodeToStrBase64Url rest"

definition encodeToStrSizeBase64Url :: "nat \<Rightarrow> nat" where
  "encodeToStrSizeBase64Url sourceSize =
     (let encodeTotal = sourceSize div 3 * 4
      in if sourceSize mod 3 = 1 then encodeTotal + 2
         else if sourceSize mod 3 = 2 then encodeTotal + 3
         else encodeTotal)"

section \<open>Decoding\<close>

definition decodeBase64Lookup :: "int list" where
  "decodeBase64Lookup =
    [-1, -1, -1, -1, -1, -1, -1, -1, -1, -1, -1, -1, -1, -1, -1, -1,
     -1, -1, -1, -1, -1, -1, -1, -1, -1, -1, -1, -1, -1, -1, -1, -1,
     -1, -1, -1, -1, -1, -1, -1, -1, -1, -1, -1, 62, -1, -1, -1, 63,
     52, 53, 54, 55, 56, 57, 58, 59, 60, 61, -1, -1, -1, -1, -1, -1,
     -1, 0, 1, 2, 3, 4, 5, 6, 7, 8, 9, 10, 11, 12, 13, 14,
     15, 16, 17, 18, 19, 20, 21, 22, 23, 24, 25, -1, -1, -1, -1, -1,
     -1, 26, 27, 28, 29, 30, 31, 32, 33, 34, 35, 36, 37, 38, 39, 40,
     41, 42, 43, 44, 45, 46, 47, 48, 49, 50, 51, -1, -1, -1, -1, -1,
     -1, -1, -1, -1, -1, -1, -1, -1, -1, -1, -1, -1, -1, -1, -1, -1,
     -1, -1, -1, -1, -1, -1, -1, -1, -1, -1, -1, -1, -1, -1, -1, -1,
     -1, -1, -1, -1, -1, -1, -1, -1, -1, -1, -1, -1, -1, -1, -1, -1,
     -1, -1, -1, -1, -1, -1, -1, -1, -1, -1, -1, -1, -1, -1, -1, -1,
     -1, -1, -1, -1, -1, -1, -1, -1, -1, -1, -1, -1, -1, -1, -1, -1,
     -1, -1, -1, -1, -1, -1, -1, -1, -1, -1, -1, -1, -1, -1, -1, -1,
     -1, -1, -1, -1, -1, -1, -1, -1, -1, -1, -1, -1, -1, -1, -1, -1,
     -1, -1, -1, -1, -1, -1, -1, -1, -1, -1, -1, -1, -1, -1, -1, -1]"

text \<open>The element the C code reads for a character; None where the index is negative.\<close>

definition decodeLookupAt :: "char \<Rightarrow> int option" where
  "decodeLookupAt c = (if chr_code c < 128 then Some (decodeBase64Lookup ! chr_code c) else None)"

definition decodeValue :: "char \<Rightarrow> int" where
  "decodeValue c = decodeBase64Lookup ! chr_code c"

text \<open>The loop over all positions, from \<open>sourceIdx\<close> on.\<close>

function decodeToBinValidateLoop :: "string \<Rightarrow> nat \<Rightarrow> unit result" where
  "decodeToBinValidateLoop source sourceIdx =
     (if sourceIdx < length source then
        (if source ! sourceIdx = CHR 0x3d then
           (if sourceIdx < length source - 2 then Inl FormatError
            else if sourceIdx = length source - 2 \<and> source ! (length source - 1) \<noteq> CHR 0x3d
            then Inl FormatError
            else decodeToBinValidateLoop source (Suc sourceIdx))
         else case decodeLookupAt (source ! sourceIdx) of
             None \<Rightarrow> Inl UndefinedBehavior
           | Some v \<Rightarrow> if v = -1 then Inl FormatError
                       else decodeToBinValidateLoop source (Suc sourceIdx))
      else Inr ())"
  by pat_completeness auto
termination
  by (relation "measure (\<lambda>(source, sourceIdx). length source - sourceIdx)") auto

declare decodeToBinValidateLoop.simps [simp del]

definition decodeToBinValidateBase64 :: "string \<Rightarrow> unit result" where
  "decodeToBinValidateBase64 source =
     (if length source mod 4 \<noteq> 0 then Inl FormatError
      else decodeToBinValidateLoop source 0)"

text \<open>
  The decoding loop, on a validated source: the arithmetic is on int and each result is
  converted to unsigned char.
\<close>

fun decodeGroups :: "string \<Rightarrow> byte list" where
  "decodeGroups (w # x # y # z # rest) =
     [word_of_int (push_bit 2 (decodeValue w) OR drop_bit 4 (decodeValue x))] @
     (if y \<noteq> CHR 0x3d
      then [word_of_int (push_bit 4 (decodeValue x) OR drop_bit 2 (decodeValue y))] else []) @
     (if z \<noteq> CHR 0x3d
      then [word_of_int ((push_bit 6 (decodeValue y) AND 0xc0) OR decodeValue z)] else []) @
     decodeGroups rest"
| "decodeGroups _ = []"

definition decodeToBinBase64 :: "string \<Rightarrow> byte list result" where
  "decodeToBinBase64 source =
     bindE (decodeToBinValidateBase64 source) (\<lambda>_. Inr (decodeGroups source))"

text \<open>The empty string passes the validation, and then \<open>source[sourceSize - 1]\<close> is not in it.\<close>

definition decodeToBinSizeBase64 :: "string \<Rightarrow> nat result" where
  "decodeToBinSizeBase64 source =
     bindE (decodeToBinValidateBase64 source) (\<lambda>_.
       let sourceSize = length source; destinationSize = sourceSize div 4 * 3
       in if source = [] then Inl UndefinedBehavior
          else if source ! (sourceSize - 1) = CHR 0x3d
          then (if source ! (sourceSize - 2) = CHR 0x3d then Inr (destinationSize - 2)
                else Inr (destinationSize - 1))
          else Inr destinationSize)"

section \<open>The generic entry points\<close>

definition encodeToStr :: "EncodeType \<Rightarrow> byte list \<Rightarrow> string" where
  "encodeToStr type source = (case type of
     encodeBase64 \<Rightarrow> encodeToStrBase64 source
   | encodeBase64Url \<Rightarrow> encodeToStrBase64Url source)"

definition encodeToStrSize :: "EncodeType \<Rightarrow> nat \<Rightarrow> nat" where
  "encodeToStrSize type sourceSize = (case type of
     encodeBase64 \<Rightarrow> encodeToStrSizeBase64 sourceSize
   | encodeBase64Url \<Rightarrow> encodeToStrSizeBase64Url sourceSize)"

definition decodeToBin :: "EncodeType \<Rightarrow> string \<Rightarrow> byte list result" where
  "decodeToBin type source = (case type of
     encodeBase64 \<Rightarrow> decodeToBinBase64 source
   | encodeBase64Url \<Rightarrow> Inl AssertError)"

definition decodeToBinSize :: "EncodeType \<Rightarrow> string \<Rightarrow> nat result" where
  "decodeToBinSize type source = (case type of
     encodeBase64 \<Rightarrow> decodeToBinSizeBase64 source
   | encodeBase64Url \<Rightarrow> Inl AssertError)"

section \<open>The grammar of base64\<close>

text \<open>The specification of what the validation accepts: groups of four, padding in the last only.\<close>

definition b64_digit :: "char \<Rightarrow> bool" where
  "b64_digit c \<longleftrightarrow> chr_code c < 128 \<and> decodeValue c \<noteq> -1"

fun b64_ok :: "string \<Rightarrow> bool" where
  "b64_ok [] = True"
| "b64_ok [w, x, y, z] =
     (b64_digit w \<and> b64_digit x \<and>
      (b64_digit y \<and> (b64_digit z \<or> z = CHR 0x3d) \<or> y = CHR 0x3d \<and> z = CHR 0x3d))"
| "b64_ok (w # x # y # z # rest) =
     (b64_digit w \<and> b64_digit x \<and> b64_digit y \<and> b64_digit z \<and> b64_ok rest)"
| "b64_ok _ = False"

definition b64_char_at :: "string \<Rightarrow> nat \<Rightarrow> bool" where
  "b64_char_at s i \<longleftrightarrow>
     (if s ! i = CHR 0x3d
      then \<not> i < length s - 2 \<and> (i = length s - 2 \<longrightarrow> s ! (length s - 1) = CHR 0x3d)
      else b64_digit (s ! i))"

lemma validate_loop_iff:
  "decodeToBinValidateLoop s k = Inr () \<longleftrightarrow> (\<forall>i. k \<le> i \<and> i < length s \<longrightarrow> b64_char_at s i)"
proof (induction s k rule: decodeToBinValidateLoop.induct)
  case (1 s k)
  have step: "(\<forall>i. k \<le> i \<and> i < length s \<longrightarrow> b64_char_at s i) \<longleftrightarrow>
      b64_char_at s k \<and> (\<forall>i. Suc k \<le> i \<and> i < length s \<longrightarrow> b64_char_at s i)" if "k < length s"
    using that by (metis Suc_leD le_antisym not_less_eq_eq order_refl)
  show ?case
  proof (cases "k < length s")
    case True
    then show ?thesis
      using 1 step unfolding decodeToBinValidateLoop.simps [of s k]
      by (auto simp: b64_char_at_def b64_digit_def decodeLookupAt_def decodeValue_def
          split: if_splits)
  next
    case False
    then show ?thesis by (auto simp: decodeToBinValidateLoop.simps [of s k])
  qed
qed

lemma b64_char_at_shift:
  assumes "2 \<le> length rest"
  shows "b64_char_at (w # x # y # z # rest) (i + 4) \<longleftrightarrow> b64_char_at rest i"
proof -
  have lst: "(w # x # y # z # rest) ! (length (w # x # y # z # rest) - 1) = rest ! (length rest - 1)"
    using assms by (auto simp: nth_Cons' numeral_eq_Suc)
  have nth4: "(w # x # y # z # rest) ! (i + 4) = rest ! i" by (simp add: numeral_eq_Suc)
  have "i + 4 < length (w # x # y # z # rest) - 2 \<longleftrightarrow> i < length rest - 2"
    "i + 4 = length (w # x # y # z # rest) - 2 \<longleftrightarrow> i = length rest - 2"
    using assms by auto
  then show ?thesis unfolding b64_char_at_def lst nth4 by simp
qed

lemma all_less_add4:
  "(\<forall>i < Suc (Suc (Suc (Suc n))). P i) \<longleftrightarrow> P 0 \<and> P 1 \<and> P 2 \<and> P 3 \<and> (\<forall>i<n. P (i + 4))"
  by (auto simp: less_Suc_eq_0_disj numeral_eq_Suc)

lemma pad_not_digit [simp]: "\<not> b64_digit (CHR 0x3d)"
  by (simp add: b64_digit_def decodeValue_def decodeBase64Lookup_def)

lemma b64_ok_iff:
  "(length s mod 4 = 0 \<and> (\<forall>i<length s. b64_char_at s i)) \<longleftrightarrow> b64_ok s"
proof (induction s rule: b64_ok.induct)
  case (2 w x y z)
  show ?case by (auto simp: b64_char_at_def all_less_add4 numeral_eq_Suc)
next
  case (3 w x y z r rest)
  let ?rest = "r # rest"
  show ?case
  proof (cases "length ?rest mod 4 = 0")
    case True
    then have long: "4 \<le> length ?rest" by (cases "length ?rest < 4") auto
    then have "\<forall>i<4. b64_char_at (w # x # y # z # ?rest) i = b64_digit ((w # x # y # z # ?rest) ! i)"
      by (auto simp: b64_char_at_def)
    then have "(\<forall>i<length (w # x # y # z # ?rest). b64_char_at (w # x # y # z # ?rest) i) \<longleftrightarrow>
        b64_digit w \<and> b64_digit x \<and> b64_digit y \<and> b64_digit z \<and> (\<forall>i<length ?rest. b64_char_at ?rest i)"
      using b64_char_at_shift [of ?rest w x y z] long
      by (simp add: all_less_add4 numeral_eq_Suc)
    moreover have "length (w # x # y # z # ?rest) mod 4 = 0" using True by (simp add: mod_Suc)
    ultimately show ?thesis using 3 True by simp
  next
    case False
    then show ?thesis using 3 by (auto simp: mod_Suc)
  qed
qed (auto simp: b64_char_at_def)

lemma validate_iff: "decodeToBinValidateBase64 s = Inr () \<longleftrightarrow> b64_ok s"
  using b64_ok_iff [of s] validate_loop_iff [of s 0] by (auto simp: decodeToBinValidateBase64_def)

section \<open>Encoding and decoding are inverse\<close>

lemma base64_table:
  "list_all (\<lambda>(k, c). chr_code c < 128 \<and> c \<noteq> CHR 0x3d \<and> decodeValue c = int k)
     (enumerate 0 encodeBase64Lookup)"
  by (simp add: encodeBase64Lookup_def decodeValue_def decodeBase64Lookup_def)

lemma encodeChar_facts:
  assumes "v < 64"
  shows "decodeValue (encodeChar encodeBase64Lookup v) = uint v"
    and "b64_digit (encodeChar encodeBase64Lookup v)"
    and "encodeChar encodeBase64Lookup v \<noteq> CHR 0x3d"
proof -
  have "unat v < length encodeBase64Lookup"
    using assms by (simp add: encodeBase64Lookup_def word_less_nat_alt)
  with base64_table have f: "chr_code (encodeBase64Lookup ! unat v) < 128 \<and>
      encodeBase64Lookup ! unat v \<noteq> CHR 0x3d \<and> decodeValue (encodeBase64Lookup ! unat v) = int (unat v)"
    by (auto simp: list_all_length nth_enumerate_eq)
  then show "decodeValue (encodeChar encodeBase64Lookup v) = uint v"
    "encodeChar encodeBase64Lookup v \<noteq> CHR 0x3d" "b64_digit (encodeChar encodeBase64Lookup v)"
    by (simp_all add: encodeChar_def b64_digit_def) (metis uint_ge_0 not_one_le_zero neg_0_le_iff_le)
qed

lemma less_8_cases: "k < (8::nat) \<Longrightarrow> k = 0 \<or> k = 1 \<or> k = 2 \<or> k = 3 \<or> k = 4 \<or> k = 5 \<or> k = 6 \<or> k = 7"
  by arith

lemma byte_eqI:
  assumes "bit a 0 = bit b 0" "bit a 1 = bit b 1" "bit a 2 = bit b 2" "bit a 3 = bit b 3"
    "bit a 4 = bit b 4" "bit a 5 = bit b 5" "bit a 6 = bit b 6" "bit a 7 = bit b 7"
  shows "a = (b::byte)"
proof (rule bit_word_eqI)
  fix k assume "k < LENGTH(8)"
  then have "k < 8" by simp
  from less_8_cases [OF this] assms show "bit a k = bit b k" by (elim disjE) simp_all
qed

lemma no_bit_byte [simp]: "8 \<le> k \<Longrightarrow> \<not> bit (a::byte) k"
  by (auto dest: bit_imp_le_length)

lemma byte_six_bits:
  assumes "\<not> bit v 6" "\<not> bit v 7"
  shows "(v::byte) < 64"
proof -
  have "v = take_bit 6 v" by (rule byte_eqI) (use assms in \<open>simp_all add: bit_take_bit_iff\<close>)
  moreover have "unat (take_bit 6 v) < 2 ^ 6" 
    unfolding unsigned_take_bit_eq by (rule take_bit_nat_less_exp)
  ultimately show ?thesis by (simp add: word_less_nat_alt)
qed

lemma sextets:
  "drop_bit 2 a < (64::byte)" "push_bit 4 (a AND 0x03) < (64::byte)"
  "push_bit 4 (a AND 0x03) OR drop_bit 4 (b AND 0xf0) < (64::byte)"
  "push_bit 2 (b AND 0x0f) < (64::byte)"
  "push_bit 2 (b AND 0x0f) OR drop_bit 6 (c AND 0xc0) < (64::byte)"
  "c AND 0x3f < (64::byte)"
  by (rule byte_six_bits; simp add: bit_simps)+

lemmas sextet_facts = sextets [THEN encodeChar_facts(1)] sextets [THEN encodeChar_facts(2)]
  sextets [THEN encodeChar_facts(3)]

lemma decode_byte1:
  "word_of_int (push_bit 2 (uint (drop_bit 2 a)) OR
     drop_bit 4 (uint (push_bit 4 (a AND 0x03) OR drop_bit 4 (b AND 0xf0)))) = (a::byte)"
  "word_of_int (push_bit 2 (uint (drop_bit 2 a)) OR
     drop_bit 4 (uint (push_bit 4 (a AND 0x03)))) = (a::byte)"
  by (rule byte_eqI; simp add: bit_simps)+

lemma decode_byte2:
  "word_of_int (push_bit 4 (uint (push_bit 4 (a AND 0x03) OR drop_bit 4 (b AND 0xf0))) OR
     drop_bit 2 (uint (push_bit 2 (b AND 0x0f) OR drop_bit 6 (c AND 0xc0)))) = (b::byte)"
  "word_of_int (push_bit 4 (uint (push_bit 4 (a AND 0x03) OR drop_bit 4 (b AND 0xf0))) OR
     drop_bit 2 (uint (push_bit 2 (b AND 0x0f)))) = (b::byte)"
  by (rule byte_eqI; simp add: bit_simps)+

lemma decode_byte3:
  "word_of_int ((push_bit 6 (uint (push_bit 2 (b AND 0x0f) OR drop_bit 6 (c AND 0xc0))) AND 0xc0) OR
     uint (c AND 0x3f)) = (c::byte)"
  by (rule byte_eqI; simp add: bit_simps)

lemma decodeGroups_encode: "decodeGroups (encodeToStrBase64 s) = s"
  by (induction s rule: encodeToStrBase64.induct)
     (simp_all add: sextet_facts decode_byte1 decode_byte2 decode_byte3 del: push_bit_and drop_bit_and)

lemma b64_ok_encode: "b64_ok (encodeToStrBase64 s)"
proof (induction s rule: encodeToStrBase64.induct)
  case (4 a b c rest)
  then show ?case
    by (cases "encodeToStrBase64 rest") (simp_all add: sextet_facts del: push_bit_and drop_bit_and)
qed (simp_all add: sextet_facts del: push_bit_and drop_bit_and)

section \<open>Sizes\<close>

lemma size_group [simp]:
  "encodeToStrSizeBase64 (Suc (Suc (Suc n))) = encodeToStrSizeBase64 n + 4"
  "encodeToStrSizeBase64Url (Suc (Suc (Suc n))) = encodeToStrSizeBase64Url n + 4"
proof -
  have "Suc (Suc (Suc n)) div 3 = n div 3 + 1" "Suc (Suc (Suc n)) mod 3 = n mod 3" by simp_all
  then show "encodeToStrSizeBase64 (Suc (Suc (Suc n))) = encodeToStrSizeBase64 n + 4"
    "encodeToStrSizeBase64Url (Suc (Suc (Suc n))) = encodeToStrSizeBase64Url n + 4"
    by (simp_all add: encodeToStrSizeBase64_def encodeToStrSizeBase64Url_def Let_def)
qed

lemma encode_size: "length (encodeToStrBase64 s) = encodeToStrSizeBase64 (length s)"
  by (induction s rule: encodeToStrBase64.induct) (simp_all, simp_all add: encodeToStrSizeBase64_def)

lemma encode_url_size: "length (encodeToStrBase64Url s) = encodeToStrSizeBase64Url (length s)"
  by (induction s rule: encodeToStrBase64Url.induct) (simp_all, simp_all add: encodeToStrSizeBase64Url_def)

definition b64_padding :: "string \<Rightarrow> nat" where
  "b64_padding s =
     (if s = [] \<or> s ! (length s - 1) \<noteq> CHR 0x3d then 0
      else if s ! (length s - 2) \<noteq> CHR 0x3d then 1 else 2)"

lemma b64_ok_length: "b64_ok s \<Longrightarrow> s \<noteq> [] \<Longrightarrow> 4 \<le> length s"
  by (cases s rule: b64_ok.cases) simp_all

lemma b64_padding_step:
  assumes "b64_ok (r # rest)"
  shows "b64_padding (w # x # y # z # r # rest) = b64_padding (r # rest)"
proof -
  let ?s = "[w, x, y, z] @ (r # rest)"
  have len: "4 \<le> length (r # rest)" using b64_ok_length [OF assms] by simp
  have e: "?s ! (length ?s - j) = (r # rest) ! (length (r # rest) - j)" if "0 < j" "j \<le> 2" for j
  proof -
    have "length ?s - j = length [w, x, y, z] + (length (r # rest) - j)" using that len by simp
    then show ?thesis by (simp only: nth_append_length_plus)
  qed
  have "b64_padding ?s = b64_padding (r # rest)"
    unfolding b64_padding_def e [OF zero_less_one one_le_numeral] e [OF zero_less_numeral order_refl]
    by (simp only: append_is_Nil_conv list.distinct simp_thms)
  then show ?thesis by (simp only: append_Cons append_Nil)
qed

lemma digit_not_pad: "b64_digit c \<Longrightarrow> c \<noteq> CHR 0x3d"
  by auto

lemma decode_length: "b64_ok s \<Longrightarrow> length (decodeGroups s) + b64_padding s = length s div 4 * 3"
proof (induction s rule: b64_ok.induct)
  case (2 w x y z)
  have "b64_padding [w, x, y, z] = (if z \<noteq> CHR 0x3d then 0 else if y \<noteq> CHR 0x3d then 1 else 2)"
    by (simp add: b64_padding_def)
  then show ?case using 2 digit_not_pad by auto
next
  case (3 w x y z r rest)
  then have d: "y \<noteq> CHR 0x3d" "z \<noteq> CHR 0x3d" and ok: "b64_ok (r # rest)"
    by (auto dest: digit_not_pad)
  have "length (w # x # y # z # r # rest) div 4 = length (r # rest) div 4 + 1"
    by simp
  with 3 d ok show ?case by (simp add: b64_padding_step)
qed (simp_all add: b64_padding_def)

lemma decodeToBinSizeBase64_eq:
  assumes "b64_ok s" "s \<noteq> []"
  shows "decodeToBinSizeBase64 s = Inr (length (decodeGroups s))"
  using assms(2) decode_length [OF assms(1)] assms(1)
  by (auto simp: decodeToBinSizeBase64_def b64_padding_def validate_iff [symmetric] Let_def)

section \<open>Properties\<close>


text \<open>
  The validation accepts exactly the base64 grammar: groups of four alphabet characters, the
  last of which may end in one or two padding characters.
\<close>

lemma base64_validation_exact: "decodeToBinValidateBase64 s = Inr () \<longleftrightarrow> b64_ok s"
  by (rule validate_iff)


lemma validate_example: "decodeToBinValidateBase64 ''QUI='' = Inr ()"
  by (simp add: validate_iff b64_digit_def decodeValue_def decodeBase64Lookup_def)


text \<open>
  Two inputs reach undefined behaviour. The empty string passes the validation, and
  \<open>decodeToBinSizeBase64\<close> then reads the character before the string. A character above 127, in a
  string of the right length whose earlier characters are all in the alphabet, is used as a
  negative index of the decoding table before it can be refused.
\<close>

lemma base64_undefined_behavior:
  "decodeToBinSize encodeBase64 [] = Inl UndefinedBehavior \<and>
   (\<forall>c x y z. 128 \<le> chr_code c \<longrightarrow> decodeToBin encodeBase64 [c, x, y, z] = Inl UndefinedBehavior)"
proof -
  have "decodeToBin encodeBase64 [c, x, y, z] = Inl UndefinedBehavior" if "128 \<le> chr_code c" for c x y z
  proof -
    have "c \<noteq> CHR 0x3d" using that by auto
    then have "decodeToBinValidateLoop [c, x, y, z] 0 = Inl UndefinedBehavior"
      using that by (simp add: decodeToBinValidateLoop.simps [of "[c, x, y, z]"] decodeLookupAt_def)
    then show ?thesis
      by (simp add: decodeToBin_def decodeToBinBase64_def decodeToBinValidateBase64_def)
  qed
  moreover have "decodeToBinSize encodeBase64 [] = Inl UndefinedBehavior"
    by (simp add: decodeToBinSize_def decodeToBinSizeBase64_def decodeToBinValidateBase64_def
        decodeToBinValidateLoop.simps)
  ultimately show ?thesis by blast
qed

theorem base64_undefined_behavior_witness:
  "128 \<le> chr_code (CHR 0xc3) \<and>
   decodeToBin encodeBase64 [CHR 0xc3, CHR 0xa9, CHR ''A'', CHR ''A''] = Inl UndefinedBehavior"
  using base64_undefined_behavior by simp

end
