(* ===== verification/ListType.thy ===== *)
theory ListType
  imports Prelude
begin

text \<open>
  The list type of src/common/type/list.c and list.h. A list is an allocated block of
  \<open>listSizeMax\<close> items of which \<open>listSize\<close> are used from the current start on: removing the first
  item only moves the start (\<open>list\<close>) up inside the block (\<open>listAlloc\<close>), and an insertion that
  finds no room at the end moves the items back down. The record keeps the block, the offset of
  the start and the counters of the struct; \<open>lstItems\<close> is the abstraction to a HOL list and
  \<open>lst_inv\<close> the representation invariant. The counters are unsigned int, with the wrap-around
  written out. A pointer to an item is its index.

  \<open>bsearch\<close> and \<open>qsort\<close> are the C library: the search is modelled as the usual bisection, the
  sort is an argument of the operations that use it, whose contract is the locale
  \<open>qsort_contract\<close>; glibc's merge sort is its interpretation.
\<close>

section \<open>Data\<close>

datatype SortOrder = sortOrderNone | sortOrderAsc | sortOrderDesc

text \<open>
  The pointers \<open>listAlloc\<close> and \<open>list\<close>: not allocated yet, a block with the offset of the start,
  or freed by \<open>lstClear\<close>, which leaves both pointers as they were. An item of the block that
  was never written is None.
\<close>

datatype 'a ListPtr = ListNull | ListBlock "'a option list" nat | ListFreed

type_synonym 'a comparator = "'a \<Rightarrow> 'a \<Rightarrow> int"

record 'a List =
  listSize :: nat
  listSizeMax :: nat
  listSortOrder :: SortOrder
  listPtr :: "'a ListPtr"
  listComparator :: "'a comparator option"

definition LIST_INITIAL_SIZE :: nat where "LIST_INITIAL_SIZE = 8"

abbreviation uint_range :: nat where "uint_range \<equiv> 2 ^ 32"

section \<open>Operations\<close>

definition lstNew :: "SortOrder \<Rightarrow> 'a comparator option \<Rightarrow> 'a List" where
  "lstNew sortOrder comparator =
     \<lparr>listSize = 0, listSizeMax = 0, listSortOrder = sortOrder, listPtr = ListNull,
      listComparator = comparator\<rparr>"

text \<open>
  \<open>memFree\<close> takes the allocation header in front of its argument, so it needs the start of the
  block and a block that was not freed before.
\<close>

definition lstClear :: "'a List \<Rightarrow> 'a List result" where
  "lstClear this = (case listPtr this of
     ListNull \<Rightarrow> Inr this
   | ListBlock cells off \<Rightarrow>
       (if off = 0 then Inr (this\<lparr>listPtr := ListFreed, listSize := 0, listSizeMax := 0\<rparr>)
        else Inl UndefinedBehavior)
   | ListFreed \<Rightarrow> Inl UndefinedBehavior)"

text \<open>The items in use, as the array the C library functions see.\<close>

definition lstItems :: "'a List \<Rightarrow> 'a list" where
  "lstItems this = (case listPtr this of
     ListBlock cells off \<Rightarrow> map the (take (listSize this) (drop off cells))
   | _ \<Rightarrow> [])"

definition lstGet :: "'a List \<Rightarrow> nat \<Rightarrow> 'a result" where
  "lstGet this listIdx =
     (if listIdx \<ge> listSize this then Inl AssertError else Inr (lstItems this ! listIdx))"

definition lstGetLast :: "'a List \<Rightarrow> 'a result" where
  "lstGetLast this =
     (if listSize this = 0 then Inl AssertError else lstGet this (listSize this - 1))"

function bsearchRange :: "('a \<Rightarrow> int) \<Rightarrow> 'a list \<Rightarrow> nat \<Rightarrow> nat \<Rightarrow> nat option" where
  "bsearchRange cmpKey base l u =
     (if l < u then
        let idx = (l + u) div 2; comparison = cmpKey (base ! idx)
        in if comparison < 0 then bsearchRange cmpKey base l idx
           else if comparison > 0 then bsearchRange cmpKey base (idx + 1) u
           else Some idx
      else None)"
  by pat_completeness auto
termination
  by (relation "measure (\<lambda>(_, _, l, u). u - l)") auto

declare bsearchRange.simps [simp del]

definition bsearch :: "'a \<Rightarrow> 'a list \<Rightarrow> 'a comparator \<Rightarrow> nat option" where
  "bsearch key base compar = bsearchRange (compar key) base 0 (length base)"

definition lstComparatorDesc :: "'a comparator \<Rightarrow> 'a comparator" where
  "lstComparatorDesc comparator item1 item2 = comparator item2 item1"

text \<open>The iterative search, from \<open>listIdx\<close> on.\<close>

fun lstFindIter :: "'a comparator \<Rightarrow> 'a \<Rightarrow> 'a list \<Rightarrow> nat \<Rightarrow> nat option" where
  "lstFindIter comparator item [] listIdx = None"
| "lstFindIter comparator item (x # xs) listIdx =
     (if comparator item x = 0 then Some listIdx
      else lstFindIter comparator item xs (Suc listIdx))"

definition lstFind :: "'a List \<Rightarrow> 'a \<Rightarrow> nat option result" where
  "lstFind this item = (case listComparator this of
     None \<Rightarrow> Inl AssertError
   | Some comparator \<Rightarrow> Inr (case listSortOrder this of
       sortOrderAsc \<Rightarrow> bsearch item (lstItems this) comparator
     | sortOrderDesc \<Rightarrow> bsearch item (lstItems this) (lstComparatorDesc comparator)
     | sortOrderNone \<Rightarrow> lstFindIter comparator item (lstItems this) 0))"

definition LIST_NOT_FOUND :: nat where "LIST_NOT_FOUND = uint_range - 1"

definition lstFindIdx :: "'a List \<Rightarrow> 'a \<Rightarrow> nat result" where
  "lstFindIdx this item =
     mapE (\<lambda>r. case r of None \<Rightarrow> LIST_NOT_FOUND | Some i \<Rightarrow> i) (lstFind this item)"

definition lstExists :: "'a List \<Rightarrow> 'a \<Rightarrow> bool result" where
  "lstExists this item = mapE (\<lambda>r. r \<noteq> None) (lstFind this item)"

text \<open>
  The room \<open>lstInsert\<close> makes: a first block, a block of twice the size (\<open>memResize\<close> needs the
  start of the block), or the items moved down to the start of the block.
\<close>

definition lstReserve :: "'a List \<Rightarrow> 'a List result" where
  "lstReserve this =
     (if listSize this = listSizeMax this then
        (if listSizeMax this = 0 then
           Inr (this\<lparr>listSizeMax := LIST_INITIAL_SIZE,
                     listPtr := ListBlock (replicate LIST_INITIAL_SIZE None) 0\<rparr>)
         else (case listPtr this of
             ListBlock cells off \<Rightarrow>
               (if off = 0 then
                  let max' = (listSizeMax this * 2) mod uint_range
                  in Inr (this\<lparr>listSizeMax := max',
                       listPtr := ListBlock (take max' cells @ replicate (max' - length cells) None) 0\<rparr>)
                else Inl UndefinedBehavior)
           | _ \<Rightarrow> Inl UndefinedBehavior))
      else (case listPtr this of
          ListBlock cells off \<Rightarrow>
            (if off \<noteq> 0 \<and> listSize this + off = listSizeMax this
             then Inr (this\<lparr>listPtr :=
                    ListBlock (take (listSize this) (drop off cells) @ drop (listSize this) cells) 0\<rparr>)
             else Inr this)
        | _ \<Rightarrow> Inr this))"

definition lstInsert :: "'a List \<Rightarrow> nat \<Rightarrow> 'a \<Rightarrow> 'a List result" where
  "lstInsert this listIdx item =
     (if listIdx > listSize this then Inl AssertError
      else bindE (lstReserve this) (\<lambda>t. case listPtr t of
        ListBlock cells off \<Rightarrow>
          (if off + listSize t < length cells then
             Inr (t\<lparr>listPtr := ListBlock
                      (take (off + listIdx) cells @ Some item #
                       take (listSize t - listIdx) (drop (off + listIdx) cells) @
                       drop (off + listSize t + 1) cells) off,
                    listSortOrder := sortOrderNone,
                    listSize := (listSize t + 1) mod uint_range\<rparr>)
           else Inl UndefinedBehavior)
      | _ \<Rightarrow> Inl UndefinedBehavior))"

definition lstAdd :: "'a List \<Rightarrow> 'a \<Rightarrow> 'a List result" where
  "lstAdd this item = lstInsert this (listSize this) item"

text \<open>
  The size is decremented first, also when it is zero. The items after the removed one are moved
  with \<open>memmove\<close>, whose count \<open>lstSize(this) - listIdx\<close> is negative (that is, huge) when the index is the
  old size.
\<close>

definition lstRemoveIdx :: "'a List \<Rightarrow> nat \<Rightarrow> 'a List result" where
  "lstRemoveIdx this listIdx =
     (if listIdx > listSize this then Inl AssertError
      else let size' = (listSize this + uint_range - 1) mod uint_range
        in case listPtr this of
          ListBlock cells off \<Rightarrow>
            (if listIdx = 0 then Inr (this\<lparr>listSize := size', listPtr := ListBlock cells (off + 1)\<rparr>)
             else if listIdx \<le> size' then
               Inr (this\<lparr>listSize := size',
                 listPtr := ListBlock
                   (take (off + listIdx) cells @
                    take (size' - listIdx) (drop (off + listIdx + 1) cells) @
                    drop (off + size') cells) off\<rparr>)
             else Inl UndefinedBehavior)
        | _ \<Rightarrow> Inl UndefinedBehavior)"

definition lstRemove :: "'a List \<Rightarrow> 'a \<Rightarrow> ('a List \<times> bool) result" where
  "lstRemove this item =
     bindE (lstFindIdx this item) (\<lambda>listIdx.
       if listIdx \<noteq> LIST_NOT_FOUND then mapE (\<lambda>t. (t, True)) (lstRemoveIdx this listIdx)
       else Inr (this, False))"

definition lstRemoveLast :: "'a List \<Rightarrow> 'a List result" where
  "lstRemoveLast this =
     (if listSize this = 0 then Inl AssertError else lstRemoveIdx this (listSize this - 1))"

text \<open>The first argument is the C library's \<open>qsort\<close>.\<close>

definition lstSort :: "('a comparator \<Rightarrow> 'a list \<Rightarrow> 'a list) \<Rightarrow> 'a List \<Rightarrow> SortOrder \<Rightarrow> 'a List result" where
  "lstSort qsort this sortOrder = (case listComparator this of
     None \<Rightarrow> Inl AssertError
   | Some comparator \<Rightarrow>
       let put = (\<lambda>items. case listPtr this of
             ListBlock cells off \<Rightarrow>
               this\<lparr>listPtr := ListBlock
                      (take off cells @ map Some items @ drop (off + listSize this) cells) off\<rparr>
           | _ \<Rightarrow> this);
           sorted = (case sortOrder of
               sortOrderAsc \<Rightarrow> put (qsort comparator (lstItems this))
             | sortOrderDesc \<Rightarrow> put (qsort (lstComparatorDesc comparator) (lstItems this))
             | sortOrderNone \<Rightarrow> this)
       in Inr (sorted\<lparr>listSortOrder := sortOrder\<rparr>))"

definition lstComparatorSet :: "'a List \<Rightarrow> 'a comparator option \<Rightarrow> 'a List" where
  "lstComparatorSet this comparator =
     this\<lparr>listComparator := comparator, listSortOrder := sortOrderNone\<rparr>"

section \<open>Representation\<close>

definition lst_inv :: "'a List \<Rightarrow> bool" where
  "lst_inv this = (case listPtr this of
     ListBlock cells off \<Rightarrow>
       length cells = listSizeMax this \<and> off + listSize this \<le> listSizeMax this \<and>
       0 < listSizeMax this \<and> listSizeMax this < uint_range \<and>
       (\<forall>c \<in> set (take (listSize this) (drop off cells)). c \<noteq> None)
   | _ \<Rightarrow> listSize this = 0 \<and> listSizeMax this = 0)"

lemma length_lstItems: "lst_inv this \<Longrightarrow> length (lstItems this) = listSize this"
  by (auto simp: lst_inv_def lstItems_def split: ListPtr.splits)

lemma lst_inv_new: "lst_inv (lstNew so cmp)" "lstItems (lstNew so cmp) = []"
  by (simp_all add: lst_inv_def lstNew_def lstItems_def)

lemma lst_block_cells:
  assumes "lst_inv this" "listPtr this = ListBlock cells off"
  shows "take (listSize this) (drop off cells) = map Some (lstItems this)"
  using assms by (auto simp: lst_inv_def lstItems_def intro!: map_idI [symmetric])

lemma lst_block_intro:
  assumes "listPtr t = ListBlock cells off" "take (listSize t) (drop off cells) = map Some xs"
    "length cells = listSizeMax t" "off + listSize t \<le> listSizeMax t"
    "0 < listSizeMax t" "listSizeMax t < uint_range"
  shows "lst_inv t \<and> lstItems t = xs"
  using assms by (auto simp: lst_inv_def lstItems_def comp_def)

lemma lstReserve_ok:
  assumes "lst_inv this" "listSize this < 2 ^ 31"
  shows "\<exists>t cells off. lstReserve this = Inr t \<and> listPtr t = ListBlock cells off \<and>
    off + listSize t < length cells \<and> lst_inv t \<and> lstItems t = lstItems this \<and>
    listSize t = listSize this \<and> listComparator t = listComparator this"
proof (cases "listPtr this")
  case (ListBlock cells off)
  then have inv: "length cells = listSizeMax this" "off + listSize this \<le> listSizeMax this"
      "0 < listSizeMax this" "listSizeMax this < uint_range"
    using assms(1) by (simp_all add: lst_inv_def)
  have ne: "\<forall>c \<in> set (take (listSize this) (drop off cells)). c \<noteq> None"
    using assms(1) ListBlock by (simp add: lst_inv_def)
  consider (grow) "listSize this = listSizeMax this"
    | (down) "listSize this \<noteq> listSizeMax this" "off \<noteq> 0" "listSize this + off = listSizeMax this"
    | (room) "listSize this \<noteq> listSizeMax this" "\<not> (off \<noteq> 0 \<and> listSize this + off = listSizeMax this)"
    by blast
  then show ?thesis
  proof cases
    case grow
    then have "off = 0" using inv by simp
    then show ?thesis using grow ListBlock inv ne assms(2)
      by (simp add: lstReserve_def Let_def lst_inv_def lstItems_def)
  next
    case down
    have "take (listSize this) (take (listSize this) (drop off cells) @ drop (listSize this) cells) =
        take (listSize this) (drop off cells)" using inv down by simp
    then show ?thesis using down ListBlock inv ne
      by (simp add: lstReserve_def lst_inv_def lstItems_def) arith
  next
    case room
    then show ?thesis using ListBlock inv assms(1)
      by (auto simp: lstReserve_def lst_inv_def lstItems_def)
  qed
qed (use assms in \<open>auto simp: lstReserve_def lst_inv_def lstItems_def LIST_INITIAL_SIZE_def\<close>)

lemma lstInsert_items:
  assumes "lst_inv this" "listIdx \<le> listSize this" "listSize this < 2 ^ 31"
  shows "\<exists>t. lstInsert this listIdx item = Inr t \<and> lst_inv t \<and>
    lstItems t = take listIdx (lstItems this) @ item # drop listIdx (lstItems this) \<and>
    listSortOrder t = sortOrderNone \<and> listComparator t = listComparator this"
proof -
  from lstReserve_ok [OF assms(1,3)] obtain t cells off where
    t: "lstReserve this = Inr t" "listPtr t = ListBlock cells off" "off + listSize t < length cells"
      "lst_inv t" "lstItems t = lstItems this" "listSize t = listSize this"
      "listComparator t = listComparator this"
    by blast
  let ?n = "listSize this"
  let ?cells = "take (off + listIdx) cells @ Some item #
    take (?n - listIdx) (drop (off + listIdx) cells) @ drop (off + ?n + 1) cells"
  have used: "take ?n (drop off cells) = map Some (lstItems this)"
    using lst_block_cells [OF t(4,2)] t(5,6) by simp
  have len: "off + ?n < length cells" using t(3,6) by simp
  have "take (Suc ?n) (drop off ?cells) =
      take listIdx (drop off cells) @ Some item # take (?n - listIdx) (drop (off + listIdx) cells)"
    using assms(2) len by (simp add: Suc_diff_le drop_take)
  also have "\<dots> = take listIdx (take ?n (drop off cells)) @ Some item # drop listIdx (take ?n (drop off cells))"
    using assms(2) by (simp add: drop_take add.commute min_def)
  finally have block: "take (Suc ?n) (drop off ?cells) =
      map Some (take listIdx (lstItems this) @ item # drop listIdx (lstItems this))"
    unfolding used by (simp add: take_map drop_map)
  let ?t = "t\<lparr>listPtr := ListBlock ?cells off, listSortOrder := sortOrderNone, listSize := Suc ?n\<rparr>"
  have "lstInsert this listIdx item = Inr ?t"
    using assms(2,3) t len by (simp add: lstInsert_def)
  moreover have "length ?cells = listSizeMax t" "0 < listSizeMax t" "listSizeMax t < uint_range"
    "off + Suc ?n \<le> listSizeMax t"
    using t(2,4,6) len assms(2) by (auto simp: lst_inv_def)
  then have "lst_inv ?t \<and>
      lstItems ?t = take listIdx (lstItems this) @ item # drop listIdx (lstItems this)"
    by (intro lst_block_intro [where cells = ?cells and off = off]) (use block in simp_all)
  ultimately show ?thesis using t(7) by auto
qed

lemma lstRemoveIdx_items:
  assumes "lst_inv this" "listIdx < listSize this"
  shows "\<exists>t. lstRemoveIdx this listIdx = Inr t \<and> lst_inv t \<and>
    lstItems t = take listIdx (lstItems this) @ drop (Suc listIdx) (lstItems this) \<and>
    listSortOrder t = listSortOrder this \<and> listComparator t = listComparator this"
proof -
  obtain cells off where ptr: "listPtr this = ListBlock cells off"
    using assms by (cases "listPtr this") (simp_all add: lst_inv_def)
  have inv: "length cells = listSizeMax this" "off + listSize this \<le> listSizeMax this"
      "listSizeMax this < uint_range"
    using assms(1) ptr by (simp_all add: lst_inv_def)
  have used: "take (listSize this) (drop off cells) = map Some (lstItems this)"
    using lst_block_cells [OF assms(1) ptr] .
  obtain m where m: "listSize this = Suc m" using assms(2) by (cases "listSize this") auto
  then have dec: "(listSize this + uint_range - 1) mod uint_range = m" using inv by simp
  show ?thesis
  proof (cases "listIdx = 0")
    case True
    have "take m (drop (Suc off) cells) = drop 1 (take (listSize this) (drop off cells))"
      using m by (simp add: drop_take)
    then have b: "take m (drop (Suc off) cells) = map Some (drop 1 (lstItems this))"
      unfolding used by (simp add: drop_map)
    let ?t = "this\<lparr>listSize := m, listPtr := ListBlock cells (Suc off)\<rparr>"
    have "lstRemoveIdx this listIdx = Inr ?t" using True ptr dec by (simp add: lstRemoveIdx_def)
    moreover have "lst_inv ?t \<and> lstItems ?t = drop 1 (lstItems this)"
      by (intro lst_block_intro [where cells = cells and off = "Suc off"]) (use inv m b in simp_all)
    ultimately show ?thesis using True by auto
  next
    case False
    let ?cells = "take (off + listIdx) cells @ take (m - listIdx) (drop (off + listIdx + 1) cells) @
      drop (off + m) cells"
    have "take m (drop off ?cells) =
        take listIdx (drop off cells) @ take (m - listIdx) (drop (off + listIdx + 1) cells)"
      using inv m assms(2) by (simp add: drop_take)
    also have "\<dots> = take listIdx (take (listSize this) (drop off cells)) @
        drop (Suc listIdx) (take (listSize this) (drop off cells))"
      using m assms(2) by (simp add: drop_take add.commute)
    finally have b: "take m (drop off ?cells) =
        map Some (take listIdx (lstItems this) @ drop (Suc listIdx) (lstItems this))"
      unfolding used by (simp add: take_map drop_map)
    let ?t = "this\<lparr>listSize := m, listPtr := ListBlock ?cells off\<rparr>"
    have "lstRemoveIdx this listIdx = Inr ?t"
      using False ptr dec m assms(2) by (simp add: lstRemoveIdx_def)
    moreover have "length ?cells = listSizeMax this" using inv m assms(2) by simp
    then have "lst_inv ?t \<and>
        lstItems ?t = take listIdx (lstItems this) @ drop (Suc listIdx) (lstItems this)"
      by (intro lst_block_intro [where cells = ?cells and off = off]) (use inv m b in simp_all)
    ultimately show ?thesis by auto
  qed
qed

section \<open>Comparators, searching and sorting\<close>

text \<open>
  What \<open>ListComparator\<close> functions promise: swapping the arguments swaps the sign, and "not
  greater" is transitive.
\<close>

locale comparator_order =
  fixes cmp :: "'a comparator"
  assumes flip: "sgn (cmp y x) = - sgn (cmp x y)"
    and not_greater_trans: "cmp x y \<le> 0 \<Longrightarrow> cmp y z \<le> 0 \<Longrightarrow> cmp x z \<le> 0"
begin

lemma flip_iffs:
  "cmp y x < 0 \<longleftrightarrow> 0 < cmp x y" "cmp y x \<le> 0 \<longleftrightarrow> 0 \<le> cmp x y" "cmp y x = 0 \<longleftrightarrow> cmp x y = 0"
  using flip [of y x] by (auto simp: sgn_if split: if_splits)

lemma cmp_refl: "cmp x x = 0"
  using flip [of x x] by (auto simp: sgn_if split: if_splits)

lemma desc_order: "comparator_order (lstComparatorDesc cmp)"
proof
  fix x y z
  show "sgn (lstComparatorDesc cmp y x) = - sgn (lstComparatorDesc cmp x y)"
    using flip [of x y] by (simp add: lstComparatorDesc_def)
  show "lstComparatorDesc cmp x y \<le> 0 \<Longrightarrow> lstComparatorDesc cmp y z \<le> 0 \<Longrightarrow> lstComparatorDesc cmp x z \<le> 0"
    using not_greater_trans [of z y x] by (simp add: lstComparatorDesc_def)
qed

lemma bsearchRange_correct:
  assumes "sorted_wrt (\<lambda>x y. cmp x y \<le> 0) base" "u \<le> length base"
  shows "case bsearchRange (cmp key) base l u of
      Some i \<Rightarrow> l \<le> i \<and> i < u \<and> cmp key (base ! i) = 0
    | None \<Rightarrow> \<forall>i. l \<le> i \<and> i < u \<longrightarrow> cmp key (base ! i) \<noteq> 0"
  using assms
proof (induction "cmp key" base l u rule: bsearchRange.induct)
  case (1 base l u)
  let ?m = "(l + u) div 2"
  show ?case
  proof (cases "l < u")
    case True
    then have m: "l \<le> ?m" "?m < u" by auto
    have before: "cmp (base ! i) (base ! j) \<le> 0" if "i < j" "j < u" for i j
      using sorted_wrt_nth_less [OF 1(3) that(1)] that(2) 1(4) by simp
    consider "cmp key (base ! ?m) < 0" | "cmp key (base ! ?m) > 0" | "cmp key (base ! ?m) = 0"
      by linarith
    then show ?thesis
    proof cases
      case 1
      have upper: "cmp key (base ! i) \<noteq> 0" if "?m \<le> i" "i < u" for i
      proof
        assume "cmp key (base ! i) = 0"
        then have "cmp (base ! i) key = 0" using flip_iffs(3) by blast
        then have "cmp (base ! i) key \<le> 0" by simp
        moreover have "cmp (base ! ?m) (base ! i) \<le> 0"
          using before [of ?m i] cmp_refl that by (cases "?m = i") auto
        ultimately have "cmp (base ! ?m) key \<le> 0" using not_greater_trans by blast
        then show False using 1 flip_iffs(2) by fastforce
      qed
      have eq: "bsearchRange (cmp key) base l u = bsearchRange (cmp key) base l ?m"
        using True 1 by (simp add: bsearchRange.simps [of _ base l u] Let_def)
      have IH: "case bsearchRange (cmp key) base l ?m of
          Some i \<Rightarrow> l \<le> i \<and> i < ?m \<and> cmp key (base ! i) = 0
        | None \<Rightarrow> \<forall>i. l \<le> i \<and> i < ?m \<longrightarrow> cmp key (base ! i) \<noteq> 0"
        using "1.hyps"(1) [OF True refl refl 1] "1.prems" m by simp
      show ?thesis unfolding eq
        by (cases "bsearchRange (cmp key) base l ?m") (use IH upper m in \<open>auto, meson not_le\<close>)
    next
      case 2
      have lower: "cmp key (base ! i) \<noteq> 0" if "l \<le> i" "i \<le> ?m" for i
      proof
        assume "cmp key (base ! i) = 0"
        then have "cmp key (base ! i) \<le> 0" by simp
        moreover have "cmp (base ! i) (base ! ?m) \<le> 0"
          using before [of i ?m] cmp_refl that m by (cases "?m = i") auto
        ultimately have "cmp key (base ! ?m) \<le> 0" using not_greater_trans by blast
        then show False using 2 by simp
      qed
      have eq: "bsearchRange (cmp key) base l u = bsearchRange (cmp key) base (?m + 1) u"
        using True 2 by (simp add: bsearchRange.simps [of _ base l u] Let_def)
      have IH: "case bsearchRange (cmp key) base (?m + 1) u of
          Some i \<Rightarrow> ?m + 1 \<le> i \<and> i < u \<and> cmp key (base ! i) = 0
        | None \<Rightarrow> \<forall>i. ?m + 1 \<le> i \<and> i < u \<longrightarrow> cmp key (base ! i) \<noteq> 0"
        using "1.hyps"(2) [OF True refl refl _ 2] 2 "1.prems" by simp
      show ?thesis unfolding eq
        by (cases "bsearchRange (cmp key) base (?m + 1) u")
          (use IH lower m in \<open>auto, meson not_less_eq_eq\<close>)
    next
      case 3
      then show ?thesis using True m by (simp add: bsearchRange.simps [of _ base l u] Let_def)
    qed
  next
    case False
    then show ?thesis by (simp add: bsearchRange.simps [of _ base l u])
  qed
qed

lemma bsearch_correct:
  assumes "sorted_wrt (\<lambda>x y. cmp x y \<le> 0) base"
  shows "case bsearch key base cmp of
      Some i \<Rightarrow> i < length base \<and> cmp key (base ! i) = 0
    | None \<Rightarrow> \<forall>x \<in> set base. cmp key x \<noteq> 0"
  using bsearchRange_correct [OF assms order_refl, where key = key and l = 0]
  by (auto simp: bsearch_def in_set_conv_nth split: option.splits)

end

text \<open>The contract of \<open>qsort\<close>: a permutation, in order whenever the comparator is an order.\<close>

locale qsort_contract =
  fixes qsort :: "'a comparator \<Rightarrow> 'a list \<Rightarrow> 'a list"
  assumes qsort_mset: "mset (qsort cmp xs) = mset xs"
    and qsort_sorted: "comparator_order cmp \<Longrightarrow> sorted_wrt (\<lambda>x y. cmp x y \<le> 0) (qsort cmp xs)"

text \<open>glibc sorts by merging, the element of the first half first when the two compare equal.\<close>

fun msortMerge :: "'a comparator \<Rightarrow> 'a list \<Rightarrow> 'a list \<Rightarrow> 'a list" where
  "msortMerge cmp [] ys = ys"
| "msortMerge cmp xs [] = xs"
| "msortMerge cmp (x # xs) (y # ys) =
     (if cmp x y \<le> 0 then x # msortMerge cmp xs (y # ys) else y # msortMerge cmp (x # xs) ys)"

function msort :: "'a comparator \<Rightarrow> 'a list \<Rightarrow> 'a list" where
  "msort cmp xs =
     (if length xs \<le> 1 then xs
      else let n1 = length xs div 2
        in msortMerge cmp (msort cmp (take n1 xs)) (msort cmp (drop n1 xs)))"
  by pat_completeness auto
termination
  by (relation "measure (\<lambda>(_, xs). length xs)") auto

declare msort.simps [simp del]

lemma mset_msortMerge: "mset (msortMerge cmp xs ys) = mset xs + mset ys"
  by (induction cmp xs ys rule: msortMerge.induct) auto

lemma set_msortMerge: "set (msortMerge cmp xs ys) = set xs \<union> set ys"
  using arg_cong [OF mset_msortMerge [of cmp xs ys], of set_mset] by simp

lemma mset_msort: "mset (msort cmp xs) = mset xs"
proof (induction cmp xs rule: msort.induct)
  case (1 cmp xs)
  have "mset (take (length xs div 2) xs) + mset (drop (length xs div 2) xs) = mset xs"
    by (metis append_take_drop_id mset_append)
  with 1 show ?case by (cases "length xs \<le> 1") (auto simp: msort.simps [of cmp xs] Let_def mset_msortMerge)
qed

lemma sorted_msortMerge:
  "comparator_order cmp \<Longrightarrow> sorted_wrt (\<lambda>x y. cmp x y \<le> 0) xs \<Longrightarrow> sorted_wrt (\<lambda>x y. cmp x y \<le> 0) ys \<Longrightarrow>
   sorted_wrt (\<lambda>x y. cmp x y \<le> 0) (msortMerge cmp xs ys)"
proof (induction cmp xs ys rule: msortMerge.induct)
  case (3 cmp x xs y ys)
  note tr = comparator_order.not_greater_trans [OF "3.prems"(1)]
  show ?case
  proof (cases "cmp x y \<le> 0")
    case True
    then have "\<forall>z \<in> set ys. cmp x z \<le> 0" using "3.prems"(3) tr by auto
    with True "3" show ?thesis by (simp add: set_msortMerge ball_Un)
  next
    case False
    then have yx: "cmp y x \<le> 0" using comparator_order.flip_iffs(2) [OF "3.prems"(1)] by fastforce
    then have "\<forall>z \<in> set xs. cmp y z \<le> 0" using "3.prems"(2) tr by auto
    with yx False "3" show ?thesis by (simp add: set_msortMerge ball_Un)
  qed
qed auto

lemma sorted_msort:
  "comparator_order cmp \<Longrightarrow> sorted_wrt (\<lambda>x y. cmp x y \<le> 0) (msort cmp xs)"
proof (induction cmp xs rule: msort.induct)
  case (1 cmp xs)
  show ?case
  proof (cases "length xs \<le> 1")
    case True
    then show ?thesis by (cases xs) (auto simp: msort.simps [of cmp])
  next
    case False
    with 1 show ?thesis by (simp add: msort.simps [of cmp xs] Let_def sorted_msortMerge)
  qed
qed

interpretation glibc: qsort_contract msort
  by unfold_locales (simp_all add: mset_msort sorted_msort)

section \<open>Sortedness of a list in use\<close>

text \<open>The sort order recorded in the list is true of its items.\<close>

definition lst_sorted :: "'a comparator \<Rightarrow> 'a List \<Rightarrow> bool" where
  "lst_sorted cmp this = (case listSortOrder this of
     sortOrderAsc \<Rightarrow> sorted_wrt (\<lambda>x y. cmp x y \<le> 0) (lstItems this)
   | sortOrderDesc \<Rightarrow> sorted_wrt (\<lambda>x y. lstComparatorDesc cmp x y \<le> 0) (lstItems this)
   | sortOrderNone \<Rightarrow> True)"

definition lst_ok :: "'a comparator \<Rightarrow> 'a List \<Rightarrow> bool" where
  "lst_ok cmp this \<longleftrightarrow> lst_inv this \<and> listComparator this = Some cmp \<and> lst_sorted cmp this"

lemma lstFindIter_correct:
  "case lstFindIter cmp item xs k of
     Some i \<Rightarrow> k \<le> i \<and> i < k + length xs \<and> cmp item (xs ! (i - k)) = 0
   | None \<Rightarrow> \<forall>x \<in> set xs. cmp item x \<noteq> 0"
proof (induction xs arbitrary: k)
  case (Cons x xs)
  show ?case
  proof (cases "cmp item x = 0")
    case False
    then show ?thesis using Cons.IH [of "Suc k"]
      by (cases "lstFindIter cmp item xs (Suc k)") (auto simp: nth_Cons' Suc_le_eq)
  qed simp
qed simp

lemma lstFind_correct:
  assumes "comparator_order cmp" "lst_ok cmp this"
  shows "\<exists>r. lstFind this item = Inr r \<and> (case r of
      Some i \<Rightarrow> i < listSize this \<and> cmp item (lstItems this ! i) = 0
    | None \<Rightarrow> \<forall>x \<in> set (lstItems this). cmp item x \<noteq> 0)"
proof -
  note len = length_lstItems [of this]
  have ok: "lst_inv this" "listComparator this = Some cmp" "lst_sorted cmp this"
    using assms(2) by (simp_all add: lst_ok_def)
  show ?thesis
  proof (cases "listSortOrder this")
    case sortOrderNone
    then show ?thesis using ok len lstFindIter_correct [where cmp = cmp and item = item and xs = "lstItems this" and k = 0]
      by (auto simp: lstFind_def split: option.splits)
  next
    case sortOrderAsc
    then show ?thesis
      using ok len comparator_order.bsearch_correct [OF assms(1), where base = "lstItems this" and key = item]
      by (auto simp: lstFind_def lst_sorted_def split: option.splits)
  next
    case sortOrderDesc
    then have "case bsearch item (lstItems this) (lstComparatorDesc cmp) of
        Some i \<Rightarrow> i < length (lstItems this) \<and> lstComparatorDesc cmp item (lstItems this ! i) = 0
      | None \<Rightarrow> \<forall>x \<in> set (lstItems this). lstComparatorDesc cmp item x \<noteq> 0"
      using ok by (intro comparator_order.bsearch_correct comparator_order.desc_order [OF assms(1)])
        (simp add: lst_sorted_def)
    then show ?thesis
      using sortOrderDesc ok len comparator_order.flip_iffs(3) [OF assms(1)]
      by (auto simp: lstFind_def lstComparatorDesc_def split: option.splits)
  qed
qed

lemma lst_sorted_sublist:
  assumes "lst_ok cmp this" "lst_inv t" "listSortOrder t = listSortOrder this"
    "listComparator t = listComparator this"
    "lstItems t = take k (lstItems this) @ drop (Suc k) (lstItems this)"
  shows "lst_ok cmp t"
proof -
  have "sorted_wrt P (take k (lstItems this) @ drop (Suc k) (lstItems this))"
    if "sorted_wrt P (lstItems this)" for P :: "'a \<Rightarrow> 'a \<Rightarrow> bool"
  proof -
    have "\<forall>x \<in> set (take (Suc k) (lstItems this)). \<forall>y \<in> set (drop (Suc k) (lstItems this)). P x y"
      using that sorted_wrt_append [of P "take (Suc k) (lstItems this)" "drop (Suc k) (lstItems this)"]
      by simp
    moreover have "set (take k (lstItems this)) \<subseteq> set (take (Suc k) (lstItems this))"
      by (rule set_take_subset_set_take) simp
    ultimately show ?thesis
      using sorted_wrt_take [OF that, of k] sorted_wrt_drop [OF that, of "Suc k"]
      by (auto simp: sorted_wrt_append)
  qed
  with assms show ?thesis by (auto simp: lst_ok_def lst_sorted_def split: SortOrder.splits)
qed

context qsort_contract
begin

lemma lstSort_items:
  assumes "comparator_order cmp" "lst_ok cmp this"
  shows "\<exists>t. lstSort qsort this so = Inr t \<and> lst_ok cmp t \<and> mset (lstItems t) = mset (lstItems this)
    \<and> listSortOrder t = so"
proof -
  have ok: "lst_inv this" "listComparator this = Some cmp" using assms(2) by (simp_all add: lst_ok_def)
  have len: "length (qsort c (lstItems this)) = listSize this" for c
    using arg_cong [OF qsort_mset [of c "lstItems this"], of size] length_lstItems [OF ok(1)] by simp
  define put where "put items = (case listPtr this of
      ListBlock cells off \<Rightarrow> this\<lparr>listPtr := ListBlock
        (take off cells @ map Some items @ drop (off + listSize this) cells) off\<rparr>
    | _ \<Rightarrow> this)" for items
  have put: "lst_inv (put xs) \<and> lstItems (put xs) = xs \<and> listComparator (put xs) = Some cmp"
    if "length xs = listSize this" for xs
  proof (cases "listPtr this")
    case (ListBlock cells off)
    have "lst_inv (put xs) \<and> lstItems (put xs) = xs"
      using ok(1) ListBlock that
      by (intro lst_block_intro [where cells = "take off cells @ map Some xs @ drop (off + listSize this) cells"
            and off = off]) (simp_all add: put_def lst_inv_def)
    then show ?thesis using ok ListBlock by (simp add: put_def)
  qed (use that ok in \<open>auto simp: put_def lst_inv_def lstItems_def\<close>)
  have desc: "comparator_order (lstComparatorDesc cmp)" by (rule comparator_order.desc_order [OF assms(1)])
  have inv_so: "lst_inv (t\<lparr>listSortOrder := s\<rparr>) = lst_inv t"
      "lstItems (t\<lparr>listSortOrder := s\<rparr>) = lstItems t" for t :: "'a List" and s
    by (simp_all add: lst_inv_def lstItems_def split: ListPtr.split)
  show ?thesis
    using put [OF len, of cmp] put [OF len, of "lstComparatorDesc cmp"] ok
      qsort_sorted [OF assms(1)] qsort_sorted [OF desc] qsort_mset
    by (cases so) (simp_all add: lstSort_def put_def [symmetric] lst_ok_def lst_sorted_def inv_so)
qed

end

section \<open>Lists in use\<close>

text \<open>
  A program using one list: any of the operations that change it, where it does not throw. An
  insertion needs room below half the range of unsigned int, so that doubling does not wrap.
\<close>

inductive lst_step :: "('a comparator \<Rightarrow> 'a list \<Rightarrow> 'a list) \<Rightarrow> 'a List \<Rightarrow> 'a List \<Rightarrow> bool"
  for qsort where
  step_insert: "lstInsert t i x = Inr t' \<Longrightarrow> listSize t < 2 ^ 31 \<Longrightarrow> lst_step qsort t t'"
| step_add: "lstAdd t x = Inr t' \<Longrightarrow> listSize t < 2 ^ 31 \<Longrightarrow> lst_step qsort t t'"
| step_remove_idx: "lstRemoveIdx t i = Inr t' \<Longrightarrow> i < listSize t \<Longrightarrow> lst_step qsort t t'"
| step_remove: "lstRemove t x = Inr (t', b) \<Longrightarrow> lst_step qsort t t'"
| step_remove_last: "lstRemoveLast t = Inr t' \<Longrightarrow> lst_step qsort t t'"
| step_sort: "lstSort qsort t so = Inr t' \<Longrightarrow> lst_step qsort t t'"

inductive lst_reachable :: "('a comparator \<Rightarrow> 'a list \<Rightarrow> 'a list) \<Rightarrow> 'a comparator \<Rightarrow> 'a List \<Rightarrow> bool"
  for qsort cmp where
  reach_new: "lst_reachable qsort cmp (lstNew so (Some cmp))"
| reach_step: "lst_reachable qsort cmp t \<Longrightarrow> lst_step qsort t t' \<Longrightarrow> lst_reachable qsort cmp t'"

lemma lst_ok_remove_idx:
  assumes "lst_ok cmp t" "i < listSize t" "lstRemoveIdx t i = Inr t'"
  shows "lst_ok cmp t'"
  using lstRemoveIdx_items [of t i] assms lst_sorted_sublist [OF assms(1)] by (auto simp: lst_ok_def)

lemma lst_ok_insert:
  assumes "lst_ok cmp t" "listSize t < 2 ^ 31" "lstInsert t i x = Inr t'"
  shows "lst_ok cmp t'"
proof -
  have "i \<le> listSize t" using assms(3) by (auto simp: lstInsert_def split: if_splits)
  then show ?thesis using lstInsert_items [of t i x] assms by (auto simp: lst_ok_def lst_sorted_def)
qed

lemma lstFindIdx_range:
  assumes "comparator_order cmp" "lst_ok cmp t" "lstFindIdx t x = Inr i" "i \<noteq> LIST_NOT_FOUND"
  shows "i < listSize t"
  using lstFind_correct [OF assms(1,2), of x] assms(3,4)
  by (auto simp: lstFindIdx_def split: option.splits)

context qsort_contract
begin

lemma lst_step_ok:
  assumes "comparator_order cmp"
  shows "lst_step qsort t t' \<Longrightarrow> lst_ok cmp t \<Longrightarrow> lst_ok cmp t'"
proof (induction rule: lst_step.induct)
  case (step_insert t i x t')
  show ?case by (rule lst_ok_insert [OF step_insert.prems step_insert.hyps(2,1)])
next
  case (step_add t x t')
  show ?case
    by (rule lst_ok_insert [OF step_add.prems step_add.hyps(2) step_add.hyps(1) [unfolded lstAdd_def]])
next
  case (step_remove_idx t i t')
  show ?case by (rule lst_ok_remove_idx [OF step_remove_idx.prems step_remove_idx.hyps(2,1)])
next
  case (step_remove t x t' b)
  then obtain i where i: "lstFindIdx t x = Inr i"
      "if i \<noteq> LIST_NOT_FOUND then lstRemoveIdx t i = Inr t' else t' = t"
    by (auto simp: lstRemove_def bindE_eq_Inr split: if_splits)
  show ?case
  proof (cases "i = LIST_NOT_FOUND")
    case True
    with i step_remove.prems show ?thesis by simp
  next
    case False
    with i have "lstRemoveIdx t i = Inr t'" by simp
    with lst_ok_remove_idx [OF step_remove.prems lstFindIdx_range [OF assms step_remove.prems i(1) False]]
    show ?thesis by blast
  qed
next
  case (step_remove_last t t')
  then show ?case using lst_ok_remove_idx [of cmp t "listSize t - 1" t']
    by (auto simp: lstRemoveLast_def split: if_splits)
next
  case (step_sort t so t')
  then show ?case using lstSort_items [OF assms, of t so] by auto
qed

lemma lst_reachable_ok:
  assumes "comparator_order cmp" "lst_reachable qsort cmp t"
  shows "lst_ok cmp t"
  using assms(2)
proof (induction rule: lst_reachable.induct)
  case (reach_new so)
  then show ?case
    by (simp add: lst_ok_def lst_inv_new lst_sorted_def split: SortOrder.split) (simp add: lstNew_def)
qed (use lst_step_ok [OF assms(1)] in blast)

end

section \<open>Properties\<close>


definition list_example :: "int List" where
  "list_example =
     \<lparr>listSize = 7, listSizeMax = 8, listSortOrder = sortOrderNone,
      listPtr = ListBlock (None # map Some [1, 2, 3, 4, 5, 6, 7]) 1, listComparator = None\<rparr>"


text \<open>
  C22. In any list reached from \<open>lstNew\<close> by adding, inserting, removing and sorting in any order,
  with a comparator that is an order and with glibc's sort, \<open>lstFind\<close> is right whichever of its
  three searches it picks: it returns the index of an item that compares equal, and NULL only when
  no item does.
\<close>

theorem lstFind_reachable:
  assumes "comparator_order cmp" "lst_reachable msort cmp t"
  shows "\<exists>r. lstFind t item = Inr r \<and> (case r of
      Some i \<Rightarrow> i < listSize t \<and> cmp item (lstItems t ! i) = 0
    | None \<Rightarrow> \<forall>x \<in> set (lstItems t). cmp item x \<noteq> 0)"
  using assms(1) glibc.lst_reachable_ok [OF assms] by (rule lstFind_correct)

lemma int_comparator: "comparator_order (\<lambda>x y. x - y :: int)"
  by unfold_locales (auto simp: sgn_if)

theorem lstFind_reachable_witness:
  "lst_reachable msort (\<lambda>x y. x - y :: int) (lstNew sortOrderAsc (Some (\<lambda>x y. x - y))) \<and>
   lstFind (lstNew sortOrderAsc (Some (\<lambda>x y. x - y :: int))) 5 = Inr None"
proof -
  have r: "lst_reachable msort (\<lambda>x y. x - y :: int) (lstNew sortOrderAsc (Some (\<lambda>x y. x - y)))"
    by (rule reach_new)
  obtain res where res: "lstFind (lstNew sortOrderAsc (Some (\<lambda>x y. x - y :: int))) 5 = Inr res"
    "case res of Some i \<Rightarrow> i < listSize (lstNew sortOrderAsc (Some (\<lambda>x y. x - y :: int))) \<and> True
     | None \<Rightarrow> True"
    using lstFind_reachable [OF int_comparator r, of 5] by (auto split: option.splits)
  then have "res = None" by (auto simp: lstNew_def split: option.splits)
  with r res show ?thesis by simp
qed

text \<open>
  \<open>lstClear\<close> is not safe on every list the other operations build: on a list with items whose
  first item was removed before, it passes to \<open>memFree\<close> a pointer into the middle of the block, and
  on a list already cleared it frees the block again.
\<close>

lemma lstClear_undefined_behavior:
  assumes "lst_inv this" "0 < listSize this"
  shows "(\<exists>t. lstRemoveIdx this 0 = Inr t \<and> lstClear t = Inl UndefinedBehavior) \<and>
    (\<forall>t. lstClear this = Inr t \<longrightarrow> lstClear t = Inl UndefinedBehavior)"
proof -
  obtain cells off where "listPtr this = ListBlock cells off"
    using assms by (cases "listPtr this") (simp_all add: lst_inv_def)
  then show ?thesis by (auto simp: lstRemoveIdx_def lstClear_def split: if_splits)
qed

lemma lstClear_undefined_behavior_witness:
  "\<exists>t. lstRemoveIdx (list_example\<lparr>listPtr := ListBlock (map Some [1, 2, 3, 4, 5, 6, 7, 8]) 0\<rparr>) 0 = Inr t \<and>
    lstClear t = Inl UndefinedBehavior"
proof -
  have "lst_inv (list_example\<lparr>listPtr := ListBlock (map Some [1, 2, 3, 4, 5, 6, 7, 8]) 0\<rparr>)"
    by (simp add: list_example_def lst_inv_def)
  from lstClear_undefined_behavior [OF this] show ?thesis by (auto simp: list_example_def)
qed

end
