(* ===== verification/StringType.thy ===== *)
theory StringType
  imports ListType "HOL-Library.Sublist"
begin

text \<open>
  Strings and string lists (src/common/type/string.c, stringList.c). A String is a HOL string
  without zero characters; where the C code passes NULL strings on, the model uses an option.
  The string comparison is the comparator of every list of strings: it is shown to be a total
  order (an interpretation of \<open>comparator_order\<close>), and with it sorted string lists, their merge
  and the searches of ListType are right.
\<close>

section \<open>Comparison\<close>

text \<open>\<open>strcmp\<close> compares unsigned characters; only the sign of its result is specified.\<close>

fun strcmp :: "string \<Rightarrow> string \<Rightarrow> int" where
  "strcmp [] [] = 0"
| "strcmp [] (_ # _) = -1"
| "strcmp (_ # _) [] = 1"
| "strcmp (a # as) (b # bs) =
     (if chr_code a < chr_code b then -1 else if chr_code a > chr_code b then 1 else strcmp as bs)"

fun strCmp :: "string option \<Rightarrow> string option \<Rightarrow> int" where
  "strCmp (Some this) (Some compare) = strcmp this compare"
| "strCmp None None = 0"
| "strCmp None (Some _) = -1"
| "strCmp (Some _) None = 1"

definition strEq :: "string option \<Rightarrow> string option \<Rightarrow> bool" where
  "strEq this compare = (case (this, compare) of
     (Some s, Some c) \<Rightarrow> length s = length c \<and> strcmp s c = 0
   | _ \<Rightarrow> this = None \<and> compare = None)"

section \<open>Parts of strings\<close>

definition strBeginsWith :: "string \<Rightarrow> string \<Rightarrow> bool" where
  "strBeginsWith this beginsWith =
     (if length this \<ge> length beginsWith then strcmp (take (length beginsWith) this) beginsWith = 0
      else False)"

definition strEndsWith :: "string \<Rightarrow> string \<Rightarrow> bool" where
  "strEndsWith this endsWith =
     (if length this \<ge> length endsWith
      then strcmp (drop (length this - length endsWith) this) endsWith = 0 else False)"

definition strSubN :: "string \<Rightarrow> nat \<Rightarrow> nat \<Rightarrow> string result" where
  "strSubN this start n =
     (if start \<le> length this \<and> start + n \<le> length this then Inr (take n (drop start this))
      else Inl AssertError)"

definition strSub :: "string \<Rightarrow> nat \<Rightarrow> string result" where
  "strSub this start =
     (if start \<le> length this then strSubN this start (length this - start) else Inl AssertError)"

text \<open>The loop of \<open>strBaseZ\<close> and \<open>strPath\<close>: back from the end to the character after a slash.\<close>

fun strBaseEnd :: "string \<Rightarrow> nat \<Rightarrow> nat" where
  "strBaseEnd this 0 = 0"
| "strBaseEnd this (Suc pos) = (if this ! pos \<noteq> CHR ''/'' then strBaseEnd this pos else Suc pos)"

definition strBase :: "string \<Rightarrow> string" where
  "strBase this = drop (strBaseEnd this (length this)) this"

definition strPath :: "string \<Rightarrow> string" where
  "strPath this =
     (let pos = strBaseEnd this (length this) in take (if pos \<le> 1 then pos else pos - 1) this)"

definition strChr :: "string \<Rightarrow> char \<Rightarrow> int" where
  "strChr this chr =
     (if chr \<in> set this then int (length (takeWhile (\<lambda>c. c \<noteq> chr) this)) else -1)"

definition strTrunc :: "string \<Rightarrow> int \<Rightarrow> string result" where
  "strTrunc this idx =
     (if 0 \<le> idx \<and> nat idx \<le> length this then Inr (take (nat idx) this) else Inl AssertError)"

definition isTrimSpace :: "char \<Rightarrow> bool" where
  "isTrimSpace c \<longleftrightarrow> c = CHR '' '' \<or> c = CHR 0x09 \<or> c = CHR 0x0D \<or> c = CHR 0x0A"

definition strTrim :: "string \<Rightarrow> string" where
  "strTrim this = rev (dropWhile isTrimSpace (rev (dropWhile isTrimSpace this)))"

section \<open>Lists of strings\<close>

text \<open>\<open>strstr\<close>: the position of the first occurrence.\<close>

fun strstr :: "string \<Rightarrow> string \<Rightarrow> nat option" where
  "strstr [] delimiter = (if delimiter = [] then Some 0 else None)"
| "strstr (c # cs) delimiter =
     (if take (length delimiter) (c # cs) = delimiter then Some 0
      else map_option Suc (strstr cs delimiter))"

lemma strstr_Some:
  "strstr s d = Some i \<Longrightarrow> i + length d \<le> length s \<and> take (length d) (drop i s) = d"
proof (induction s arbitrary: i)
  case (Cons c s)
  then show ?case
    using length_take [of "length d" "c # s"]
    by (cases "take (length d) (c # s) = d") (auto split: if_splits)
qed (auto split: if_splits)

text \<open>A split at an empty delimiter would not end; the callers pass fixed non-empty strings.\<close>

function strLstNewSplit :: "string \<Rightarrow> string \<Rightarrow> string list" where
  "strLstNewSplit string delimiter = (case strstr string delimiter of
     Some stringMatch \<Rightarrow>
       (if delimiter = [] then [] else
        take stringMatch string # strLstNewSplit (drop (stringMatch + length delimiter) string) delimiter)
   | None \<Rightarrow> [string])"
  by pat_completeness auto
termination
  by (relation "measure (\<lambda>(s, _). length s)") (auto dest!: strstr_Some simp flip: length_greater_0_conv)

declare strLstNewSplit.simps [simp del]

fun strLstJoin :: "string list \<Rightarrow> string \<Rightarrow> string" where
  "strLstJoin [] separator = []"
| "strLstJoin [s] separator = s"
| "strLstJoin (s # ss) separator = s @ separator @ strLstJoin ss separator"

text \<open>A string list is sorted with the string comparator; NULL items do not occur here.\<close>

definition lstComparatorStr :: "string comparator" where
  "lstComparatorStr item1 item2 = strCmp (Some item1) (Some item2)"

definition strLstSort :: "string list \<Rightarrow> SortOrder \<Rightarrow> string list" where
  "strLstSort this sortOrder = (case sortOrder of
     sortOrderAsc \<Rightarrow> msort lstComparatorStr this
   | sortOrderDesc \<Rightarrow> msort (lstComparatorDesc lstComparatorStr) this
   | sortOrderNone \<Rightarrow> this)"

definition strLstExists :: "string list \<Rightarrow> string \<Rightarrow> bool" where
  "strLstExists this s = (lstFindIter lstComparatorStr s this 0 \<noteq> None)"

text \<open>The search in \<open>anti\<close> for one item: whether the item is added, and what is left of \<open>anti\<close>.\<close>

fun strLstMergeAntiFind :: "string \<Rightarrow> string list \<Rightarrow> bool \<times> string list" where
  "strLstMergeAntiFind listItem [] = (True, [])"
| "strLstMergeAntiFind listItem (a # anti) =
     (if strCmp (Some listItem) (Some a) < 0 then (True, a # anti)
      else if strCmp (Some listItem) (Some a) = 0 then (False, anti)
      else strLstMergeAntiFind listItem anti)"

fun strLstMergeAnti :: "string list \<Rightarrow> string list \<Rightarrow> string list" where
  "strLstMergeAnti [] anti = []"
| "strLstMergeAnti (listItem # this) anti =
     (if fst (strLstMergeAntiFind listItem anti) then [listItem] else []) @
     strLstMergeAnti this (snd (strLstMergeAntiFind listItem anti))"

section \<open>The string order\<close>

lemma strcmp_eq_0 [simp]: "strcmp s t = 0 \<longleftrightarrow> s = t"
proof (induction s t rule: strcmp.induct)
  case (4 a as b bs)
  have "chr_code a = chr_code b \<longleftrightarrow> a = b" by simp
  with 4 show ?case by auto
qed auto

lemma strcmp_self [simp]: "strcmp a a = 0"
  by simp

lemma strcmp_flip: "strcmp t s = - strcmp s t"
  by (induction s t rule: strcmp.induct) auto

lemma strcmp_trans: "strcmp s t \<le> 0 \<Longrightarrow> strcmp t u \<le> 0 \<Longrightarrow> strcmp s u \<le> 0"
proof (induction s t arbitrary: u rule: strcmp.induct)
  case (2 b bs)
  then show ?case by (cases u) auto
next
  case (4 a as b bs)
  show ?case
  proof (cases u)
    case Nil
    with "4.prems" show ?thesis by simp
  next
    case (Cons c cs)
    consider "chr_code a < chr_code b" | "chr_code a = chr_code b" "strcmp as bs \<le> 0"
      using "4.prems"(1) by (force split: if_splits)
    moreover consider "chr_code b < chr_code c" | "chr_code b = chr_code c" "strcmp bs cs \<le> 0"
      using "4.prems"(2) Cons by (force split: if_splits)
    ultimately consider "chr_code a < chr_code c"
      | "chr_code a = chr_code b" "chr_code b = chr_code c" "strcmp as bs \<le> 0" "strcmp bs cs \<le> 0"
      by (metis order.strict_trans)
    then show ?thesis using "4.IH" Cons by cases simp_all
  qed
qed (auto split: if_splits)

interpretation str_order: comparator_order lstComparatorStr
proof unfold_locales
  show "sgn (lstComparatorStr y x) = - sgn (lstComparatorStr x y)" for x y
    by (simp add: lstComparatorStr_def strcmp_flip [of y x])
  show "lstComparatorStr x y \<le> 0 \<Longrightarrow> lstComparatorStr y z \<le> 0 \<Longrightarrow> lstComparatorStr x z \<le> 0" for x y z
    by (simp add: lstComparatorStr_def strcmp_trans)
qed

lemma strcmp_less_trans: "strcmp s t < 0 \<Longrightarrow> strcmp t u \<le> 0 \<Longrightarrow> strcmp s u < 0"
  using strcmp_trans [of s t u] strcmp_trans [of t u s] strcmp_flip [of t s] strcmp_flip [of u s]
  by (metis less_le_not_le neg_0_le_iff_le order_less_le strcmp_eq_0 not_less)

lemma strCmp_eq_0 [simp]: "strCmp s t = 0 \<longleftrightarrow> s = t"
  by (cases s; cases t) simp_all

lemma strEq_iff [simp]: "strEq s t \<longleftrightarrow> s = t"
  by (cases s; cases t) (auto simp: strEq_def)

lemma strBeginsWith_iff [simp]: "strBeginsWith s p \<longleftrightarrow> take (length p) s = p"
  by (auto simp: strBeginsWith_def)

lemma strLstExists_iff [simp]: "strLstExists xs s \<longleftrightarrow> s \<in> set xs"
proof -
  have "lstFindIter lstComparatorStr s xs k \<noteq> None \<longleftrightarrow> s \<in> set xs" for k
    by (induction xs arbitrary: k) (auto simp: lstComparatorStr_def)
  then show ?thesis by (simp add: strLstExists_def)
qed

section \<open>Sorting, merging, splitting\<close>

lemma strLstSort_mset: "mset (strLstSort xs so) = mset xs"
  by (cases so) (simp_all add: strLstSort_def mset_msort)

lemma strLstSort_set [simp]: "set (strLstSort xs so) = set xs"
  using arg_cong [OF strLstSort_mset [of xs so], of set_mset] by simp

lemma strLstSort_length [simp]: "length (strLstSort xs so) = length xs"
  using arg_cong [OF strLstSort_mset, of size] by simp

abbreviation str_sorted :: "string list \<Rightarrow> bool" where
  "str_sorted xs \<equiv> sorted_wrt (\<lambda>x y. strcmp x y \<le> 0) xs"

lemma strLstSort_asc: "str_sorted (strLstSort xs sortOrderAsc)"
  using glibc.qsort_sorted [OF str_order.comparator_order_axioms, of xs]
  by (simp add: strLstSort_def lstComparatorStr_def)

lemma strLstSort_desc: "sorted_wrt (\<lambda>x y. strcmp y x \<le> 0) (strLstSort xs sortOrderDesc)"
  using glibc.qsort_sorted [OF str_order.desc_order, of xs]
  by (simp add: strLstSort_def lstComparatorStr_def lstComparatorDesc_def)

lemma mergeAnti_member:
  assumes "str_sorted anti" "strLstMergeAntiFind x anti = (add, anti')"
  shows "add \<longleftrightarrow> x \<notin> set anti"
  using assms
proof (induction x anti arbitrary: add anti' rule: strLstMergeAntiFind.induct)
  case (2 x a anti)
  have less: "x \<notin> set (a # anti)" if "strcmp x a < 0"
    using strcmp_less_trans [OF that, of x] "2.prems"(1) that by auto
  show ?case
  proof (cases "strcmp x a > 0")
    case True
    then have "x \<noteq> a" by auto
    with 2 True show ?thesis by auto
  next
    case False
    with "2.prems" less show ?thesis by (auto split: if_splits)
  qed
qed simp

lemma mergeAnti_rest:
  assumes "strLstMergeAntiFind x anti = (add, anti')"
  shows "\<exists>skipped. anti = skipped @ (if add then [] else [x]) @ anti' \<and> (\<forall>a \<in> set skipped. strcmp a x < 0)"
  using assms
proof (induction x anti arbitrary: add anti' rule: strLstMergeAntiFind.induct)
  case (2 x a anti)
  consider "strcmp x a < 0" | "x = a" | "strcmp x a > 0"
    by (metis linorder_neqE_linordered_idom strcmp_eq_0)
  then show ?case
  proof cases
    case 3
    then have "x \<noteq> a" by auto
    with 3 obtain sk where "anti = sk @ (if add then [] else [x]) @ anti'" "\<forall>a \<in> set sk. strcmp a x < 0"
      using "2.IH" "2.prems" by auto
    with 3 show ?thesis using strcmp_flip [of x a] by (intro exI [of _ "a # sk"]) auto
  qed (use "2.prems" in \<open>auto split: if_splits\<close>)
qed simp

lemma strLstMergeAnti_mset:
  "str_sorted this \<Longrightarrow> str_sorted anti \<Longrightarrow> mset (strLstMergeAnti this anti) = mset this - mset anti"
proof (induction this anti rule: strLstMergeAnti.induct)
  case (2 x this anti)
  obtain add anti' where f: "strLstMergeAntiFind x anti = (add, anti')" by fastforce
  obtain sk where sk: "anti = sk @ (if add then [] else [x]) @ anti'" "\<forall>a \<in> set sk. strcmp a x < 0"
    using mergeAnti_rest [OF f] by blast
  have add: "add \<longleftrightarrow> x \<notin> set anti" using mergeAnti_member [OF "2.prems"(2) f] .
  have "str_sorted anti'" using "2.prems"(2) sk(1) by (auto simp: sorted_wrt_append split: if_splits)
  then have IH: "mset (strLstMergeAnti this anti') = mset this - mset anti'"
    using "2.IH" "2.prems"(1) f by simp
  have above: "strcmp x y \<le> 0" if "y \<in> set (x # this)" for y using "2.prems"(1) that by auto
  have skip: "a \<notin> set (x # this)" if "a \<in> set sk" for a
  proof
    assume "a \<in> set (x # this)"
    then have "strcmp x a \<le> 0" by (rule above)
    moreover have "strcmp a x < 0" using sk(2) that by blast
    ultimately show False by (simp add: strcmp_flip [of x a])
  qed
  have "mset (strLstMergeAnti (x # this) anti) = (if add then {#x#} else {#}) + (mset this - mset anti')"
    using f IH by simp
  also have "\<dots> = mset (x # this) - mset anti"
  proof (rule multiset_eqI)
    fix y
    have "count (mset sk) y = 0 \<or> count (mset (x # this)) y = 0"
      using skip [of y] by (auto simp: count_eq_zero_iff)
    moreover have "set anti' \<subseteq> set anti" by (subst sk(1)) auto
    then have "add \<Longrightarrow> count (mset anti') x = 0"
      using add by (auto simp: count_eq_zero_iff)
    ultimately show "count ((if add then {#x#} else {#}) + (mset this - mset anti')) y =
        count (mset (x # this) - mset anti) y"
      unfolding sk(1) by (cases "y = x"; cases add) (auto simp del: count_mset_0_iff)
  qed
  finally show ?case .
qed simp

lemma strstr_split:
  assumes "strstr s d = Some i"
  shows "s = take i s @ d @ drop (i + length d) s"
  using strstr_Some [OF assms] by (metis append_take_drop_id drop_drop add.commute)

lemma strLstNewSplit_ne: "d \<noteq> [] \<Longrightarrow> strLstNewSplit s d \<noteq> []"
  by (simp add: strLstNewSplit.simps split: option.splits)

lemma strLstJoin_split: "d \<noteq> [] \<Longrightarrow> strLstJoin (strLstNewSplit s d) d = s"
proof (induction s d rule: strLstNewSplit.induct)
  case (1 s d)
  show ?case
  proof (cases "strstr s d")
    case None
    then show ?thesis by (simp add: strLstNewSplit.simps [of s d])
  next
    case (Some i)
    let ?rest = "drop (i + length d) s"
    obtain y ys where ys: "strLstNewSplit ?rest d = y # ys"
      using strLstNewSplit_ne [OF "1.prems"] by (meson neq_Nil_conv)
    have "strLstJoin (strLstNewSplit s d) d = take i s @ d @ strLstJoin (strLstNewSplit ?rest d) d"
      using Some "1.prems" ys by (simp add: strLstNewSplit.simps [of s d])
    also have "\<dots> = s" using "1.IH" [OF Some] "1.prems" strstr_split [OF Some] by simp
    finally show ?thesis .
  qed
qed

section \<open>Path and file name\<close>

lemma strBaseEnd_le: "strBaseEnd s n \<le> n"
  by (induction n) auto

lemma strBaseEnd_after: "strBaseEnd s n \<le> i \<Longrightarrow> i < n \<Longrightarrow> s ! i \<noteq> CHR ''/''"
  by (induction n) (auto simp: less_Suc_eq split: if_splits)

lemma strBaseEnd_slash: "0 < strBaseEnd s n \<Longrightarrow> s ! (strBaseEnd s n - 1) = CHR ''/''"
  by (induction n) (auto split: if_splits)

section \<open>Properties\<close>

text \<open>
  On sorted lists, \<open>strLstMergeAnti\<close>, which walks both lists once, computes the difference of
  the lists with multiplicity: every string of the first list, as often as it occurs there more
  than in the second.
\<close>

lemma strLstMergeAnti_difference:
  assumes "str_sorted this" "str_sorted anti"
  shows "mset (strLstMergeAnti this anti) = mset this - mset anti"
  using assms by (rule strLstMergeAnti_mset)

lemma strLstMergeAnti_difference_witness:
  "mset (strLstMergeAnti [''a'', ''b'', ''b'', ''d''] [''b'', ''c'']) = {#''a'', ''b'', ''d''#}"
proof -
  have "str_sorted [''a'', ''b'', ''b'', ''d'']" "str_sorted [''b'', ''c'']" by simp_all
  from strLstMergeAnti_difference [OF this] show ?thesis by simp
qed

text \<open>
  A path is taken apart without loss: the base of a string has no slash, a string without a
  slash is its own base with an empty path, and otherwise path, slash and base (or the root
  and the base) are the string.
\<close>

theorem strPath_strBase:
  "CHR ''/'' \<notin> set (strBase s) \<and>
   (if CHR ''/'' \<notin> set s then strPath s = [] \<and> strBase s = s
    else if strPath s = ''/'' then s = ''/'' @ strBase s \<or> s = ''/'' @ ''/'' @ strBase s
    else s = strPath s @ ''/'' @ strBase s)"
proof -
  let ?k = "strBaseEnd s (length s)"
  note le = strBaseEnd_le [of s "length s"]
  have base: "CHR ''/'' \<notin> set (strBase s)"
    using strBaseEnd_after [of s "length s"] by (auto simp: strBase_def in_set_conv_nth)
  have none: "?k = 0" if "CHR ''/'' \<notin> set s"
  proof (rule ccontr)
    assume "?k \<noteq> 0"
    then have "s ! (?k - 1) = CHR ''/''" "?k - 1 < length s"
      using strBaseEnd_slash [of s "length s"] le by simp_all
    with that show False by (metis nth_mem)
  qed
  have split: "s = take (?k - 1) s @ ''/'' @ strBase s" if "CHR ''/'' \<in> set s"
  proof -
    have pos: "0 < ?k" using that base by (cases ?k) (auto simp: strBase_def)
    then have "s ! (?k - 1) = CHR ''/''" "?k - 1 < length s"
      using strBaseEnd_slash [of s "length s"] le by simp_all
    then have "s = take (?k - 1) s @ CHR ''/'' # drop (Suc (?k - 1)) s"
      using id_take_nth_drop [of "?k - 1" s] by simp
    then show ?thesis using pos by (simp add: strBase_def)
  qed
  show ?thesis
  proof (cases "CHR ''/'' \<in> set s")
    case False
    then show ?thesis using none base by (simp add: strPath_def strBase_def)
  next
    case True
    show ?thesis
    proof (cases "?k \<le> 1")
      case le1: True
      have "strBase s = s" if "?k = 0" using that by (simp add: strBase_def)
      then have "?k \<noteq> 0" using True base by metis
      then have "?k = 1" using le1 by simp
      with split [OF True] have "s = ''/'' @ strBase s" by simp
      moreover from this have "strPath s = ''/''" using \<open>?k = 1\<close>
        by (simp add: strPath_def) (metis append_Cons append_Nil take0 take_Suc_Cons)
      ultimately show ?thesis using base True by simp
    next
      case False
      then have "strPath s = take (?k - 1) s" by (simp add: strPath_def Let_def)
      with split [OF True] base True show ?thesis by (metis append.assoc append_Cons append_Nil)
    qed
  qed
qed

text \<open>Joining the parts of a split with the delimiter gives the string back.\<close>

theorem strLst_split_join: "d \<noteq> [] \<Longrightarrow> strLstJoin (strLstNewSplit s d) d = s"
  by (rule strLstJoin_split)

theorem strLst_split_join_witness: "strLstJoin (strLstNewSplit ''a--b'' ''-'') ''-'' = ''a--b''"
  using strLst_split_join [of "''-''" "''a--b''"] by simp

end
