(* ===== verification/Convert.thy ===== *)
theory Convert
  imports Prelude
begin

text \<open>
  Conversions between numbers and strings (src/common/type/convert.c). \<open>strtoll\<close> and
  \<open>strtoull\<close> are modelled as the C standard describes them: white space, a sign, a 0x prefix in base
  16, digits, saturation with ERANGE, and the end pointer; \<open>snprintf\<close> of an integer is its
  digits. The results are mathematical integers within the range of the C type. Floating point
  and time conversions are left out.
\<close>

section \<open>The C library\<close>

definition isspaceC :: "char \<Rightarrow> bool" where
  "isspaceC c \<longleftrightarrow> c = CHR '' '' \<or> (0x09 \<le> chr_code c \<and> chr_code c \<le> 0x0D)"

text \<open>The value of a digit, 36 for a character that is none.\<close>

definition digitValue :: "char \<Rightarrow> nat" where
  "digitValue c = (let n = chr_code c in
     if 48 \<le> n \<and> n \<le> 57 then n - 48
     else if 97 \<le> n \<and> n \<le> 122 then n - 87
     else if 65 \<le> n \<and> n \<le> 90 then n - 55
     else 36)"

fun digitsValue :: "nat \<Rightarrow> string \<Rightarrow> nat \<Rightarrow> nat \<times> string" where
  "digitsValue base [] acc = (acc, [])"
| "digitsValue base (c # cs) acc =
     (if digitValue c < base then digitsValue base cs (acc * base + digitValue c) else (acc, c # cs))"

text \<open>
  The common part of \<open>strtoll\<close> and \<open>strtoull\<close>: sign, magnitude and end of the number, or None when
  there are no digits, and the end pointer is then the string itself.
\<close>

definition strtoParse :: "nat \<Rightarrow> string \<Rightarrow> (bool \<times> nat \<times> string) option" where
  "strtoParse base s =
     (let s1 = dropWhile isspaceC s;
          neg = (s1 \<noteq> [] \<and> hd s1 = CHR ''-'');
          s2 = (if s1 \<noteq> [] \<and> (hd s1 = CHR ''-'' \<or> hd s1 = CHR ''+'') then tl s1 else s1);
          s3 = (if base = 16 \<and> 3 \<le> length s2 \<and> s2 ! 0 = CHR ''0'' \<and>
                   (s2 ! 1 = CHR ''x'' \<or> s2 ! 1 = CHR ''X'') \<and> digitValue (s2 ! 2) < 16
                then drop 2 s2 else s2)
      in if s3 = [] \<or> digitValue (hd s3) \<ge> base then None
         else case digitsValue base s3 0 of (v, rest) \<Rightarrow> Some (neg, v, rest))"

text \<open>Result, end pointer and whether errno is set.\<close>

definition strtoull :: "string \<Rightarrow> nat \<Rightarrow> nat \<times> string \<times> bool" where
  "strtoull s base = (case strtoParse base s of
     None \<Rightarrow> (0, s, False)
   | Some (neg, v, rest) \<Rightarrow>
       (if v \<ge> 2 ^ 64 then (2 ^ 64 - 1, rest, True)
        else ((if neg then (2 ^ 64 - v) mod 2 ^ 64 else v), rest, False)))"

definition strtoll :: "string \<Rightarrow> nat \<Rightarrow> int \<times> string \<times> bool" where
  "strtoll s base = (case strtoParse base s of
     None \<Rightarrow> (0, s, False)
   | Some (neg, v, rest) \<Rightarrow>
       (let r = (if neg then - int v else int v)
        in if r > 2 ^ 63 - 1 then (2 ^ 63 - 1, rest, True)
           else if r < - (2 ^ 63) then (- (2 ^ 63), rest, True)
           else (r, rest, False)))"

definition digitChar :: "nat \<Rightarrow> char" where
  "digitChar d = char_of (if d < 10 then 48 + d else 87 + d)"

function digitsOf :: "nat \<Rightarrow> nat \<Rightarrow> string" where
  "digitsOf base n =
     (if base < 2 \<or> n < base then [digitChar n] else digitsOf base (n div base) @ [digitChar (n mod base)])"
  by pat_completeness auto
termination
  by (relation "measure (\<lambda>(base, n). n)") (auto intro: div_less_dividend)

declare digitsOf.simps [simp del]

text \<open>\<open>snprintf\<close> into a buffer: truncation is detected by the callers and is an assertion.\<close>

definition snprintfBuffer :: "string \<Rightarrow> nat \<Rightarrow> string result" where
  "snprintfBuffer text bufferSize =
     (if length text \<ge> bufferSize then Inl AssertError else Inr text)"

section \<open>Reading numbers\<close>

definition cvtZToIntValid :: "bool \<Rightarrow> string \<Rightarrow> string \<Rightarrow> unit result" where
  "cvtZToIntValid errNo v endPtr =
     (if errNo \<or> v = [] \<or> isspaceC (hd v) \<or> endPtr \<noteq> [] then Inl FormatError else Inr ())"

definition cvtZToInt64Internal :: "string \<Rightarrow> nat \<Rightarrow> int result" where
  "cvtZToInt64Internal v base = (case strtoll v base of (r, endPtr, errNo) \<Rightarrow>
     bindE (cvtZToIntValid errNo v endPtr) (\<lambda>_. Inr r))"

definition cvtZToUInt64Internal :: "string \<Rightarrow> nat \<Rightarrow> nat result" where
  "cvtZToUInt64Internal v base = (case strtoull v base of (r, endPtr, errNo) \<Rightarrow>
     bindE (cvtZToIntValid errNo v endPtr) (\<lambda>_. Inr r))"

definition cvtZToIntBase :: "string \<Rightarrow> nat \<Rightarrow> int result" where
  "cvtZToIntBase v base = bindE (cvtZToInt64Internal v base) (\<lambda>r.
     if r > 2 ^ 31 - 1 \<or> r < - (2 ^ 31) then Inl FormatError else Inr r)"

definition cvtZToInt :: "string \<Rightarrow> int result" where
  "cvtZToInt v = cvtZToIntBase v 10"

definition cvtZToInt64Base :: "string \<Rightarrow> nat \<Rightarrow> int result" where
  "cvtZToInt64Base v base = cvtZToInt64Internal v base"

definition cvtZToInt64 :: "string \<Rightarrow> int result" where
  "cvtZToInt64 v = cvtZToInt64Base v 10"

definition cvtZToUIntBase :: "string \<Rightarrow> nat \<Rightarrow> nat result" where
  "cvtZToUIntBase v base = bindE (cvtZToUInt64Internal v base) (\<lambda>r.
     if hd v = CHR ''-'' \<or> r > 2 ^ 32 - 1 then Inl FormatError else Inr r)"

definition cvtZToUInt :: "string \<Rightarrow> nat result" where
  "cvtZToUInt v = cvtZToUIntBase v 10"

definition cvtZToUInt64Base :: "string \<Rightarrow> nat \<Rightarrow> nat result" where
  "cvtZToUInt64Base v base = bindE (cvtZToUInt64Internal v base) (\<lambda>r.
     if hd v = CHR ''-'' then Inl FormatError else Inr r)"

definition cvtZToUInt64 :: "string \<Rightarrow> nat result" where
  "cvtZToUInt64 v = cvtZToUInt64Base v 10"

definition cvtZToMode :: "string \<Rightarrow> nat result" where
  "cvtZToMode v = cvtZToUIntBase v 8"

section \<open>Writing numbers\<close>

definition intText :: "int \<Rightarrow> string" where
  "intText n = (if n < 0 then CHR ''-'' # digitsOf 10 (nat (- n)) else digitsOf 10 (nat n))"

definition cvtBoolToConstZ :: "bool \<Rightarrow> string" where
  "cvtBoolToConstZ v = (if v then ''true'' else ''false'')"

definition cvtBoolToZ :: "bool \<Rightarrow> nat \<Rightarrow> string result" where
  "cvtBoolToZ v bufferSize = snprintfBuffer (cvtBoolToConstZ v) bufferSize"

definition cvtIntToZ :: "int \<Rightarrow> nat \<Rightarrow> string result" where
  "cvtIntToZ v bufferSize = snprintfBuffer (intText v) bufferSize"

definition cvtInt64ToZ :: "int \<Rightarrow> nat \<Rightarrow> string result" where
  "cvtInt64ToZ v bufferSize = snprintfBuffer (intText v) bufferSize"

text \<open>The format of a mode is four octal digits at least.\<close>

definition cvtModeToZ :: "nat \<Rightarrow> nat \<Rightarrow> string result" where
  "cvtModeToZ v bufferSize =
     (let digits = digitsOf 8 v
      in snprintfBuffer (replicate (4 - length digits) (CHR ''0'') @ digits) bufferSize)"

definition cvtUIntToZ :: "nat \<Rightarrow> nat \<Rightarrow> string result" where
  "cvtUIntToZ v bufferSize = snprintfBuffer (digitsOf 10 v) bufferSize"

definition cvtUInt64ToZ :: "nat \<Rightarrow> nat \<Rightarrow> string result" where
  "cvtUInt64ToZ v bufferSize = snprintfBuffer (digitsOf 10 v) bufferSize"

section \<open>Digits and their value\<close>

lemma digitValue_digitChar [simp]: "d < 36 \<Longrightarrow> digitValue (digitChar d) = d"
  by (auto simp: digitValue_def digitChar_def Let_def of_char_of)

lemma digitsValue_append:
  "list_all (\<lambda>c. digitValue c < base) s \<Longrightarrow>
   digitsValue base (s @ t) acc = digitsValue base t (fst (digitsValue base s acc))"
  by (induction s arbitrary: acc) auto

lemma digitsOf_digits: "2 \<le> base \<Longrightarrow> base \<le> 36 \<Longrightarrow> list_all (\<lambda>c. digitValue c < base) (digitsOf base n)"
proof (induction base n rule: digitsOf.induct)
  case (1 base n)
  have "n mod base < base" "n mod base < 36" using "1.prems" mod_less_divisor [of base n] by linarith+
  then show ?case using 1 by (cases "n < base") (simp_all add: digitsOf.simps [of base n])
qed

lemma digitsOf_ne [simp]: "digitsOf base n \<noteq> []"
  by (simp add: digitsOf.simps [of base n])

lemma digitsValue_zeros: "0 < base \<Longrightarrow> digitsValue base (replicate k (CHR ''0'') @ s) 0 = digitsValue base s 0"
  by (induction k) (auto simp: digitValue_def)

lemma digitsValue_digitsOf:
  "2 \<le> base \<Longrightarrow> base \<le> 36 \<Longrightarrow> digitsValue base (digitsOf base n) 0 = (n, [])"
proof (induction base n rule: digitsOf.induct)
  case (1 base n)
  show ?case
  proof (cases "n < base")
    case True
    with 1 show ?thesis by (simp add: digitsOf.simps [of base n])
  next
    case False
    have "digitsValue base (digitsOf base n) 0 =
        digitsValue base [digitChar (n mod base)] (fst (digitsValue base (digitsOf base (n div base)) 0))"
      using False "1.prems" digitsOf_digits [of base "n div base"]
      by (simp add: digitsOf.simps [of base n] digitsValue_append)
    also have "\<dots> = (n, [])"
    proof -
      have "n mod base < base" "n mod base < 36" using "1.prems" mod_less_divisor [of base n] by linarith+
      then show ?thesis using 1 False by simp
    qed
    finally show ?thesis .
  qed
qed

lemma digit_char_facts:
  assumes "digitValue c < 36"
  shows "\<not> isspaceC c" "c \<noteq> CHR ''-''" "c \<noteq> CHR ''+''"
  using assms by (auto simp: isspaceC_def digitValue_def Let_def split: if_splits)

lemma octal_not_x: "digitValue c < 16 \<Longrightarrow> c \<noteq> CHR ''x'' \<and> c \<noteq> CHR ''X''"
  by (auto simp: digitValue_def Let_def)

lemma strtoParse_digits:
  assumes "list_all (\<lambda>c. digitValue c < base) s" "s \<noteq> []" "base \<le> 36" "digitsValue base s 0 = (v, [])"
  shows "strtoParse base s = Some (False, v, [])"
    and "strtoParse base (CHR ''-'' # s) = Some (True, v, [])"
proof -
  obtain c cs where s: "s = c # cs" using assms(2) by (cases s) auto
  have c: "digitValue c < base" "digitValue c < 36" using assms(1,3) s by simp_all
  have nox: "\<not> (base = 16 \<and> 3 \<le> length s \<and> s ! 0 = CHR ''0'' \<and> (s ! 1 = CHR ''x'' \<or> s ! 1 = CHR ''X'') \<and>
      digitValue (s ! 2) < 16)"
  proof (cases "1 < length s")
    case True
    with assms(1) have "digitValue (s ! 1) < base" by (simp add: list_all_length)
    then show ?thesis using octal_not_x [of "s ! 1"] by auto
  qed simp
  have "\<not> isspaceC (CHR ''-'')" by (simp add: isspaceC_def)
  then show "strtoParse base s = Some (False, v, [])" "strtoParse base (CHR ''-'' # s) = Some (True, v, [])"
    using digit_char_facts [OF c(2)] c(1) s assms(4) nox by (auto simp: strtoParse_def Let_def)
qed

lemma strtoull_digits:
  assumes "n < 2 ^ 64"
  shows "strtoull (digitsOf 10 n) 10 = (n, [], False)"
  using strtoParse_digits(1) [OF digitsOf_digits digitsOf_ne _ digitsValue_digitsOf, of 10 n] assms
  by (simp add: strtoull_def)

lemma strtoll_intText:
  assumes "- (2 ^ 63) \<le> n" "n < 2 ^ 63"
  shows "strtoll (intText n) 10 = (n, [], False)"
proof (cases "n < 0")
  case True
  then show ?thesis
    using strtoParse_digits(2) [OF digitsOf_digits digitsOf_ne _ digitsValue_digitsOf, of 10 "nat (- n)"] assms
    by (simp add: strtoll_def intText_def Let_def)
next
  case False
  then show ?thesis
    using strtoParse_digits(1) [OF digitsOf_digits digitsOf_ne _ digitsValue_digitsOf, of 10 "nat n"] assms
    by (simp add: strtoll_def intText_def Let_def)
qed

lemma hd_digitsOf: "2 \<le> base \<Longrightarrow> base \<le> 36 \<Longrightarrow> digitValue (hd (digitsOf base n)) < 36"
  using digitsOf_digits [of base n] digitsOf_ne [of base n]
  by (cases "digitsOf base n") auto

lemma hd_intText: "\<not> isspaceC (hd (intText n))" "intText n \<noteq> []"
  using digit_char_facts(1) [OF hd_digitsOf [of 10 "nat n"]] by (auto simp: intText_def isspaceC_def)

lemma cvtZToIntValid_ok: "s \<noteq> [] \<Longrightarrow> \<not> isspaceC (hd s) \<Longrightarrow> cvtZToIntValid False s [] = Inr ()"
  by (simp add: cvtZToIntValid_def)

lemma cvt_signed_roundtrip:
  assumes "cvtInt64ToZ v bufferSize = Inr s" "- (2 ^ 63) \<le> v" "v < 2 ^ 63"
  shows "cvtZToInt64 s = Inr v"
    and "cvtZToInt s = (if - (2 ^ 31) \<le> v \<and> v < 2 ^ 31 then Inr v else Inl FormatError)"
proof -
  have s: "s = intText v" using assms(1) by (simp add: cvtInt64ToZ_def snprintfBuffer_def split: if_splits)
  have "cvtZToInt64Internal s 10 = Inr v"
    using strtoll_intText [OF assms(2,3)] hd_intText cvtZToIntValid_ok
    by (simp add: cvtZToInt64Internal_def s)
  then show "cvtZToInt64 s = Inr v"
    and "cvtZToInt s = (if - (2 ^ 31) \<le> v \<and> v < 2 ^ 31 then Inr v else Inl FormatError)"
    by (auto simp: cvtZToInt64_def cvtZToInt64Base_def cvtZToInt_def cvtZToIntBase_def)
qed

lemma cvt_unsigned_roundtrip:
  assumes "cvtUInt64ToZ u bufferSize = Inr s" "u < 2 ^ 64"
  shows "cvtZToUInt64 s = Inr u"
    and "cvtZToUInt s = (if u < 2 ^ 32 then Inr u else Inl FormatError)"
proof -
  have s: "s = digitsOf 10 u" using assms(1) by (simp add: cvtUInt64ToZ_def snprintfBuffer_def split: if_splits)
  have h: "\<not> isspaceC (hd s)" "hd s \<noteq> CHR ''-''"
    using digit_char_facts [OF hd_digitsOf [of 10 u]] s by simp_all
  have "cvtZToUInt64Internal s 10 = Inr u"
    using strtoull_digits [OF assms(2)] h cvtZToIntValid_ok by (simp add: cvtZToUInt64Internal_def s)
  then show "cvtZToUInt64 s = Inr u"
    and "cvtZToUInt s = (if u < 2 ^ 32 then Inr u else Inl FormatError)"
    using h by (auto simp: cvtZToUInt64_def cvtZToUInt64Base_def cvtZToUInt_def cvtZToUIntBase_def)
qed

lemma cvtMode_roundtrip:
  assumes "cvtModeToZ m bufferSize = Inr s" "m < 2 ^ 32"
  shows "cvtZToMode s = Inr m"
proof -
  have s: "s = replicate (4 - length (digitsOf 8 m)) (CHR ''0'') @ digitsOf 8 m"
    using assms(1) by (simp add: cvtModeToZ_def snprintfBuffer_def Let_def split: if_splits)
  have d: "list_all (\<lambda>c. digitValue c < 8) s"
    using digitsOf_digits [of 8 m] by (auto simp: s list_all_iff digitValue_def [of "CHR ''0''"])
  have ne: "s \<noteq> []" by (simp add: s)
  have "digitsValue 8 s 0 = (m, [])" by (simp add: s digitsValue_zeros digitsValue_digitsOf)
  from strtoParse_digits(1) [OF d ne _ this] have "strtoull s 8 = (m, [], False)"
    using assms(2) by (simp add: strtoull_def)
  moreover have "digitValue (hd s) < 36" using d ne by (cases s) auto
  ultimately show ?thesis
    using ne digit_char_facts [of "hd s"] cvtZToIntValid_ok [of s] assms(2)
    by (simp add: cvtZToMode_def cvtZToUIntBase_def cvtZToUInt64Internal_def)
qed

section \<open>What is accepted\<close>

definition decimalDigit :: "char \<Rightarrow> bool" where
  "decimalDigit c \<longleftrightarrow> 48 \<le> chr_code c \<and> chr_code c \<le> 57"

definition stripSign :: "string \<Rightarrow> string" where
  "stripSign s = (if s \<noteq> [] \<and> (hd s = CHR ''-'' \<or> hd s = CHR ''+'') then tl s else s)"

definition decimalValue :: "string \<Rightarrow> nat" where
  "decimalValue ds = foldl (\<lambda>acc c. acc * 10 + (chr_code c - 48)) 0 ds"

lemma digitValue_decimal: "digitValue c < 10 \<longleftrightarrow> decimalDigit c"
  by (auto simp: digitValue_def decimalDigit_def Let_def)

lemma decimalDigit_value: "decimalDigit c \<Longrightarrow> digitValue c = chr_code c - 48"
  by (auto simp: decimalDigit_def digitValue_def)

lemma digitsValue_all:
  "digitsValue 10 s acc = (n, []) \<longleftrightarrow>
   list_all decimalDigit s \<and> n = foldl (\<lambda>acc c. acc * 10 + (chr_code c - 48)) acc s"
  by (induction s arbitrary: acc) (auto simp: digitValue_decimal decimalDigit_value)

lemma strtoParse_exact:
  assumes "s \<noteq> []" "\<not> isspaceC (hd s)"
  shows "strtoParse 10 s = Some (neg, n, []) \<longleftrightarrow>
    stripSign s \<noteq> [] \<and> list_all decimalDigit (stripSign s) \<and> n = decimalValue (stripSign s) \<and> neg = (hd s = CHR ''-'')"
proof -
  have all: "digitsValue 10 ds 0 = (m, []) \<longleftrightarrow> list_all decimalDigit ds \<and> m = decimalValue ds" for ds m
    using digitsValue_all [of ds 0 m] by (simp add: decimalValue_def)
  have "dropWhile isspaceC s = s" using assms by (cases s) auto
  then have parse: "strtoParse 10 s =
      (if stripSign s = [] \<or> \<not> decimalDigit (hd (stripSign s)) then None
       else case digitsValue 10 (stripSign s) 0 of (v, rest) \<Rightarrow> Some (hd s = CHR ''-'', v, rest))"
    using assms by (simp add: strtoParse_def stripSign_def not_less [symmetric] digitValue_decimal del: not_less)
  have "ds \<noteq> [] \<and> list_all decimalDigit ds \<Longrightarrow> decimalDigit (hd ds)" for ds by (cases ds) auto
  then show ?thesis unfolding parse by (auto simp: all split: prod.splits)
qed

lemma endPtr_empty:
  assumes "cvtZToIntValid errNo v endPtr = Inr ()"
  shows "\<not> errNo \<and> v \<noteq> [] \<and> \<not> isspaceC (hd v) \<and> endPtr = []"
  using assms by (simp add: cvtZToIntValid_def split: if_splits)

lemma decimal_no_space: "stripSign s \<noteq> [] \<Longrightarrow> list_all decimalDigit (stripSign s) \<Longrightarrow> s \<noteq> [] \<and> \<not> isspaceC (hd s)"
  by (cases s) (auto simp: stripSign_def decimalDigit_def isspaceC_def split: if_splits)

lemma cvtZToInt64_exact:
  "cvtZToInt64 s = Inr v \<longleftrightarrow>
     stripSign s \<noteq> [] \<and> list_all decimalDigit (stripSign s) \<and>
     v = (if hd s = CHR ''-'' then - int (decimalValue (stripSign s)) else int (decimalValue (stripSign s))) \<and>
     - (2 ^ 63) \<le> v \<and> v < 2 ^ 63" (is "?L = ?R")
proof (cases "s \<noteq> [] \<and> \<not> isspaceC (hd s)")
  case True
  have "?L \<longleftrightarrow> (\<exists>neg n. strtoParse 10 s = Some (neg, n, []) \<and> v = (if neg then - int n else int n) \<and>
      - (2 ^ 63) \<le> v \<and> v < 2 ^ 63)"
  proof (cases "strtoParse 10 s")
    case None
    then show ?thesis using True by (simp add: cvtZToInt64_def cvtZToInt64Base_def cvtZToInt64Internal_def
        strtoll_def cvtZToIntValid_def)
  next
    case (Some r)
    then show ?thesis using True by (cases r) (auto simp: cvtZToInt64_def cvtZToInt64Base_def
        cvtZToInt64Internal_def strtoll_def cvtZToIntValid_def Let_def)
  qed
  then show ?thesis using strtoParse_exact [of s] True by auto
next
  case False
  then show ?thesis using decimal_no_space [of s]
    by (auto simp: cvtZToInt64_def cvtZToInt64Base_def cvtZToInt64Internal_def cvtZToIntValid_def split: prod.splits)
qed

lemma cvtZToUInt64_exact:
  "cvtZToUInt64 s = Inr u \<longleftrightarrow>
     stripSign s \<noteq> [] \<and> list_all decimalDigit (stripSign s) \<and> hd s \<noteq> CHR ''-'' \<and>
     u = decimalValue (stripSign s) \<and> u < 2 ^ 64" (is "?L = ?R")
proof (cases "s \<noteq> [] \<and> \<not> isspaceC (hd s)")
  case True
  have "?L \<longleftrightarrow> (\<exists>neg. strtoParse 10 s = Some (neg, u, []) \<and> u < 2 ^ 64) \<and> hd s \<noteq> CHR ''-''"
  proof (cases "strtoParse 10 s")
    case None
    then show ?thesis using True by (simp add: cvtZToUInt64_def cvtZToUInt64Base_def cvtZToUInt64Internal_def
        strtoull_def cvtZToIntValid_def)
  next
    case (Some r)
    obtain neg n rest where r: "r = (neg, n, rest)" by (cases r) auto
    have "rest = [] \<Longrightarrow> neg = (hd s = CHR ''-'')" using strtoParse_exact [of s neg n] True Some r by simp
    then show ?thesis using True Some r by (cases "rest = []") (auto simp: cvtZToUInt64_def cvtZToUInt64Base_def
        cvtZToUInt64Internal_def strtoull_def cvtZToIntValid_def)
  qed
  then show ?thesis using strtoParse_exact [of s] True by auto
next
  case False
  then show ?thesis using decimal_no_space [of s]
    by (auto simp: cvtZToUInt64_def cvtZToUInt64Base_def cvtZToUInt64Internal_def cvtZToIntValid_def split: prod.splits)
qed

section \<open>Properties\<close>

text \<open>
  C23. Number round trips. A signed 64-bit integer printed by cvtInt64ToZ into a buffer that is large
  enough is read back by cvtZToInt64, and by cvtZToInt when it fits 32 bits, which refuses it
  otherwise; an unsigned 64-bit integer printed by cvtUInt64ToZ is read back by cvtZToUInt64 and,
  within 32 bits, by cvtZToUInt; a mode printed in octal by cvtModeToZ is read back by cvtZToMode.
\<close>

theorem cvt_roundtrip:
  assumes "- (2 ^ 63) \<le> v" "v < 2 ^ 63" "u < 2 ^ 64" "m < 2 ^ 32"
    and "cvtInt64ToZ v bufferSize = Inr sv" "cvtUInt64ToZ u bufferSize = Inr su" "cvtModeToZ m bufferSize = Inr sm"
  shows "cvtZToInt64 sv = Inr v \<and>
    cvtZToInt sv = (if - (2 ^ 31) \<le> v \<and> v < 2 ^ 31 then Inr v else Inl FormatError) \<and>
    cvtZToUInt64 su = Inr u \<and> cvtZToUInt su = (if u < 2 ^ 32 then Inr u else Inl FormatError) \<and>
    cvtZToMode sm = Inr m"
  using cvt_signed_roundtrip [OF assms(5,1,2)] cvt_unsigned_roundtrip [OF assms(6,3)]
    cvtMode_roundtrip [OF assms(7,4)] by simp

theorem cvt_roundtrip_witness:
  "cvtZToInt64 ''-42'' = Inr (- 42) \<and> cvtZToUInt ''9999999999'' = Inl FormatError \<and> cvtZToMode ''0750'' = Inr 488"
proof -
  have "cvtInt64ToZ (- 42) 64 = Inr ''-42''" "cvtUInt64ToZ 9999999999 64 = Inr ''9999999999''"
    "cvtModeToZ 488 64 = Inr ''0750''"
    by (simp_all add: cvtInt64ToZ_def cvtUInt64ToZ_def cvtModeToZ_def intText_def snprintfBuffer_def
        digitsOf.simps digitChar_def char_of_def bit_iff_odd)
  from cvt_roundtrip [OF _ _ _ _ this] show ?thesis by simp
qed

text \<open>
  C24. Strict input. cvtZToInt64 accepts exactly an optional sign and one or more decimal digits
  whose value is in the range of the type, and returns that value; cvtZToUInt64 accepts exactly
  an optional plus sign and digits in its range. White space, empty strings, trailing
  characters, values out of range and negative numbers for an unsigned type, all of which
  strtoll and strtoull let pass or saturate, are refused.
\<close>

theorem cvt_accepts_exactly:
  "(cvtZToInt64 s = Inr v \<longleftrightarrow>
     stripSign s \<noteq> [] \<and> list_all decimalDigit (stripSign s) \<and>
     v = (if hd s = CHR ''-'' then - int (decimalValue (stripSign s)) else int (decimalValue (stripSign s))) \<and>
     - (2 ^ 63) \<le> v \<and> v < 2 ^ 63) \<and>
   (cvtZToUInt64 s = Inr u \<longleftrightarrow>
     stripSign s \<noteq> [] \<and> list_all decimalDigit (stripSign s) \<and> hd s \<noteq> CHR ''-'' \<and>
     u = decimalValue (stripSign s) \<and> u < 2 ^ 64)"
  using cvtZToInt64_exact cvtZToUInt64_exact by blast

end
