(* ===== verification/RegExp.thy ===== *)
theory RegExp
  imports Convert StringType
begin

text \<open>
  Regular expressions (src/common/regExp.c). The C module wraps \<open>regcomp\<close> and \<open>regexec\<close> of the C
  library with REG_EXTENDED; what the library does is modelled by a parser of POSIX extended
  regular expressions (literals, escapes of punctuation, ., anchors, bracket expressions with ranges
  and negation, groups, alternatives, *, +, ?, {n}, {n,}, {n,m}) and a matcher that computes every end of
  a match. The GNU escapes, character class names and collation symbols, which the sources never
  use, are refused.
\<close>

section \<open>The expressions\<close>

datatype rx =
    RxEmpty
  | RxBegin
  | RxEnd
  | RxSet bool "(nat \<times> nat) list"
  | RxCat rx rx
  | RxAlt rx rx
  | RxRep rx nat "nat option"

abbreviation RxChar :: "char \<Rightarrow> rx" where
  "RxChar c \<equiv> RxSet True [(chr_code c, chr_code c)]"

definition inRanges :: "(nat \<times> nat) list \<Rightarrow> char \<Rightarrow> bool" where
  "inRanges rs c = list_ex (\<lambda>(lo, hi). lo \<le> chr_code c \<and> chr_code c \<le> hi) rs"

fun rxPow :: "(nat \<Rightarrow> nat list) \<Rightarrow> nat \<Rightarrow> nat \<Rightarrow> nat list" where
  "rxPow f 0 i = [i]"
| "rxPow f (Suc k) i = concat (map (rxPow f k) (f i))"

text \<open>
  All ends of a match of the expression that starts at i. More repetitions of * than there are
  characters cannot reach another end.
\<close>

fun rxEnds :: "rx \<Rightarrow> string \<Rightarrow> nat \<Rightarrow> nat list" where
  "rxEnds RxEmpty s i = [i]"
| "rxEnds RxBegin s i = (if i = 0 then [i] else [])"
| "rxEnds RxEnd s i = (if i = length s then [i] else [])"
| "rxEnds (RxSet pos rs) s i = (if i < length s \<and> inRanges rs (s ! i) = pos then [i + 1] else [])"
| "rxEnds (RxCat a b) s i = concat (map (rxEnds b s) (rxEnds a s i))"
| "rxEnds (RxAlt a b) s i = rxEnds a s i @ rxEnds b s i"
| "rxEnds (RxRep a m n) s i =
     concat (map (\<lambda>k. rxPow (rxEnds a s) k i) [m..<Suc (case n of Some n' \<Rightarrow> n' | None \<Rightarrow> m + length s)])"

section \<open>Parsing\<close>

definition rxNum :: "string \<Rightarrow> (nat \<times> string) option" where
  "rxNum s = (let ds = takeWhile decimalDigit s
              in if ds = [] then None else Some (decimalValue ds, drop (length ds) s))"

definition rxBraces :: "rx \<Rightarrow> string \<Rightarrow> (rx \<times> string) option" where
  "rxBraces a s = (case rxNum s of
     None \<Rightarrow> None
   | Some (m, r) \<Rightarrow>
       (case r of
          [] \<Rightarrow> None
        | c # r' \<Rightarrow>
            if c = CHR ''}'' then Some (RxRep a m (Some m), r')
            else if c \<noteq> CHR '','' \<or> r' = [] then None
            else if hd r' = CHR ''}'' then Some (RxRep a m None, tl r')
            else (case rxNum r' of
                    None \<Rightarrow> None
                  | Some (n, r'') \<Rightarrow>
                      if r'' \<noteq> [] \<and> hd r'' = CHR ''}'' \<and> m \<le> n then Some (RxRep a m (Some n), tl r'') else None)))"

fun rxQuant :: "rx \<Rightarrow> string \<Rightarrow> (rx \<times> string) option" where
  "rxQuant a [] = Some (a, [])"
| "rxQuant a (c # s) =
     (if c = CHR ''*'' then Some (RxRep a 0 None, s)
      else if c = CHR ''+'' then Some (RxRep a 1 None, s)
      else if c = CHR ''?'' then Some (RxRep a 0 (Some 1), s)
      else if c = CHR ''{'' then rxBraces a s
      else Some (a, c # s))"

text \<open>The ranges of a bracket expression up to its ]; the flag says that a ] is still literal.\<close>

fun rxBracket :: "bool \<Rightarrow> string \<Rightarrow> ((nat \<times> nat) list \<times> string) option" where
  "rxBracket first [] = None"
| "rxBracket first (c # s) =
     (if c = CHR '']'' \<and> \<not> first then Some ([], s)
      else if c = CHR ''['' then None
      else (case s of
              d # e # s' \<Rightarrow>
                if d = CHR ''-'' \<and> e \<noteq> CHR '']''
                then (if chr_code c \<le> chr_code e
                      then map_option (\<lambda>(rs, r). ((chr_code c, chr_code e) # rs, r)) (rxBracket False s') else None)
                else map_option (\<lambda>(rs, r). ((chr_code c, chr_code c) # rs, r)) (rxBracket False s)
            | _ \<Rightarrow> map_option (\<lambda>(rs, r). ((chr_code c, chr_code c) # rs, r)) (rxBracket False s)))"

definition rxSpecial :: "char \<Rightarrow> bool" where
  "rxSpecial c \<longleftrightarrow> c \<in> set ''*+?{|()''"

definition rxEscapable :: "char \<Rightarrow> bool" where
  "rxEscapable c \<longleftrightarrow> c \<in> set ''.[]{}()|*+?^$-_/ '' \<or> c = CHR 0x5C"

fun rxParseAlt :: "nat \<Rightarrow> string \<Rightarrow> (rx \<times> string) option"
  and rxParseSeq :: "nat \<Rightarrow> string \<Rightarrow> (rx \<times> string) option"
  and rxParseAtom :: "nat \<Rightarrow> string \<Rightarrow> (rx \<times> string) option" where
  "rxParseAlt 0 s = None"
| "rxParseAlt (Suc f) s = (case rxParseSeq f s of
     None \<Rightarrow> None
   | Some (a, r) \<Rightarrow>
       if r \<noteq> [] \<and> hd r = CHR ''|''
       then map_option (\<lambda>(b, r'). (RxAlt a b, r')) (rxParseAlt f (tl r)) else Some (a, r))"
| "rxParseSeq 0 s = None"
| "rxParseSeq (Suc f) s =
     (if s = [] \<or> hd s = CHR ''|'' \<or> hd s = CHR '')'' then Some (RxEmpty, s)
      else case rxParseAtom f s of
             None \<Rightarrow> None
           | Some (a, r) \<Rightarrow>
               (case rxQuant a r of
                  None \<Rightarrow> None
                | Some (a', r') \<Rightarrow> map_option (\<lambda>(b, r''). (RxCat a' b, r'')) (rxParseSeq f r')))"
| "rxParseAtom 0 s = None"
| "rxParseAtom (Suc f) s = (case s of
     [] \<Rightarrow> None
   | c # r \<Rightarrow>
       if c = CHR ''('' then
         (case rxParseAlt f r of
            None \<Rightarrow> None
          | Some (a, r') \<Rightarrow> if r' \<noteq> [] \<and> hd r' = CHR '')'' then Some (a, tl r') else None)
       else if c = CHR ''['' then
         (if r \<noteq> [] \<and> hd r = CHR ''^''
          then map_option (\<lambda>(rs, r'). (RxSet False rs, r')) (rxBracket True (tl r))
          else map_option (\<lambda>(rs, r'). (RxSet True rs, r')) (rxBracket True r))
       else if c = CHR 0x5C then
         (if r \<noteq> [] \<and> rxEscapable (hd r) then Some (RxChar (hd r), tl r) else None)
       else if c = CHR ''^'' then Some (RxBegin, r)
       else if c = CHR ''$'' then Some (RxEnd, r)
       else if c = CHR ''.'' then Some (RxSet False [], r)
       else if rxSpecial c then None
       else Some (RxChar c, r))"

section \<open>The operations of regExp.c\<close>

text \<open>Three levels of the parser are enough for every character of the expression.\<close>

definition regExpNew :: "string \<Rightarrow> rx result" where
  "regExpNew expression = (case rxParseAlt (3 * length expression + 3) expression of
     Some (r, []) \<Rightarrow> Inr r
   | _ \<Rightarrow> Inl FormatError)"

definition regExpMatch :: "rx \<Rightarrow> string \<Rightarrow> bool" where
  "regExpMatch r s = list_ex (\<lambda>i. rxEnds r s i \<noteq> []) [0..<Suc (length s)]"

definition regExpMatchOne :: "string \<Rightarrow> string \<Rightarrow> bool result" where
  "regExpMatchOne expression s = mapE (\<lambda>r. regExpMatch r s) (regExpNew expression)"

definition prefixEnd :: "char \<Rightarrow> bool" where
  "prefixEnd c \<longleftrightarrow> c \<in> set ''.^$*+-?([{ |'' \<or> c = CHR 0x5C"

fun prefixIdx :: "string \<Rightarrow> nat \<Rightarrow> nat" where
  "prefixIdx [] i = i"
| "prefixIdx (c # cs) i = (if prefixEnd c then i else prefixIdx cs (i + 1))"

text \<open>The search for another begin anchor from a position of the expression.\<close>

function anchorIdx :: "string \<Rightarrow> nat \<Rightarrow> nat" where
  "anchorIdx s i =
     (if i < length s \<and> \<not> (s ! i = CHR ''^'' \<and> s ! (i - 1) \<noteq> CHR ''['' \<and> s ! (i - 1) \<noteq> CHR 0x5C)
      then anchorIdx s (i + 1) else i)"
  by pat_completeness auto
termination
  by (relation "measure (\<lambda>(s, i). length s - i)") auto

declare anchorIdx.simps [simp del]

definition regExpPrefix :: "string option \<Rightarrow> string option" where
  "regExpPrefix expression = (case expression of
     None \<Rightarrow> None
   | Some s \<Rightarrow>
       if s \<noteq> [] \<and> hd s = CHR ''^'' then
         (let expressionIdx = prefixIdx (tl s) 1
          in if expressionIdx > 1 \<and> anchorIdx s expressionIdx = length s
             then Some (take (expressionIdx - 1) (drop 1 s)) else None)
       else None)"

section \<open>Matching single expressions\<close>

lemma rxPow_char:
  "rxPow (rxEnds (RxSet pos rs) s) k i =
   (if i + k \<le> length s \<and> list_all (\<lambda>c. inRanges rs c = pos) (take k (drop i s)) then [i + k]
    else if k = 0 then [i] else [])"
proof (induction k arbitrary: i)
  case (Suc k)
  show ?case
  proof (cases "i < length s")
    case True
    then have d: "drop i s = s ! i # drop (Suc i) s" by (simp add: Cons_nth_drop_Suc)
    show ?thesis using True Suc [of "Suc i"] by (auto simp: d)
  qed simp
qed simp

lemma inRanges_single [simp]: "inRanges [(chr_code c, chr_code c)] d \<longleftrightarrow> d = c"
  by (auto simp: inRanges_def dest: order_antisym)

lemma rxEnds_plus:
  assumes "x \<in> set (rxEnds (RxRep (RxChar c) (Suc 0) None) s i)"
  shows "i < length s \<and> s ! i = c"
proof -
  obtain k where "Suc 0 \<le> k" "x \<in> set (rxPow (rxEnds (RxChar c) s) k i)"
    using assms by (simp del: upt_Suc) fastforce
  then show ?thesis by (cases k) (auto split: if_splits)
qed

section \<open>The prefix of an expression\<close>

lemma prefixIdx_add: "prefixIdx s i = i + length (takeWhile (\<lambda>c. \<not> prefixEnd c) s)"
  by (induction s i rule: prefixIdx.induct) auto

lemma regExpPrefix_Some:
  assumes "regExpPrefix (Some e) = Some p"
  obtains rest where "e = CHR ''^'' # p @ rest" "p \<noteq> []" "list_all (\<lambda>c. \<not> prefixEnd c) p"
    "rest = [] \<or> prefixEnd (hd rest)"
proof -
  obtain t where e: "e = CHR ''^'' # t"
    using assms by (cases e) (auto simp: regExpPrefix_def split: if_splits)
  let ?p = "takeWhile (\<lambda>c. \<not> prefixEnd c) t" and ?rest = "dropWhile (\<lambda>c. \<not> prefixEnd c) t"
  have "p = take (length ?p) t" "?p \<noteq> []"
    using assms by (auto simp: regExpPrefix_def e prefixIdx_add Let_def split: if_splits)
  then have p: "p = ?p" by (simp add: takeWhile_eq_take [symmetric])
  show ?thesis
  proof (rule that [of ?rest])
    show "e = CHR ''^'' # p @ ?rest" using p e by simp
    show "p \<noteq> []" using p \<open>?p \<noteq> []\<close> by simp
    show "list_all (\<lambda>c. \<not> prefixEnd c) p" using p by (auto simp: list_all_iff dest: set_takeWhileD)
    show "?rest = [] \<or> prefixEnd (hd ?rest)" using hd_dropWhile [of "\<lambda>c. \<not> prefixEnd c" t] by auto
  qed
qed

lemma prefixEnd_facts:
  assumes "\<not> prefixEnd c"
  shows "c \<noteq> CHR ''|''" "c \<noteq> CHR ''(''" "c \<noteq> CHR ''[''" "c \<noteq> CHR 0x5C" "c \<noteq> CHR ''^''" "c \<noteq> CHR ''$''"
    "c \<noteq> CHR ''.''" "c \<noteq> CHR ''*''" "c \<noteq> CHR ''+''" "c \<noteq> CHR ''?''" "c \<noteq> CHR ''{''"
    "rxSpecial c \<longleftrightarrow> c = CHR '')''"
  using assms by (auto simp: prefixEnd_def rxSpecial_def)

lemma rxQuant_plain: "\<not> prefixEnd c \<Longrightarrow> rxQuant a (c # s) = Some (a, c # s)"
  using prefixEnd_facts by simp

lemma rxParseAtom_plain:
  assumes "\<not> prefixEnd c" "c \<noteq> CHR '')''"
  shows "rxParseAtom (Suc f) (c # s) = Some (RxChar c, s)"
  using assms prefixEnd_facts [OF assms(1)] by simp

lemma set_tl_subset: "set (tl xs) \<subseteq> set xs"
  by (cases xs) auto

lemma rxNum_rest: "rxNum s = Some (n, r) \<Longrightarrow> set r \<subseteq> set s"
  by (auto simp: rxNum_def Let_def set_drop_subset [THEN subsetD] split: if_splits)

lemma rxBraces_rest: "rxBraces a s = Some (b, r) \<Longrightarrow> set r \<subseteq> set s"
  using set_tl_subset by (fastforce simp: rxBraces_def dest!: rxNum_rest split: option.splits list.splits if_splits)

lemma rxQuant_rest: "rxQuant a s = Some (b, r) \<Longrightarrow> set r \<subseteq> set s"
  by (cases s) (auto dest: rxBraces_rest split: if_splits)

lemma rxBracket_rest: "rxBracket b s = Some (rs, r) \<Longrightarrow> set r \<subseteq> set s"
proof (induction "length s" arbitrary: b s rs r rule: less_induct)
  case less
  have IH: "set r \<subseteq> set t" if "rxBracket False t = Some (rs', r)" "length t < length s" for t rs'
    using less(1) that by blast
  show ?case
  proof (cases s)
    case (Cons c s0)
    show ?thesis
    proof (cases "\<exists>e s'. s0 = CHR ''-'' # e # s' \<and> e \<noteq> CHR '']''")
      case True
      then show ?thesis using less(2) Cons IH [of "tl (tl s0)"] by (auto split: if_splits)
    next
      case False
      then have "rxBracket b s = (if c = CHR '']'' \<and> \<not> b then Some ([], s0) else if c = CHR ''['' then None
          else map_option (\<lambda>(rs, r). ((chr_code c, chr_code c) # rs, r)) (rxBracket False s0))"
        unfolding Cons rxBracket.simps(2) [of b c s0] by (auto simp del: rxBracket.simps split: list.split)
      then show ?thesis using less(2) Cons IH [of s0] by (auto simp del: rxBracket.simps split: if_splits)
    qed
  qed (use less(2) in simp)
qed

lemma rxParse_rest:
  shows "rxParseAlt f s = Some (a, r) \<Longrightarrow> set r \<subseteq> set s"
    and "rxParseSeq f s = Some (a, r) \<Longrightarrow> set r \<subseteq> set s"
    and "rxParseAtom f s = Some (a, r) \<Longrightarrow> set r \<subseteq> set s"
proof (induction f s and f s and f s arbitrary: a r and a r and a r
    rule: rxParseAlt_rxParseSeq_rxParseAtom.induct)
  case (2 f s)
  then show ?case by (fastforce dest: set_tl_subset [THEN subsetD] split: option.splits if_splits)
next
  case (4 f s)
  then show ?case by (fastforce dest: rxQuant_rest split: option.splits if_splits)
next
  case (6 f s)
  then show ?case by (fastforce dest: rxBracket_rest set_tl_subset [THEN subsetD] split: option.splits if_splits list.splits)
qed simp_all

text \<open>
  A sequence that starts with literals, the last of which has no quantifier but possibly +,
  matches only what starts with these literals.
\<close>

lemma rxParseSeq_prefix:
  assumes "rxParseSeq f (p @ rest) = Some (r, [])" "p \<noteq> []" "list_all (\<lambda>c. \<not> prefixEnd c) p"
    "rest \<noteq> [] \<Longrightarrow> hd rest \<notin> {CHR ''*'', CHR ''?'', CHR ''{''}" "rxEnds r s i \<noteq> []"
  shows "take (length p) (drop i s) = p"
  using assms
proof (induction p arbitrary: f r i)
  case (Cons c p)
  obtain f' where f: "f = Suc f'" using Cons.prems(1) by (cases f) auto
  obtain f'' where f': "f' = Suc f''"
    using Cons.prems(1,3) f prefixEnd_facts [of c] by (cases f') (auto split: if_splits)
  have c: "\<not> prefixEnd c" using Cons.prems(3) by simp
  have nc: "c \<noteq> CHR '')''" using Cons.prems(1) by (auto simp: f)
  have ifc: "\<not> (c # p @ rest = [] \<or> hd (c # p @ rest) = CHR ''|'' \<or> hd (c # p @ rest) = CHR '')'')"
    using nc prefixEnd_facts [OF c] by simp
  have parse: "(case rxQuant (RxChar c) (p @ rest) of None \<Rightarrow> None
       | Some (a', r') \<Rightarrow> map_option (\<lambda>(b, r''). (RxCat a' b, r'')) (rxParseSeq f' r')) = Some (r, [])"
    using Cons.prems(1) rxParseAtom_plain [OF c nc, of f'' "p @ rest"] ifc
    unfolding f rxParseSeq.simps append_Cons f' by (simp del: rxParseAtom.simps)
  show ?case
  proof (cases p)
    case Nil
    have "rxQuant (RxChar c) rest = Some (RxChar c, rest) \<or>
        rxQuant (RxChar c) rest = Some (RxRep (RxChar c) 1 None, tl rest)"
      using Cons.prems(4) by (cases rest) auto
    then have "i < length s \<and> s ! i = c"
      using parse Cons.prems(5) Nil
      by (auto simp del: rxEnds.simps(7) dest: rxEnds_plus split: option.splits if_splits)
    then show ?thesis by (simp add: Nil take_Suc_conv_app_nth hd_drop_conv_nth take_Suc drop_Suc)
  next
    case (Cons d p')
    then have "rxQuant (RxChar c) (p @ rest) = Some (RxChar c, p @ rest)"
      using Cons.prems(3) rxQuant_plain by simp
    then obtain b where b: "rxParseSeq f' (p @ rest) = Some (b, [])" "r = RxCat (RxChar c) b"
      using parse by auto
    with Cons.prems(5) have i: "i < length s" "s ! i = c" and e: "rxEnds b s (Suc i) \<noteq> []"
      by (auto split: if_splits)
    have "take (length p) (drop (Suc i) s) = p"
      using Cons.IH [OF b(1) _ _ Cons.prems(4) e] Cons.prems(3) Cons by simp
    then show ?thesis using i by (simp add: Cons_nth_drop_Suc [symmetric])
  qed
qed simp

section \<open>Properties\<close>

text \<open>
  C25. The prefix of an expression. Storage drivers list only the files that start with the prefix
  regExpPrefix extracts. For an expression without alternatives whose prefix is not followed by
  *, ? or { this loses nothing: every string the expression matches starts with the prefix.
\<close>

theorem regExpPrefix_sound:
  assumes "regExpPrefix (Some e) = Some p" "regExpMatchOne e s = Inr True"
    and "CHR ''|'' \<notin> set e" "drop (Suc (length p)) e \<noteq> [] \<Longrightarrow> hd (drop (Suc (length p)) e) \<notin> {CHR ''*'', CHR ''?'', CHR ''{''}"
  shows "strBeginsWith s p"
proof -
  obtain rest where e: "e = CHR ''^'' # p @ rest" "p \<noteq> []" "list_all (\<lambda>c. \<not> prefixEnd c) p"
    using regExpPrefix_Some [OF assms(1)] by metis
  have "3 * length e + 3 = Suc (Suc (Suc (3 * length e)))" by simp
  moreover obtain r where "rxParseAlt (3 * length e + 3) e = Some (r, [])" and m: "regExpMatch r s"
    using assms(2) by (auto simp: regExpMatchOne_def regExpNew_def split: option.splits list.splits prod.splits)
  ultimately obtain f where r: "rxParseAlt (Suc (Suc (Suc f))) e = Some (r, [])" by metis
  obtain c p' where p: "p = c # p'" "\<not> prefixEnd c" using e(2,3) by (cases p) auto
  obtain b where b: "rxParseSeq (Suc f) (p @ rest) = Some (b, [])" and rb: "r = RxCat RxBegin b"
  proof -
    obtain a t where a: "rxParseSeq (Suc (Suc f)) e = Some (a, t)"
      using r by (auto split: option.splits simp del: rxParseSeq.simps)
    then have "CHR ''|'' \<notin> set t" using rxParse_rest(2) assms(3) by blast
    then have "rxParseSeq (Suc (Suc f)) e = Some (r, [])"
      using r a by (cases t) (auto simp del: rxParseSeq.simps split: if_splits)
    then show ?thesis
      using that rxQuant_plain [OF p(2), of RxBegin "p' @ rest"] p(1)
      by (auto simp: e(1) simp del: rxQuant.simps split: if_splits)
  qed
  obtain i where "i \<le> length s" "rxEnds r s i \<noteq> []"
    using m less_Suc_eq_le by (auto simp: regExpMatch_def list_ex_iff simp del: upt_Suc)
  then have "rxEnds b s 0 \<noteq> []" using rb by (auto split: if_splits)
  from rxParseSeq_prefix [OF b e(2,3) _ this] show ?thesis
    using assms(4) e(1) by simp
qed

theorem regExpPrefix_sound_witness:
  "regExpMatchOne ''^ab+[0-9]{2}$'' ''abb42'' = Inr True \<and> strBeginsWith ''abb42'' ''ab''"
proof -
  have "regExpPrefix (Some ''^ab+[0-9]{2}$'') = Some ''ab''"
    by (simp add: regExpPrefix_def prefixEnd_def anchorIdx.simps)
  moreover have m: "regExpMatchOne ''^ab+[0-9]{2}$'' ''abb42'' = Inr True" by code_simp
  ultimately show ?thesis using regExpPrefix_sound [of "''^ab+[0-9]{2}$''" "''ab''" "''abb42''"] by simp
qed

text \<open>
  Where the prefix is wrong. A character that the expression makes optional, or an alternative,
  is taken into the prefix all the same: the expression ^ab?c has the prefix ab and matches ac,
  and ^ab|c has the prefix ab and matches c. A storage driver that filters by this prefix hides
  these files.
\<close>

lemma regExpPrefix_unsound:
  "regExpPrefix (Some ''^ab?c'') = Some ''ab'' \<and> regExpMatchOne ''^ab?c'' ''ac'' = Inr True \<and> \<not> strBeginsWith ''ac'' ''ab'' \<and>
   regExpPrefix (Some ''^ab|c'') = Some ''ab'' \<and> regExpMatchOne ''^ab|c'' ''c'' = Inr True"
  by code_simp

end
