(* ===== verification/BackupLabel.thy ===== *)
theory BackupLabel
  imports RegExp
begin

text \<open>
  Backup labels (src/command/backup/common.c): the format of a label and the regular expression
  that selects labels by backup type. A full backup is labelled with the time it was made, as in
  20191002-070640F, a differential or incremental one with the label of its full backup, an
  underscore and its own time, as in 20191002-070640F_20191003-105320D. The time zone dependent
  \<open>localtime_r\<close> and \<open>strftime\<close> are an argument: the text of the time, or None if it does not fit
  the buffer.
\<close>

section \<open>Types and operations\<close>

datatype BackupType = backupTypeFull | backupTypeDiff | backupTypeIncr

record BackupRegExpParam =
  full :: bool
  differential :: bool
  incremental :: bool
  noAnchorEnd :: bool

definition DATE_TIME_REGEX :: string where
  "DATE_TIME_REGEX = ''[0-9]{8}'' @ [CHR 0x5C] @ ''-[0-9]{6}''"

definition backupLabelFormat ::
  "(int \<Rightarrow> string option) \<Rightarrow> BackupType \<Rightarrow> string option \<Rightarrow> int \<Rightarrow> string result" where
  "backupLabelFormat timeText type backupLabelPrior timestamp =
     bindE (ASSERT ((type = backupTypeFull \<and> backupLabelPrior = None) \<or>
                    (type \<noteq> backupTypeFull \<and> backupLabelPrior \<noteq> None))) (\<lambda>_.
     bindE (ASSERT (timestamp > 0)) (\<lambda>_.
     case timeText timestamp of
       None \<Rightarrow> Inl AssertError
     | Some buffer \<Rightarrow>
         (case backupLabelPrior of
            None \<Rightarrow> Inr (buffer @ ''F'')
          | Some prior \<Rightarrow> bindE (strSubN prior 0 16) (\<lambda>fullLabel.
              Inr (fullLabel @ ''_'' @ buffer @ (if type = backupTypeDiff then ''D'' else ''I''))))))"

definition backupRegExp :: "BackupRegExpParam \<Rightarrow> string result" where
  "backupRegExp param =
     bindE (ASSERT (full param \<or> differential param \<or> incremental param)) (\<lambda>_.
       Inr (''^'' @ DATE_TIME_REGEX @ ''F'' @
         (if differential param \<or> incremental param then
            (if full param then ''('' @ [CHR 0x5C] @ ''_'' else [CHR 0x5C] @ ''_'') @
            DATE_TIME_REGEX @
            (if differential param \<and> incremental param then ''(D|I)''
             else if differential param then ''D'' else ''I'') @
            (if full param then ''){0,1}'' else [])
          else []) @
         (if noAnchorEnd param then [] else ''$'')))"

section \<open>What the labels are\<close>

definition isStamp :: "string \<Rightarrow> bool" where
  "isStamp t \<longleftrightarrow> length t = 15 \<and> list_all decimalDigit (take 8 t) \<and> t ! 8 = CHR ''-'' \<and> list_all decimalDigit (drop 9 t)"

definition isFullLabel :: "string \<Rightarrow> bool" where
  "isFullLabel l \<longleftrightarrow> length l = 16 \<and> isStamp (take 15 l) \<and> l ! 15 = CHR ''F''"

text \<open>The backup type a label stands for, None when it is no label.\<close>

definition labelType :: "string \<Rightarrow> BackupType option" where
  "labelType l =
     (if isFullLabel l then Some backupTypeFull
      else if length l = 33 \<and> isFullLabel (take 16 l) \<and> l ! 16 = CHR ''_'' \<and> isStamp (take 15 (drop 17 l))
      then (if l ! 32 = CHR ''D'' then Some backupTypeDiff
            else if l ! 32 = CHR ''I'' then Some backupTypeIncr else None)
      else None)"

fun paramSelects :: "BackupRegExpParam \<Rightarrow> BackupType \<Rightarrow> bool" where
  "paramSelects param backupTypeFull = full param"
| "paramSelects param backupTypeDiff = differential param"
| "paramSelects param backupTypeIncr = incremental param"

section \<open>The expressions as parsed\<close>

definition stampRx :: "rx \<Rightarrow> rx" where
  "stampRx r = RxCat (RxRep (RxSet True [(48, 57)]) 8 (Some 8)) (RxCat (RxChar (CHR ''-''))
     (RxCat (RxRep (RxSet True [(48, 57)]) 6 (Some 6)) r))"

definition kindRx :: "BackupRegExpParam \<Rightarrow> rx \<Rightarrow> rx" where
  "kindRx param r =
     (if differential param \<and> incremental param
      then RxCat (RxAlt (RxCat (RxChar (CHR ''D'')) RxEmpty) (RxCat (RxChar (CHR ''I'')) RxEmpty)) r
      else if differential param then RxCat (RxChar (CHR ''D'')) r else RxCat (RxChar (CHR ''I'')) r)"

definition labelRx :: "BackupRegExpParam \<Rightarrow> rx \<Rightarrow> rx" where
  "labelRx param r = RxCat RxBegin (stampRx (RxCat (RxChar (CHR ''F''))
     (if differential param \<or> incremental param then
        (if full param
         then RxCat (RxRep (RxCat (RxChar (CHR ''_'')) (stampRx (kindRx param RxEmpty))) 0 (Some 1)) r
         else RxCat (RxChar (CHR ''_'')) (stampRx (kindRx param r)))
      else r)))"

lemma backupRegExp_parse:
  assumes "full param \<or> differential param \<or> incremental param" "\<not> noAnchorEnd param"
  shows "bindE (backupRegExp param) regExpNew = Inr (labelRx param (RxCat RxEnd RxEmpty))"
proof -
  have "\<forall>f \<in> {True, False}. \<forall>d \<in> {True, False}. \<forall>i \<in> {True, False}. f \<or> d \<or> i \<longrightarrow>
      bindE (backupRegExp \<lparr>full = f, differential = d, incremental = i, noAnchorEnd = False\<rparr>) regExpNew =
      Inr (labelRx \<lparr>full = f, differential = d, incremental = i, noAnchorEnd = False\<rparr> (RxCat RxEnd RxEmpty))"
    by code_simp
  then show ?thesis using assms by (cases param) (metis (full_types) BackupRegExpParam.select_convs insertI1 insertI2)
qed

section \<open>Matching labels\<close>

lemma rxEnds_exact:
  "0 < n \<Longrightarrow> rxEnds (RxRep (RxSet True rs) n (Some n)) s i =
     (if i + n \<le> length s \<and> list_all (inRanges rs) (take n (drop i s)) then [i + n] else [])"
  by (simp add: rxPow_char)

lemma inRanges_digit [simp]: "inRanges [(48, 57)] = decimalDigit"
  by (rule ext) (simp add: inRanges_def decimalDigit_def)

lemma inRanges_letters [simp]:
  "inRanges [(68, 68)] c \<longleftrightarrow> c = CHR ''D''" "inRanges [(73, 73)] c \<longleftrightarrow> c = CHR ''I''"
  "inRanges [(70, 70)] c \<longleftrightarrow> c = CHR ''F''" "inRanges [(95, 95)] c \<longleftrightarrow> c = CHR ''_''"
  "inRanges [(45, 45)] c \<longleftrightarrow> c = CHR ''-''"
  using inRanges_single [of "CHR ''D''" c] inRanges_single [of "CHR ''I''" c] inRanges_single [of "CHR ''F''" c]
    inRanges_single [of "CHR ''_''" c] inRanges_single [of "CHR ''-''" c] by simp_all

lemma rxEnds_stampRx:
  "rxEnds (stampRx r) s i =
     (if i + 15 \<le> length s \<and> isStamp (take 15 (drop i s)) then rxEnds r s (i + 15) else [])"
proof -
  have "isStamp (take 15 (drop i s)) \<longleftrightarrow>
      list_all decimalDigit (take 8 (drop i s)) \<and> s ! (i + 8) = CHR ''-'' \<and> list_all decimalDigit (take 6 (drop (i + 9) s))"
    if "i + 15 \<le> length s"
    using that by (cases "length s = i + 15") (auto simp: isStamp_def min_def drop_take add.commute)
  then show ?thesis
    by (auto simp: stampRx_def rxEnds_exact add.commute [of 9 i] add.commute [of 15 i] simp del: rxEnds.simps(7))
qed

lemma regExpMatch_begin: "regExpMatch (RxCat RxBegin r) s \<longleftrightarrow> rxEnds r s 0 \<noteq> []"
  by (force simp: regExpMatch_def list_ex_iff simp del: upt_Suc)

lemma rxEnds_kindRx:
  assumes "differential param \<or> incremental param"
  shows "rxEnds (kindRx param r) s i =
    (if i < length s \<and> (s ! i = CHR ''D'' \<and> differential param \<or> s ! i = CHR ''I'' \<and> incremental param)
     then rxEnds r s (i + 1) else [])"
  using assms by (auto simp: kindRx_def)

lemma rxEnds_optional: "rxEnds (RxRep a 0 (Some (Suc 0))) s i = i # rxEnds a s i"
proof -
  have "rxPow f 0 = (\<lambda>i. [i])" for f by (rule ext) simp
  then show ?thesis by simp
qed

lemma labelRx_match:
  assumes "full param \<or> differential param \<or> incremental param"
  shows "regExpMatch (labelRx param (RxCat RxEnd RxEmpty)) l \<longleftrightarrow>
    (case labelType l of None \<Rightarrow> False | Some t \<Rightarrow> paramSelects param t)"
proof -
  have full: "isFullLabel (take 16 l) \<longleftrightarrow> 15 < length l \<and> isStamp (take 15 l) \<and> l ! 15 = CHR ''F''"
    by (auto simp: isFullLabel_def min_def)
  have eq: "isFullLabel l \<longleftrightarrow> length l = 16 \<and> isFullLabel (take 16 l)"
    by (auto simp: isFullLabel_def)
  show ?thesis
  proof (cases "isFullLabel (take 16 l)")
    case True
    then show ?thesis using assms
      by (auto simp: labelRx_def regExpMatch_begin rxEnds_stampRx rxEnds_kindRx rxEnds_optional full eq labelType_def
          simp del: rxEnds.simps(7) split: if_splits)
  next
    case False
    then show ?thesis using assms
      by (auto simp: labelRx_def regExpMatch_begin rxEnds_stampRx full eq labelType_def)
  qed
qed

lemma backupRegExp_match:
  assumes "full param \<or> differential param \<or> incremental param" "\<not> noAnchorEnd param"
  shows "bindE (backupRegExp param) (\<lambda>e. regExpMatchOne e l) =
    Inr (case labelType l of None \<Rightarrow> False | Some t \<Rightarrow> paramSelects param t)"
proof -
  have "bindE (backupRegExp param) (\<lambda>e. regExpMatchOne e l) =
      mapE (\<lambda>r. regExpMatch r l) (bindE (backupRegExp param) regExpNew)"
    by (cases "backupRegExp param") (simp_all add: regExpMatchOne_def)
  then show ?thesis using assms by (simp add: backupRegExp_parse labelRx_match)
qed

section \<open>Properties\<close>

text \<open>
  C26. The label expression. For every choice of backup types, the expression backupRegExp builds is
  well formed and matches exactly the labels of the chosen types.
\<close>

theorem backupRegExp_exact:
  assumes "full param \<or> differential param \<or> incremental param" "\<not> noAnchorEnd param"
  shows "bindE (backupRegExp param) (\<lambda>e. regExpMatchOne e l) =
    Inr (case labelType l of None \<Rightarrow> False | Some t \<Rightarrow> paramSelects param t)"
  using backupRegExp_match [OF assms] .

theorem backupRegExp_exact_witness:
  "bindE (backupRegExp \<lparr>full = True, differential = True, incremental = False, noAnchorEnd = False\<rparr>)
     (\<lambda>e. regExpMatchOne e ''20191002-070640F_20191003-105320D'') = Inr True"
  by (subst backupRegExp_exact) (simp_all add: labelType_def isFullLabel_def isStamp_def decimalDigit_def)

text \<open>
  The labels that are made. If the time text has the form of strftime's format, the label of a
  full backup is a full label; a differential or incremental backup, whose prior backup has a
  label of any type, gets a label of its own type that starts with the label of the same full
  backup and sorts after that full backup.
\<close>

lemma backupLabelFormat_type:
  assumes "\<And>t s. timeText t = Some s \<Longrightarrow> isStamp s"
    and "backupLabelFormat timeText type prior timestamp = Inr l"
    and "\<And>p. prior = Some p \<Longrightarrow> labelType p \<noteq> None"
  shows "labelType l = Some type \<and>
    (\<forall>p. prior = Some p \<longrightarrow> take 16 l = take 16 p \<and> strcmp (take 16 p) l < 0)"
proof -
  obtain b where b: "timeText timestamp = Some b" "isStamp b"
    using assms(1,2) by (auto simp: backupLabelFormat_def bindE_eq_Inr split: option.splits)
  then have lb: "length b = 15" by (simp add: isStamp_def)
  show ?thesis
  proof (cases prior)
    case None
    then show ?thesis using assms(2) b lb
      by (auto simp: backupLabelFormat_def bindE_eq_Inr labelType_def isFullLabel_def nth_append)
  next
    case (Some p)
    then have p: "isFullLabel (take 16 p)" "16 \<le> length p"
      using assms(3) by (auto simp: labelType_def isFullLabel_def split: if_splits)
    with assms(2) Some b have l: "l = take 16 p @ ''_'' @ b @ (if type = backupTypeDiff then ''D'' else ''I'')"
      and ty: "type \<noteq> backupTypeFull"
      by (auto simp: backupLabelFormat_def bindE_eq_Inr strSubN_def split: if_splits)
    have lp: "length (take 16 p) = 16" using p by simp
    have "strcmp x (x @ c # y) < 0" for x y and c :: char by (induction x) auto
    then have "strcmp (take 16 p) l < 0" by (simp add: l)
    moreover have "labelType l = Some type"
      using lp lb p b ty by (cases type) (auto simp: l labelType_def isFullLabel_def nth_append)
    ultimately show ?thesis using Some lp by (simp add: l)
  qed
qed

lemma backupLabelFormat_type_witness:
  "backupLabelFormat (\<lambda>_. Some ''20191003-105320'') backupTypeDiff (Some ''20191002-070640F'') 1 =
     Inr ''20191002-070640F_20191003-105320D'' \<and>
   labelType ''20191002-070640F_20191003-105320D'' = Some backupTypeDiff"
proof -
  have s: "isStamp ''20191003-105320''" "labelType ''20191002-070640F'' \<noteq> None"
    by (simp_all add: isStamp_def labelType_def isFullLabel_def decimalDigit_def)
  have f: "backupLabelFormat (\<lambda>_. Some ''20191003-105320'') backupTypeDiff (Some ''20191002-070640F'') 1 =
      Inr ''20191002-070640F_20191003-105320D''"
    by (simp add: backupLabelFormat_def strSubN_def)
  show ?thesis using backupLabelFormat_type [OF _ f] s f by simp
qed

end
