(* ===== verification/InfoPg.thy ===== *)
theory InfoPg
  imports RegExp
begin

text \<open>
  The PostgreSQL history of an info file (src/info/infoPg.c) and the version strings of
  src/postgres/interface.c. The history is a list, newest cluster first, with the index of the
  current cluster; an archive id names the WAL directory of one history entry, as in 9.4-1.
  Unsigned integers of the C structures are natural numbers below their bound. The list
  operations are those of the sequence that ListType shows the C list to be.
\<close>

section \<open>PostgreSQL versions\<close>

definition PG_VERSION_10 :: nat where
  "PG_VERSION_10 = 100000"

definition pgVersionFromStr :: "string \<Rightarrow> nat result" where
  "pgVersionFromStr version =
     bindE (regExpMatchOne ''^[0-9]+[.]*[0-9]+$'' version) (\<lambda>matches.
     if \<not> matches then Inl AssertError
     else
       (let idxStart = strChr version (CHR ''.'')
        in bindE
             (if idxStart \<noteq> -1
              then bindE (bindE (strSubN version 0 (nat idxStart)) cvtZToUInt) (\<lambda>major.
                   bindE (bindE (strSub version (nat idxStart + 1)) cvtZToUInt) (\<lambda>minor. Inr (major, minor)))
              else mapE (\<lambda>major. (major, 0)) (cvtZToUInt version))
             (\<lambda>(major, minor). Inr ((major * 10000 + minor * 100) mod 2 ^ 32))))"

definition pgVersionToStr :: "nat \<Rightarrow> string" where
  "pgVersionToStr version =
     (if version \<ge> PG_VERSION_10 then digitsOf 10 (version div 10000)
      else digitsOf 10 (version div 10000) @ ''.'' @ digitsOf 10 (version mod 10000 div 100))"

section \<open>The history\<close>

record InfoPgData =
  id_pg :: nat
  systemId :: nat
  catalogVersion :: nat
  version :: nat

datatype InfoPgType = infoPgArchive | infoPgBackup

record InfoPg =
  history :: "InfoPgData list"
  type_pg :: InfoPgType
  historyCurrent :: nat

definition infoPgNewInternal :: "InfoPgType \<Rightarrow> InfoPg" where
  "infoPgNewInternal type = \<lparr>history = [], type_pg = type, historyCurrent = 0\<rparr>"

definition infoPgNew :: "InfoPgType \<Rightarrow> InfoPg" where
  "infoPgNew type = infoPgNewInternal type"

definition infoPgDataTotal :: "InfoPg \<Rightarrow> nat" where
  "infoPgDataTotal this = length (history this)"

definition infoPgData :: "InfoPg \<Rightarrow> nat \<Rightarrow> InfoPgData result" where
  "infoPgData this pgDataIdx =
     (if pgDataIdx < length (history this) then Inr (history this ! pgDataIdx) else Inl AssertError)"

definition infoPgDataCurrentId :: "InfoPg \<Rightarrow> nat" where
  "infoPgDataCurrentId this = historyCurrent this"

definition infoPgDataCurrent :: "InfoPg \<Rightarrow> InfoPgData result" where
  "infoPgDataCurrent this = infoPgData this (infoPgDataCurrentId this)"

definition infoPgCurrentDataId :: "InfoPg \<Rightarrow> nat result" where
  "infoPgCurrentDataId this = mapE id_pg (infoPgDataCurrent this)"

definition infoPgAdd :: "InfoPg \<Rightarrow> InfoPgData \<Rightarrow> InfoPg" where
  "infoPgAdd this pgData = this\<lparr>history := pgData # history this, historyCurrent := 0\<rparr>"

definition infoPgSet :: "InfoPg \<Rightarrow> nat \<Rightarrow> nat \<Rightarrow> nat \<Rightarrow> InfoPg result" where
  "infoPgSet this pgVersion pgSystemId pgCatalogVersion =
     bindE (if infoPgDataTotal this > 0
            then mapE (\<lambda>n. (n + 1) mod 2 ^ 32) (infoPgCurrentDataId this) else Inr 1) (\<lambda>pgDataId.
     Inr (infoPgAdd this
       \<lparr>id_pg = pgDataId, systemId = pgSystemId,
        catalogVersion = (if type_pg this = infoPgBackup then pgCatalogVersion else 0), version = pgVersion\<rparr>))"

definition infoPgArchiveId :: "InfoPg \<Rightarrow> nat \<Rightarrow> string result" where
  "infoPgArchiveId this pgDataIdx =
     mapE (\<lambda>pgData. pgVersionToStr (version pgData) @ ''-'' @ digitsOf 10 (id_pg pgData)) (infoPgData this pgDataIdx)"

section \<open>Loading\<close>

text \<open>
  The load callback sees the history entries in the order of the file, oldest first, and inserts
  each at the front; then the current id of the db section selects the entry. UINT_MAX stands
  for no entry.
\<close>

definition UINT_MAX :: nat where
  "UINT_MAX = 2 ^ 32 - 1"

definition infoPgLoadHistory :: "InfoPg \<Rightarrow> InfoPgData list \<Rightarrow> InfoPg" where
  "infoPgLoadHistory this entries = foldl (\<lambda>t d. t\<lparr>history := d # history t\<rparr>) this entries"

fun infoPgFindCurrent :: "InfoPgData list \<Rightarrow> nat \<Rightarrow> nat \<Rightarrow> nat \<Rightarrow> nat" where
  "infoPgFindCurrent [] historyIdx currentId found = found"
| "infoPgFindCurrent (d # ds) historyIdx currentId found =
     infoPgFindCurrent ds (historyIdx + 1) currentId (if id_pg d = currentId then historyIdx else found)"

definition infoPgNewLoad :: "InfoPgType \<Rightarrow> InfoPgData list \<Rightarrow> nat \<Rightarrow> InfoPg result" where
  "infoPgNewLoad type entries currentId =
     (let this = infoPgLoadHistory ((infoPgNewInternal type)\<lparr>historyCurrent := UINT_MAX\<rparr>) entries
      in bindE (ASSERT (history this \<noteq> [])) (\<lambda>_.
         bindE (ASSERT (currentId > 0)) (\<lambda>_.
         let current = infoPgFindCurrent (history this) 0 currentId UINT_MAX
         in bindE (ASSERT (current \<noteq> UINT_MAX)) (\<lambda>_. Inr (this\<lparr>historyCurrent := current\<rparr>)))))"

section \<open>The history invariant\<close>

text \<open>The ids of the history count down to one and the current entry is the newest.\<close>

definition infoPg_wf :: "InfoPg \<Rightarrow> bool" where
  "infoPg_wf this \<longleftrightarrow> map id_pg (history this) = rev [1..<Suc (length (history this))] \<and> historyCurrent this = 0"

lemma infoPg_wf_new [simp]: "infoPg_wf (infoPgNew type)"
  by (simp add: infoPg_wf_def infoPgNew_def infoPgNewInternal_def)

lemma infoPgSet_ok:
  assumes "infoPg_wf this" "length (history this) < 2 ^ 32 - 1"
  obtains d where "infoPgSet this v s c = Inr (this\<lparr>history := d # history this, historyCurrent := 0\<rparr>)"
    "id_pg d = Suc (length (history this))" "version d = v" "systemId d = s"
    "catalogVersion d = (if type_pg this = infoPgBackup then c else 0)"
proof -
  let ?d = "\<lparr>id_pg = Suc (length (history this)), systemId = s,
    catalogVersion = (if type_pg this = infoPgBackup then c else 0), version = v\<rparr>"
  have hd: "infoPgCurrentDataId this = Inr (length (history this))" if "history this \<noteq> []"
    using assms that by (cases "history this")
      (simp_all add: infoPg_wf_def infoPgCurrentDataId_def infoPgDataCurrent_def infoPgDataCurrentId_def infoPgData_def)
  have "infoPgSet this v s c = Inr (this\<lparr>history := ?d # history this, historyCurrent := 0\<rparr>)"
    using hd assms(2) by (simp add: infoPgSet_def infoPgDataTotal_def infoPgAdd_def)
  then show ?thesis by (rule that) simp_all
qed

lemma infoPgSet_wf:
  assumes "infoPg_wf this" "length (history this) < 2 ^ 32 - 1" "infoPgSet this v s c = Inr this'"
  shows "infoPg_wf this'"
proof -
  obtain d where "this' = this\<lparr>history := d # history this, historyCurrent := 0\<rparr>" "id_pg d = Suc (length (history this))"
    using infoPgSet_ok [OF assms(1,2), of v s c] assms(3) by (metis Inr_inject)
  then show ?thesis using assms(1) by (simp add: infoPg_wf_def)
qed

lemma infoPgLoadHistory_rev:
  "infoPgLoadHistory this entries = this\<lparr>history := rev entries @ history this\<rparr>"
  by (induction entries arbitrary: this) (simp_all add: infoPgLoadHistory_def)

lemma infoPgFindCurrent_notin: "c \<notin> id_pg ` set ds \<Longrightarrow> infoPgFindCurrent ds i c f = f"
  by (induction ds arbitrary: i f) auto

lemma infoPgFindCurrent_in:
  "c \<in> id_pg ` set ds \<Longrightarrow> \<exists>k < length ds. infoPgFindCurrent ds i c f = i + k \<and> id_pg (ds ! k) = c"
proof (induction ds arbitrary: i f)
  case (Cons d ds)
  show ?case
  proof (cases "c \<in> id_pg ` set ds")
    case True
    from Cons.IH [OF this, of "Suc i" "if id_pg d = c then i else f"] obtain k where
      "k < length ds" "infoPgFindCurrent (d # ds) i c f = i + Suc k" "id_pg (ds ! k) = c" by auto
    then show ?thesis by (intro exI [of _ "Suc k"]) simp
  next
    case False
    then show ?thesis using Cons.prems by (intro exI [of _ 0]) (auto simp: infoPgFindCurrent_notin)
  qed
qed simp

lemma infoPgNewLoad_current:
  assumes "infoPgNewLoad type entries currentId = Inr this" "length entries < 2 ^ 32 - 1"
  shows "infoPgCurrentDataId this = Inr currentId \<and> history this = rev entries"
proof -
  let ?ds = "rev entries"
  have h: "history this = ?ds" and c: "historyCurrent this = infoPgFindCurrent ?ds 0 currentId UINT_MAX"
    and n: "historyCurrent this \<noteq> UINT_MAX"
    using assms(1) by (auto simp: infoPgNewLoad_def Let_def infoPgLoadHistory_rev infoPgNewInternal_def bindE_eq_Inr)
  have "currentId \<in> id_pg ` set ?ds" using c n infoPgFindCurrent_notin by metis
  from infoPgFindCurrent_in [OF this, of 0 UINT_MAX] c have
    "historyCurrent this < length ?ds \<and> id_pg (?ds ! historyCurrent this) = currentId" by auto
  then show ?thesis
    using h by (simp add: infoPgCurrentDataId_def infoPgDataCurrent_def infoPgDataCurrentId_def infoPgData_def)
qed

section \<open>Properties\<close>



text \<open>
  Version strings. Every PostgreSQL version that is supported is read back from its string.
\<close>

theorem pgVersion_roundtrip:
  "list_all (\<lambda>v. pgVersionFromStr (pgVersionToStr v) = Inr v)
     [80300, 80400, 90000, 90100, 90200, 90300, 90400, 90500, 90600, 100000, 110000, 120000, 130000, 140000]"
proof -
  have "list_all (\<lambda>s. regExpMatchOne ''^[0-9]+[.]*[0-9]+$'' s = Inr True)
      [''8.3'', ''8.4'', ''9.0'', ''9.1'', ''9.2'', ''9.3'', ''9.4'', ''9.5'', ''9.6'', ''10'', ''11'', ''12'', ''13'', ''14'']"
    by code_simp
  then show ?thesis
    by (simp add: pgVersionToStr_def PG_VERSION_10_def digitsOf.simps digitChar_def char_of_def bit_iff_odd)
      (simp add: pgVersionFromStr_def strChr_def strSubN_def strSub_def cvtZToUInt_def cvtZToUIntBase_def
        cvtZToUInt64Internal_def strtoull_def strtoParse_def isspaceC_def digitValue_def cvtZToIntValid_def)
qed

end
