(* ===== verification/InfoBackup.thy ===== *)
theory InfoBackup
  imports InfoPg BackupLabel
begin

text \<open>
  The list of current backups in backup.info (src/info/infoBackup.c): the record of one backup, the
  operations on the list, the dependents of a backup, and the invariant the other commands rely on:
  the list is ordered by label, and the prior backup of every differential or incremental backup
  is in the list before it.
\<close>

section \<open>Data\<close>

record InfoBackupData =
  backupLabel :: string
  backrestFormat :: nat
  backrestVersion :: string
  backupArchiveStart :: "string option"
  backupArchiveStop :: "string option"
  backupInfoRepoSize :: u64
  backupInfoRepoSizeDelta :: u64
  backupInfoSize :: u64
  backupInfoSizeDelta :: u64
  backupPgId :: nat
  backupPrior :: "string option"
  backupReference :: "string list option"
  backupTimestampStart :: int
  backupTimestampStop :: int
  backupType :: BackupType
  optionArchiveCheck :: bool
  optionArchiveCopy :: bool
  optionBackupStandby :: bool
  optionChecksumPage :: bool
  optionCompress :: bool
  optionHardlink :: bool
  optionOnline :: bool

record InfoBackup =
  infoPg :: InfoPg
  backup :: "InfoBackupData list"

text \<open>The parts of a manifest (src/info/manifest.h) that backup.info takes over.\<close>

record ManifestFile =
  name_mf :: string
  reference :: "string option"
  size_mf :: u64
  sizeRepo :: u64

record ManifestData =
  backrestVersion_md :: string
  backupLabel_md :: string
  backupLabelPrior :: "string option"
  timestampStart_md :: int
  timestampStop_md :: int
  backupType_md :: BackupType
  archiveStart :: "string option"
  archiveStop :: "string option"
  pgId_md :: nat
  pgVersion_md :: nat
  pgSystemId_md :: nat
  backupOptionArchiveCheck :: bool
  backupOptionArchiveCopy :: bool
  backupOptionStandby :: "bool option"
  backupOptionChecksumPage :: "bool option"
  backupOptionCompress :: bool
  backupOptionHardLink :: bool
  backupOptionOnline :: bool

record Manifest =
  manifestData :: ManifestData
  manifestFileList :: "ManifestFile list"

definition REPOSITORY_FORMAT :: nat where
  "REPOSITORY_FORMAT = 5"

section \<open>Operations\<close>

definition infoBackupDataTotal :: "InfoBackup \<Rightarrow> nat" where
  "infoBackupDataTotal this = length (backup this)"

definition infoBackupData :: "InfoBackup \<Rightarrow> nat \<Rightarrow> InfoBackupData result" where
  "infoBackupData this backupDataIdx =
     (if backupDataIdx < length (backup this) then Inr (backup this ! backupDataIdx) else Inl AssertError)"

definition infoBackupDataByLabel :: "InfoBackup \<Rightarrow> string \<Rightarrow> InfoBackupData option" where
  "infoBackupDataByLabel this label = find (\<lambda>b. lstComparatorStr (backupLabel b) label = 0) (backup this)"

definition infoBackupPgSet :: "InfoBackup \<Rightarrow> nat \<Rightarrow> nat \<Rightarrow> nat \<Rightarrow> InfoBackup result" where
  "infoBackupPgSet this pgVersion pgSystemId pgCatalogVersion =
     mapE (\<lambda>pg. this\<lparr>infoPg := pg\<rparr>) (infoPgSet (infoPg this) pgVersion pgSystemId pgCatalogVersion)"

definition infoBackupNew :: "nat \<Rightarrow> nat \<Rightarrow> nat \<Rightarrow> InfoBackup result" where
  "infoBackupNew pgVersion pgSystemId pgCatalogVersion =
     bindE (ASSERT (pgVersion > 0 \<and> pgSystemId > 0 \<and> pgCatalogVersion > 0)) (\<lambda>_.
       infoBackupPgSet \<lparr>infoPg = infoPgNew infoPgBackup, backup = []\<rparr> pgVersion pgSystemId pgCatalogVersion)"

definition strLstAddIfMissing :: "string list \<Rightarrow> string \<Rightarrow> string list" where
  "strLstAddIfMissing this s = (if strLstExists this s then this else this @ [s])"

text \<open>The loop over the manifest's files: size, repository size, their deltas and the references.\<close>

definition repoSizeOf :: "ManifestFile \<Rightarrow> u64" where
  "repoSizeOf f = (if sizeRepo f > 0 then sizeRepo f else size_mf f)"

fun backupSizes :: "ManifestFile list \<Rightarrow> u64 \<times> u64 \<times> u64 \<times> u64 \<times> string list \<Rightarrow> u64 \<times> u64 \<times> u64 \<times> u64 \<times> string list" where
  "backupSizes [] acc = acc"
| "backupSizes (f # fs) (backupSize, backupSizeDelta, backupRepoSize, backupRepoSizeDelta, referenceList) =
     backupSizes fs
       (backupSize + size_mf f,
        (if reference f = None then backupSizeDelta + size_mf f else backupSizeDelta),
        backupRepoSize + repoSizeOf f,
        (if reference f = None then backupRepoSizeDelta + repoSizeOf f else backupRepoSizeDelta),
        (case reference f of None \<Rightarrow> referenceList | Some r \<Rightarrow> strLstAddIfMissing referenceList r))"

definition infoBackupDataOf :: "Manifest \<Rightarrow> InfoBackupData" where
  "infoBackupDataOf manifest =
     (let manData = manifestData manifest
      in case backupSizes (manifestFileList manifest) (0, 0, 0, 0, []) of
           (backupSize, backupSizeDelta, backupRepoSize, backupRepoSizeDelta, referenceList) \<Rightarrow>
             \<lparr>backupLabel = backupLabel_md manData,
              backrestFormat = REPOSITORY_FORMAT,
              backrestVersion = backrestVersion_md manData,
              backupArchiveStart = archiveStart manData,
              backupArchiveStop = archiveStop manData,
              backupInfoRepoSize = backupRepoSize,
              backupInfoRepoSizeDelta = backupRepoSizeDelta,
              backupInfoSize = backupSize,
              backupInfoSizeDelta = backupSizeDelta,
              backupPgId = pgId_md manData,
              backupPrior = (if backupType_md manData \<noteq> backupTypeFull then backupLabelPrior manData else None),
              backupReference =
                (if backupType_md manData \<noteq> backupTypeFull then Some (strLstSort referenceList sortOrderAsc) else None),
              backupTimestampStart = timestampStart_md manData,
              backupTimestampStop = timestampStop_md manData,
              backupType = backupType_md manData,
              optionArchiveCheck = backupOptionArchiveCheck manData,
              optionArchiveCopy = backupOptionArchiveCopy manData,
              optionBackupStandby = (case backupOptionStandby manData of None \<Rightarrow> False | Some b \<Rightarrow> b),
              optionChecksumPage = (case backupOptionChecksumPage manData of None \<Rightarrow> False | Some b \<Rightarrow> b),
              optionCompress = backupOptionCompress manData,
              optionHardlink = backupOptionHardLink manData,
              optionOnline = backupOptionOnline manData\<rparr>)"

text \<open>The label is the first field of the record, so the string comparator compares records by label.\<close>

definition labelComparator :: "InfoBackupData comparator" where
  "labelComparator item1 item2 = lstComparatorStr (backupLabel item1) (backupLabel item2)"

definition infoBackupDataAdd :: "InfoBackup \<Rightarrow> Manifest \<Rightarrow> InfoBackup" where
  "infoBackupDataAdd this manifest =
     this\<lparr>backup := msort labelComparator (backup this @ [infoBackupDataOf manifest])\<rparr>"

text \<open>The loop advances past the item that takes the place of a removed one.\<close>

function infoBackupDataDeleteLoop :: "InfoBackupData list \<Rightarrow> string \<Rightarrow> nat \<Rightarrow> InfoBackupData list" where
  "infoBackupDataDeleteLoop bs label idx =
     (if idx < length bs
      then infoBackupDataDeleteLoop
             (if strcmp (backupLabel (bs ! idx)) label = 0 then take idx bs @ drop (idx + 1) bs else bs) label (idx + 1)
      else bs)"
  by pat_completeness auto
termination
  by (relation "measure (\<lambda>(bs, label, idx). length bs - idx)") auto

declare infoBackupDataDeleteLoop.simps [simp del]

definition infoBackupDataDelete :: "InfoBackup \<Rightarrow> string \<Rightarrow> InfoBackup" where
  "infoBackupDataDelete this backupDeleteLabel =
     this\<lparr>backup := infoBackupDataDeleteLoop (backup this) backupDeleteLabel 0\<rparr>"

definition infoBackupDataLabelList :: "InfoBackup \<Rightarrow> string option \<Rightarrow> string list result" where
  "infoBackupDataLabelList this expression = (case expression of
     None \<Rightarrow> Inr (map backupLabel (backup this))
   | Some e \<Rightarrow> mapE (\<lambda>r. filter (regExpMatch r) (map backupLabel (backup this))) (regExpNew e))"

fun dependentLoop :: "InfoBackupData list \<Rightarrow> string list \<Rightarrow> string list" where
  "dependentLoop [] result = result"
| "dependentLoop (b # bs) result =
     dependentLoop bs
       (case backupPrior b of
          None \<Rightarrow> result
        | Some prior \<Rightarrow> if strLstExists result prior then result @ [backupLabel b] else result)"

definition infoBackupDataDependentList :: "InfoBackup \<Rightarrow> string \<Rightarrow> string list" where
  "infoBackupDataDependentList this label = dependentLoop (backup this) [label]"

section \<open>The invariant\<close>

abbreviation labels :: "InfoBackupData list \<Rightarrow> string list" where
  "labels bs \<equiv> map backupLabel bs"

definition label_sorted :: "InfoBackupData list \<Rightarrow> bool" where
  "label_sorted bs \<longleftrightarrow> sorted_wrt (\<lambda>x y. strcmp x y < 0) (labels bs)"

text \<open>Every prior backup is in the list, and before the backup that depends on it.\<close>

definition dep_closed :: "InfoBackupData list \<Rightarrow> bool" where
  "dep_closed bs \<longleftrightarrow> (\<forall>b \<in> set bs. \<forall>p. backupPrior b = Some p \<longrightarrow>
     p \<in> set (labels bs) \<and> strcmp p (backupLabel b) < 0)"

definition backups_wf :: "InfoBackupData list \<Rightarrow> bool" where
  "backups_wf bs \<longleftrightarrow> label_sorted bs \<and> dep_closed bs"

text \<open>The specification: the backups that depend on a backup, over any number of steps.\<close>

inductive depends :: "InfoBackupData list \<Rightarrow> string \<Rightarrow> string \<Rightarrow> bool" for bs where
  depends_refl: "depends bs l l"
| depends_step: "depends bs l p \<Longrightarrow> b \<in> set bs \<Longrightarrow> backupPrior b = Some p \<Longrightarrow> depends bs l (backupLabel b)"

section \<open>The list of a label-sorted history\<close>

lemma strcmp_less_irrefl [simp]: "\<not> strcmp x x < 0"
  by simp

lemma label_sorted_distinct: "label_sorted bs \<Longrightarrow> distinct (labels bs)"
proof -
  have "sorted_wrt (\<lambda>x y. strcmp x y < 0) xs \<Longrightarrow> distinct xs" for xs by (induction xs) auto
  then show "label_sorted bs \<Longrightarrow> distinct (labels bs)" by (simp add: label_sorted_def)
qed

lemma label_inj: "label_sorted bs \<Longrightarrow> b \<in> set bs \<Longrightarrow> c \<in> set bs \<Longrightarrow> backupLabel b = backupLabel c \<Longrightarrow> b = c"
  using label_sorted_distinct [of bs] by (auto simp: distinct_map inj_on_def)

lemma label_sorted_filter: "label_sorted bs \<Longrightarrow> label_sorted (filter P bs)"
  by (simp add: label_sorted_def sorted_wrt_map sorted_wrt_filter)

lemma infoBackupDataByLabel_Some:
  assumes "label_sorted (backup this)"
  shows "infoBackupDataByLabel this l = Some b \<longleftrightarrow> b \<in> set (backup this) \<and> backupLabel b = l"
  using assms label_inj [OF assms]
  by (auto simp: infoBackupDataByLabel_def lstComparatorStr_def find_Some_iff in_set_conv_nth)
     (metis (no_types, lifting) assms label_sorted_distinct length_map nth_eq_iff_index_eq nth_map order_less_trans less_irrefl)

lemma infoBackupDataByLabel_None:
  "infoBackupDataByLabel this l = None \<longleftrightarrow> l \<notin> set (labels (backup this))"
  by (auto simp: infoBackupDataByLabel_def lstComparatorStr_def find_None_iff)

lemma deleteLoop_filter:
  "distinct (labels bs) \<Longrightarrow>
   infoBackupDataDeleteLoop bs l idx = take idx bs @ filter (\<lambda>b. backupLabel b \<noteq> l) (drop idx bs)"
proof (induction bs l idx rule: infoBackupDataDeleteLoop.induct)
  case (1 bs l idx)
  show ?case
  proof (cases "idx < length bs")
    case True
    then have d: "drop idx bs = bs ! idx # drop (Suc idx) bs" by (simp add: Cons_nth_drop_Suc)
    show ?thesis
    proof (cases "backupLabel (bs ! idx) = l")
      case True
      have "distinct (labels (take idx bs @ bs ! idx # drop (Suc idx) bs))"
        using "1.prems" d by (metis append_take_drop_id)
      then have n: "\<forall>b \<in> set (drop (Suc idx) bs). backupLabel b \<noteq> l" and dd: "distinct (labels (take idx bs @ drop (Suc idx) bs))"
        using True by (auto simp: image_iff)
      have "filter (\<lambda>b. backupLabel b \<noteq> l) (drop (Suc idx) bs) = drop (Suc idx) bs"
        "filter (\<lambda>b. backupLabel b \<noteq> l) (drop (Suc (Suc idx)) bs) = drop (Suc (Suc idx)) bs"
        using n by (auto simp: filter_id_conv dest: in_set_dropD [of _ 1, simplified drop_drop, simplified])
           (metis in_set_dropD drop_drop plus_1_eq_Suc)
      moreover have "take (Suc 0) (drop (Suc idx) bs) @ drop (Suc (Suc idx)) bs = drop (Suc idx) bs"
        using append_take_drop_id [of "Suc 0" "drop (Suc idx) bs"] by simp
      ultimately show ?thesis
        using 1 True \<open>idx < length bs\<close> dd d
        by (simp add: infoBackupDataDeleteLoop.simps [of bs l idx] take_Suc_conv_app_nth min_def)
    next
      case False
      then show ?thesis using 1 \<open>idx < length bs\<close> d
        by (simp add: infoBackupDataDeleteLoop.simps [of bs l idx] take_Suc_conv_app_nth)
    qed
  qed (simp add: infoBackupDataDeleteLoop.simps [of bs l idx])
qed

lemma infoBackupDataDelete_backup:
  assumes "label_sorted (backup this)"
  shows "backup (infoBackupDataDelete this l) = filter (\<lambda>b. backupLabel b \<noteq> l) (backup this)"
  using deleteLoop_filter [OF label_sorted_distinct [OF assms], of l 0] by (simp add: infoBackupDataDelete_def)

lemma infoPg_delete [simp]: "infoPg (infoBackupDataDelete this l) = infoPg this"
  by (simp add: infoBackupDataDelete_def)

section \<open>Dependents\<close>

lemma dependentLoop_append:
  "dependentLoop (bs @ cs) result = dependentLoop cs (dependentLoop bs result)"
  by (induction bs result rule: dependentLoop.induct) auto

lemma dependentLoop_mono: "set result \<subseteq> set (dependentLoop bs result)"
  by (induction bs result rule: dependentLoop.induct) (auto split: option.splits if_splits)

lemma dependentLoop_bound: "set (dependentLoop bs result) \<subseteq> set result \<union> set (labels bs)"
  by (induction bs result rule: dependentLoop.induct) (auto split: option.splits if_splits)

lemma dependentLoop_sound:
  assumes "\<forall>x \<in> set result. depends all l x" "set bs \<subseteq> set all"
  shows "\<forall>x \<in> set (dependentLoop bs result). depends all l x"
  using assms
proof (induction bs arbitrary: result)
  case (Cons b bs)
  show ?case
  proof (cases "\<exists>p. backupPrior b = Some p \<and> p \<in> set result")
    case True
    then obtain p where p: "backupPrior b = Some p" "p \<in> set result" by blast
    have "depends all l (backupLabel b)"
      by (rule depends_step [OF _ _ p(1)]) (use Cons.prems p(2) in simp_all)
    then have "\<forall>x \<in> set (dependentLoop bs (result @ [backupLabel b])). depends all l x"
      using Cons.prems by (intro Cons.IH) auto
    then show ?thesis using p by simp
  next
    case False
    then show ?thesis using Cons.IH [of result] Cons.prems by (auto split: option.splits)
  qed
qed simp

lemma depends_less:
  assumes "dep_closed bs" "depends bs l x"
  shows "x = l \<or> strcmp l x < 0"
  using assms(2)
proof induction
  case (depends_step l p b)
  then have "strcmp p (backupLabel b) < 0" using assms(1) by (auto simp: dep_closed_def)
  with depends_step.IH show ?case using strcmp_less_trans by (auto simp: less_imp_le)
qed simp

lemma dependentLoop_complete:
  assumes "backups_wf bs" "depends bs l x"
  shows "x \<in> set (dependentLoop bs [l])"
  using assms(2)
proof induction
  case (depends_refl l)
  then show ?case using dependentLoop_mono [of "[l]" bs] by simp
next
  case (depends_step l p b)
  obtain bs1 bs2 where bs: "bs = bs1 @ b # bs2" using depends_step(2) by (auto simp: in_set_conv_decomp)
  have lt: "strcmp p (backupLabel b) < 0" using assms(1) depends_step(2,3) by (auto simp: backups_wf_def dep_closed_def)
  have "sorted_wrt (\<lambda>x y. strcmp x y < 0) (labels bs1 @ backupLabel b # labels bs2)"
    using assms(1) by (simp add: backups_wf_def label_sorted_def bs)
  then have "p \<notin> set (labels (b # bs2))"
    using lt strcmp_less_trans [of p "backupLabel b"] strcmp_flip [of p "backupLabel b"]
    by (auto simp: sorted_wrt_append)
  moreover have "p \<in> set (dependentLoop (b # bs2) (dependentLoop bs1 [l]))"
    using depends_step.IH by (simp only: bs dependentLoop_append)
  ultimately have "p \<in> set (dependentLoop bs1 [l])"
    using dependentLoop_bound [of "b # bs2" "dependentLoop bs1 [l]"] by blast
  then have "backupLabel b \<in> set (dependentLoop (b # bs2) (dependentLoop bs1 [l]))"
    using depends_step(3) dependentLoop_mono [of "dependentLoop bs1 [l] @ [backupLabel b]" bs2] by auto
  then show ?case by (simp only: bs dependentLoop_append)
qed

lemma dependentList_set:
  assumes "backups_wf (backup this)"
  shows "set (infoBackupDataDependentList this l) = {x. depends (backup this) l x}"
  using dependentLoop_complete [OF assms] dependentLoop_sound [of "[l]" "backup this" l "backup this"]
  by (auto simp: infoBackupDataDependentList_def intro: depends_refl)

lemma dependentLoop_distinct:
  assumes "backups_wf bs" "bs = bs1 @ bs2" "distinct result" "\<forall>x \<in> set result. depends bs l x"
    "\<forall>x \<in> set result. x = l \<or> x \<in> set (labels bs1)"
  shows "distinct (dependentLoop bs2 result)"
  using assms
proof (induction bs2 arbitrary: bs1 result)
  case (Cons b bs2)
  show ?case
  proof (cases "\<exists>p. backupPrior b = Some p \<and> p \<in> set result")
    case True
    then obtain p where p: "backupPrior b = Some p" "p \<in> set result" by blast
    then have d: "depends bs l p" and lt: "strcmp p (backupLabel b) < 0"
      using Cons.prems(1,2,4) by (auto simp: backups_wf_def dep_closed_def)
    have "backupLabel b \<noteq> l"
      using depends_less [OF _ d] lt Cons.prems(1) strcmp_flip [of p l] by (auto simp: backups_wf_def)
    moreover have "backupLabel b \<notin> set (labels bs1)"
      using label_sorted_distinct [of bs] Cons.prems(1,2) by (auto simp: backups_wf_def)
    ultimately have n: "backupLabel b \<notin> set result" using Cons.prems(5) by auto
    have "depends bs l (backupLabel b)" using depends_step [OF d _ p(1)] Cons.prems(2) by simp
    then show ?thesis using Cons.IH [of "bs1 @ [b]" "result @ [backupLabel b]"] Cons.prems p n by auto
  next
    case False
    then show ?thesis using Cons.IH [of "bs1 @ [b]" result] Cons.prems by (auto split: option.splits)
  qed
qed simp

lemma dependentList_distinct: "backups_wf (backup this) \<Longrightarrow> distinct (infoBackupDataDependentList this l)"
  using dependentLoop_distinct [of "backup this" "[]" "backup this" "[l]" l]
  by (simp add: infoBackupDataDependentList_def depends_refl)

text \<open>Deleting a backup with everything that depends on it keeps the invariant.\<close>

lemma backups_wf_remove:
  assumes "backups_wf bs" "\<forall>b \<in> set bs. \<forall>p. backupPrior b = Some p \<longrightarrow> P p \<longrightarrow> P (backupLabel b)"
  shows "backups_wf (filter (\<lambda>b. \<not> P (backupLabel b)) bs)"
  using assms by (fastforce simp: backups_wf_def label_sorted_filter dep_closed_def)

lemma depends_closed: "b \<in> set bs \<Longrightarrow> backupPrior b = Some p \<Longrightarrow> depends bs l p \<Longrightarrow> depends bs l (backupLabel b)"
  by (rule depends_step)

section \<open>Adding a backup\<close>

interpretation label_order: comparator_order labelComparator
proof unfold_locales
  show "sgn (labelComparator y x) = - sgn (labelComparator x y)" for x y
    unfolding labelComparator_def by (rule str_order.flip)
  show "labelComparator x y \<le> 0 \<Longrightarrow> labelComparator y z \<le> 0 \<Longrightarrow> labelComparator x z \<le> 0" for x y z
    unfolding labelComparator_def by (rule str_order.not_greater_trans)
qed

lemma sorted_le_imp_less:
  "sorted_wrt (\<lambda>x y. strcmp x y \<le> 0) xs \<Longrightarrow> distinct xs \<Longrightarrow> sorted_wrt (\<lambda>x y. strcmp x y < 0) xs"
  by (induction xs) (auto simp: order_less_le)

lemma infoBackupDataAdd_sorted:
  assumes "distinct (labels (backup this @ [infoBackupDataOf manifest]))"
  shows "label_sorted (backup (infoBackupDataAdd this manifest))"
proof -
  let ?bs = "msort labelComparator (backup this @ [infoBackupDataOf manifest])"
  have "sorted_wrt (\<lambda>x y. strcmp x y \<le> 0) (labels ?bs)"
    using sorted_msort [OF label_order.comparator_order_axioms, of "backup this @ [infoBackupDataOf manifest]"]
    by (simp add: sorted_wrt_map labelComparator_def lstComparatorStr_def)
  moreover have "distinct (labels ?bs)"
    using assms mset_msort [of labelComparator "backup this @ [infoBackupDataOf manifest]"]
    by (metis mset_eq_imp_distinct_iff mset_map)
  ultimately show ?thesis by (simp add: infoBackupDataAdd_def label_sorted_def sorted_le_imp_less)
qed

lemma infoBackupDataAdd_set:
  "set (backup (infoBackupDataAdd this manifest)) = insert (infoBackupDataOf manifest) (set (backup this))"
proof -
  have "set (msort c xs) = set xs" for c and xs :: "InfoBackupData list" using mset_msort mset_eq_setD by metis
  then show ?thesis by (simp add: infoBackupDataAdd_def)
qed

lemma backupSizes_sum:
  "backupSizes fs (a, b, c, d, rs) = (s, sd, r, rd, refs) \<Longrightarrow>
     s = a + (\<Sum>f\<leftarrow>fs. size_mf f) \<and> sd = b + (\<Sum>f\<leftarrow>filter (\<lambda>f. reference f = None) fs. size_mf f) \<and>
     r = c + (\<Sum>f\<leftarrow>fs. repoSizeOf f) \<and> rd = d + (\<Sum>f\<leftarrow>filter (\<lambda>f. reference f = None) fs. repoSizeOf f) \<and>
     set refs = set rs \<union> {x. \<exists>f \<in> set fs. reference f = Some x}"
proof (induction fs arbitrary: a b c d rs)
  case (Cons f fs)
  from Cons.IH [OF Cons.prems [unfolded backupSizes.simps]] show ?case
    by (auto simp: algebra_simps strLstAddIfMissing_def split: option.splits)
qed simp

section \<open>A sample\<close>

definition sampleBackup :: "string \<Rightarrow> BackupType \<Rightarrow> string option \<Rightarrow> string \<Rightarrow> string \<Rightarrow> InfoBackupData" where
  "sampleBackup label type prior start stop =
     \<lparr>backupLabel = label, backrestFormat = REPOSITORY_FORMAT, backrestVersion = ''2.36'',
      backupArchiveStart = Some start, backupArchiveStop = Some stop, backupInfoRepoSize = 0,
      backupInfoRepoSizeDelta = 0, backupInfoSize = 0, backupInfoSizeDelta = 0, backupPgId = 1,
      backupPrior = prior, backupReference = None, backupTimestampStart = 1, backupTimestampStop = 2,
      backupType = type, optionArchiveCheck = True, optionArchiveCopy = False, optionBackupStandby = False,
      optionChecksumPage = True, optionCompress = True, optionHardlink = False, optionOnline = True\<rparr>"

definition sampleInfo :: InfoBackup where
  "sampleInfo = \<lparr>infoPg = infoPgNew infoPgBackup,
     backup = [sampleBackup ''20191002-070640F'' backupTypeFull None ''000000010000000000000002'' ''000000010000000000000003'',
       sampleBackup ''20191002-070640F_20191003-105320D'' backupTypeDiff (Some ''20191002-070640F'')
         ''000000010000000000000005'' ''000000010000000000000006'',
       sampleBackup ''20191004-144000F'' backupTypeFull None ''000000010000000000000008'' ''000000010000000000000009'']\<rparr>"

lemma sampleInfo_wf: "backups_wf (backup sampleInfo)"
  by (simp add: backups_wf_def label_sorted_def dep_closed_def sampleInfo_def sampleBackup_def)

section \<open>Properties\<close>

text \<open>
  C28. Dependents. In a list of current backups that is ordered by label and holds the prior of every
  backup, the single pass of infoBackupDataDependentList returns each backup that depends on the
  given one, directly or through others, exactly once, and nothing else.
\<close>

theorem dependents_exact:
  assumes "backups_wf (backup this)"
  shows "set (infoBackupDataDependentList this l) = {x. depends (backup this) l x} \<and>
    distinct (infoBackupDataDependentList this l)"
  using dependentList_set [OF assms] dependentList_distinct [OF assms] by blast

theorem dependents_exact_witness:
  "infoBackupDataDependentList sampleInfo ''20191002-070640F'' = [''20191002-070640F'', ''20191002-070640F_20191003-105320D''] \<and>
   depends (backup sampleInfo) ''20191002-070640F'' ''20191002-070640F_20191003-105320D''"
proof -
  have "infoBackupDataDependentList sampleInfo ''20191002-070640F'' = [''20191002-070640F'', ''20191002-070640F_20191003-105320D'']"
    by (simp add: infoBackupDataDependentList_def sampleInfo_def sampleBackup_def)
  then show ?thesis using dependents_exact [OF sampleInfo_wf, of "''20191002-070640F''"] by auto
qed

text \<open>
  C29. Adding a backup. A manifest whose label is new and sorts after its prior, which is in the
  list unless the backup is full, is added without breaking the invariant; the recorded sizes
  are the sums over its files, the deltas the sums over the files that reference no other
  backup, and the references the backups its files refer to.
\<close>

theorem infoBackupDataAdd_correct:
  fixes this :: InfoBackup and manifest :: Manifest
  defines "b \<equiv> infoBackupDataOf manifest"
  assumes "backups_wf (backup this)" "backupLabel_md (manifestData manifest) \<notin> set (labels (backup this))"
    and "backupType_md (manifestData manifest) \<noteq> backupTypeFull \<Longrightarrow>
      (\<exists>p \<in> set (labels (backup this)). backupLabelPrior (manifestData manifest) = Some p \<and>
        strcmp p (backupLabel_md (manifestData manifest)) < 0)"
  shows "backups_wf (backup (infoBackupDataAdd this manifest)) \<and>
    set (backup (infoBackupDataAdd this manifest)) = insert b (set (backup this)) \<and>
    backupInfoSize b = (\<Sum>f\<leftarrow>manifestFileList manifest. size_mf f) \<and>
    backupInfoSizeDelta b = (\<Sum>f\<leftarrow>filter (\<lambda>f. reference f = None) (manifestFileList manifest). size_mf f) \<and>
    backupInfoRepoSize b = (\<Sum>f\<leftarrow>manifestFileList manifest. repoSizeOf f) \<and>
    (backupType_md (manifestData manifest) \<noteq> backupTypeFull \<longrightarrow>
      set (the (backupReference b)) = {x. \<exists>f \<in> set (manifestFileList manifest). reference f = Some x})"
proof -
  obtain s sd r rd refs where bs: "backupSizes (manifestFileList manifest) (0, 0, 0, 0, []) = (s, sd, r, rd, refs)"
    by (metis prod_cases5)
  note sums = backupSizes_sum [OF bs]
  have b: "backupLabel b = backupLabel_md (manifestData manifest)"
    "backupPrior b = (if backupType_md (manifestData manifest) \<noteq> backupTypeFull
       then backupLabelPrior (manifestData manifest) else None)"
    by (simp_all add: b_def infoBackupDataOf_def bs Let_def)
  have "label_sorted (backup (infoBackupDataAdd this manifest))"
    using assms(2,3) b(1) label_sorted_distinct [of "backup this"]
    by (intro infoBackupDataAdd_sorted) (auto simp: backups_wf_def b_def)
  moreover have "dep_closed (backup (infoBackupDataAdd this manifest))"
    using assms(2,4) b unfolding dep_closed_def infoBackupDataAdd_set b_def [symmetric]
    by (auto simp: backups_wf_def dep_closed_def infoBackupDataAdd_set)
  ultimately have "backups_wf (backup (infoBackupDataAdd this manifest))" by (simp add: backups_wf_def)
  moreover have "backupInfoSize b = s" "backupInfoSizeDelta b = sd" "backupInfoRepoSize b = r"
    "backupType_md (manifestData manifest) \<noteq> backupTypeFull \<Longrightarrow> backupReference b = Some (strLstSort refs sortOrderAsc)"
    by (simp_all add: b_def infoBackupDataOf_def bs Let_def)
  ultimately show ?thesis using sums infoBackupDataAdd_set [of this manifest] by (simp add: b_def)
qed

definition sampleManifest :: Manifest where
  "sampleManifest = \<lparr>manifestData =
     \<lparr>backrestVersion_md = ''2.36'', backupLabel_md = ''20191004-144000F_20191005-000000I'',
      backupLabelPrior = Some ''20191004-144000F'', timestampStart_md = 5, timestampStop_md = 6,
      backupType_md = backupTypeIncr, archiveStart = None, archiveStop = None, pgId_md = 1, pgVersion_md = 90400,
      pgSystemId_md = 1, backupOptionArchiveCheck = True, backupOptionArchiveCopy = False, backupOptionStandby = None,
      backupOptionChecksumPage = None, backupOptionCompress = True, backupOptionHardLink = False,
      backupOptionOnline = True\<rparr>,
     manifestFileList =
       [\<lparr>name_mf = ''pg_data/PG_VERSION'', reference = Some ''20191004-144000F'', size_mf = 4, sizeRepo = 0\<rparr>,
        \<lparr>name_mf = ''pg_data/base/1/12000'', reference = None, size_mf = 8192, sizeRepo = 100\<rparr>]\<rparr>"

theorem infoBackupDataAdd_correct_witness:
  "backups_wf (backup (infoBackupDataAdd sampleInfo sampleManifest)) \<and>
   backupInfoSize (infoBackupDataOf sampleManifest) = 8196 \<and> backupInfoSizeDelta (infoBackupDataOf sampleManifest) = 8192 \<and>
   set (the (backupReference (infoBackupDataOf sampleManifest))) = {''20191004-144000F''}"
proof -
  have "backupLabel_md (manifestData sampleManifest) \<notin> set (labels (backup sampleInfo))"
    "\<exists>p \<in> set (labels (backup sampleInfo)). backupLabelPrior (manifestData sampleManifest) = Some p \<and>
        strcmp p (backupLabel_md (manifestData sampleManifest)) < 0"
    by (simp_all add: sampleManifest_def sampleInfo_def sampleBackup_def)
  from infoBackupDataAdd_correct [OF sampleInfo_wf this] show ?thesis
    by (simp add: sampleManifest_def)
qed

end
