(* ===== verification/Program.thy ===== *)
theory Program
  imports Prelude
begin

text \<open>
  Programs with state and errors. A command that changes a repository and may throw is a
  function of the state that returns the result and the state reached, also when it throws: what
  was removed before the error stays removed. The rules of \<open>keeps\<close> show that an invariant of the
  state holds after a program, however it ends, and those of \<open>yields\<close> describe the runs that
  succeed.
\<close>

type_synonym ('s, 'a) prog = "'s \<Rightarrow> 'a result \<times> 's"

definition retP :: "'a \<Rightarrow> ('s, 'a) prog" where
  "retP x = (\<lambda>s. (Inr x, s))"

definition throwP :: "ErrorType \<Rightarrow> ('s, 'a) prog" where
  "throwP e = (\<lambda>s. (Inl e, s))"

definition liftP :: "'a result \<Rightarrow> ('s, 'a) prog" where
  "liftP r = (\<lambda>s. (r, s))"

definition getP :: "('s \<Rightarrow> 'a) \<Rightarrow> ('s, 'a) prog" where
  "getP f = (\<lambda>s. (Inr (f s), s))"

definition modifyP :: "('s \<Rightarrow> 's) \<Rightarrow> ('s, unit) prog" where
  "modifyP f = (\<lambda>s. (Inr (), f s))"

definition bindP :: "('s, 'a) prog \<Rightarrow> ('a \<Rightarrow> ('s, 'b) prog) \<Rightarrow> ('s, 'b) prog" where
  "bindP m f = (\<lambda>s. case m s of (Inl e, s') \<Rightarrow> (Inl e, s') | (Inr x, s') \<Rightarrow> f x s')"

definition whenP :: "bool \<Rightarrow> ('s, unit) prog \<Rightarrow> ('s, unit) prog" where
  "whenP b m = (if b then m else retP ())"

fun forP :: "'a list \<Rightarrow> ('a \<Rightarrow> ('s, unit) prog) \<Rightarrow> ('s, unit) prog" where
  "forP [] f = retP ()"
| "forP (x # xs) f = bindP (f x) (\<lambda>_. forP xs f)"

definition catchP :: "('s, 'a) prog \<Rightarrow> (ErrorType \<Rightarrow> ('s, 'a) prog) \<Rightarrow> ('s, 'a) prog" where
  "catchP m h = (\<lambda>s. case m s of (Inl e, s') \<Rightarrow> h e s' | (Inr x, s') \<Rightarrow> (Inr x, s'))"

text \<open>TRY with CATCH_ANY: what is no error of the program can not be caught.\<close>

definition tryP :: "('s, 'a) prog \<Rightarrow> (ErrorType \<Rightarrow> ('s, 'a) prog) \<Rightarrow> ('s, 'a) prog" where
  "tryP m h = catchP m (\<lambda>e. if e = UndefinedBehavior \<or> e = NoReturn then throwP e else h e)"

section \<open>Running programs\<close>

named_theorems run_simps "equations that run a program on a state"

lemma run_basic [run_simps]:
  "retP x s = (Inr x, s)" "throwP e s = (Inl e, s)" "liftP r s = (r, s)" "getP g s = (Inr (g s), s)"
  "modifyP h s = (Inr (), h s)" "whenP b m s = (if b then m s else (Inr (), s))"
  by (simp_all add: retP_def throwP_def liftP_def getP_def modifyP_def whenP_def)

lemma run_bind [run_simps]:
  "bindP m f s = (case m s of (Inl e, s') \<Rightarrow> (Inl e, s') | (Inr x, s') \<Rightarrow> f x s')"
  by (simp add: bindP_def)

lemma run_catch [run_simps]:
  "catchP m h s = (case m s of (Inl e, s') \<Rightarrow> h e s' | (Inr x, s') \<Rightarrow> (Inr x, s'))"
  by (simp add: catchP_def)

lemma run_try [run_simps]:
  "tryP m h s = (case m s of
     (Inl e, s') \<Rightarrow> if e = UndefinedBehavior \<or> e = NoReturn then (Inl e, s') else h e s'
   | (Inr x, s') \<Rightarrow> (Inr x, s'))"
  by (simp add: tryP_def run_catch run_basic split: sum.splits prod.splits)

lemma forP_append: "forP (xs @ ys) f = bindP (forP xs f) (\<lambda>_. forP ys f)"
  by (induction xs) (auto simp: fun_eq_iff run_simps split: prod.splits sum.splits)

section \<open>Invariants\<close>

definition keeps :: "('s \<Rightarrow> bool) \<Rightarrow> ('s, 'a) prog \<Rightarrow> bool" where
  "keeps P m \<longleftrightarrow> (\<forall>s. P s \<longrightarrow> P (snd (m s)))"

named_theorems keeps_intros "rules for invariants of programs"

lemma keepsI: "(\<And>s. P s \<Longrightarrow> P (snd (m s))) \<Longrightarrow> keeps P m"
  by (simp add: keeps_def)

lemma keepsD: "keeps P m \<Longrightarrow> P s \<Longrightarrow> P (snd (m s))"
  by (simp add: keeps_def)

lemma keeps_basic [keeps_intros]:
  "keeps P (retP x)" "keeps P (throwP e)" "keeps P (liftP r)" "keeps P (getP g)"
  by (simp_all add: keeps_def run_simps)

lemma keeps_modify [keeps_intros]: "(\<And>s. P s \<Longrightarrow> P (f s)) \<Longrightarrow> keeps P (modifyP f)"
  by (simp add: keeps_def run_simps)

lemma keeps_bind [keeps_intros]: "keeps P m \<Longrightarrow> (\<And>x. keeps P (f x)) \<Longrightarrow> keeps P (bindP m f)"
  by (fastforce simp: keeps_def run_simps split: prod.splits sum.splits)

lemma keeps_when [keeps_intros]: "(b \<Longrightarrow> keeps P m) \<Longrightarrow> keeps P (whenP b m)"
  by (simp add: keeps_def run_simps)

lemma keeps_if [keeps_intros]: "(b \<Longrightarrow> keeps P m) \<Longrightarrow> (\<not> b \<Longrightarrow> keeps P n) \<Longrightarrow> keeps P (if b then m else n)"
  by simp

lemma keeps_for: "(\<And>x. x \<in> set xs \<Longrightarrow> keeps P (f x)) \<Longrightarrow> keeps P (forP xs f)"
  by (induction xs) (auto intro!: keeps_intros)

lemma keeps_catch [keeps_intros]: "keeps P m \<Longrightarrow> (\<And>e. keeps P (h e)) \<Longrightarrow> keeps P (catchP m h)"
  by (fastforce simp: keeps_def run_simps split: prod.splits sum.splits)

text \<open>A result that is only read is known inside the rest of the program.\<close>

lemma keeps_liftP_bind: "(\<And>x. r = Inr x \<Longrightarrow> keeps P (f x)) \<Longrightarrow> keeps P (bindP (liftP r) f)"
  by (cases r) (auto simp: keeps_def run_simps)

lemma keeps_getP_bind: "(\<And>s. P s \<Longrightarrow> P (snd (f (g s) s))) \<Longrightarrow> keeps P (bindP (getP g) f)"
  by (simp add: keeps_def run_simps)

section \<open>Invariants of runs that succeed\<close>

definition okeeps :: "('s \<Rightarrow> bool) \<Rightarrow> ('s, 'a) prog \<Rightarrow> bool" where
  "okeeps P m \<longleftrightarrow> (\<forall>s x s'. P s \<longrightarrow> m s = (Inr x, s') \<longrightarrow> P s')"

named_theorems okeeps_intros "rules for invariants of programs that succeed"

lemma okeepsD: "okeeps P m \<Longrightarrow> P s \<Longrightarrow> m s = (Inr x, s') \<Longrightarrow> P s'"
  unfolding okeeps_def by blast

lemma okeeps_keeps: "keeps P m \<Longrightarrow> okeeps P m"
  unfolding keeps_def okeeps_def by (metis snd_conv)

lemma okeeps_basic [okeeps_intros]:
  "okeeps P (retP x)" "okeeps P (throwP e)" "okeeps P (liftP r)" "okeeps P (getP g)"
  by (rule okeeps_keeps, rule keeps_basic)+

lemma run_bind_Inr: "bindP m f s = (Inr y, s'') \<longleftrightarrow> (\<exists>x s'. m s = (Inr x, s') \<and> f x s' = (Inr y, s''))"
  by (simp add: run_simps split: prod.splits sum.splits)

lemma okeeps_bind [okeeps_intros]: "okeeps P m \<Longrightarrow> (\<And>x. okeeps P (f x)) \<Longrightarrow> okeeps P (bindP m f)"
  unfolding okeeps_def run_bind_Inr by metis

lemma okeeps_when [okeeps_intros]: "(b \<Longrightarrow> okeeps P m) \<Longrightarrow> okeeps P (whenP b m)"
  by (simp add: okeeps_def run_simps)

lemma okeeps_if [okeeps_intros]: "(b \<Longrightarrow> okeeps P m) \<Longrightarrow> (\<not> b \<Longrightarrow> okeeps P n) \<Longrightarrow> okeeps P (if b then m else n)"
  by simp

lemma okeeps_for: "(\<And>x. x \<in> set xs \<Longrightarrow> okeeps P (f x)) \<Longrightarrow> okeeps P (forP xs f)"
  by (induction xs) (auto intro!: okeeps_intros)

section \<open>Runs with a known result\<close>

text \<open>From every state with \<open>P\<close> the program returns \<open>x\<close> and ends in a state with \<open>Q\<close>.\<close>

definition yields :: "('s \<Rightarrow> bool) \<Rightarrow> ('s, 'a) prog \<Rightarrow> 'a \<Rightarrow> ('s \<Rightarrow> bool) \<Rightarrow> bool" where
  "yields P m x Q \<longleftrightarrow> (\<forall>s. P s \<longrightarrow> (\<exists>s'. m s = (Inr x, s') \<and> Q s'))"

lemma yieldsI: "(\<And>s. P s \<Longrightarrow> \<exists>s'. m s = (Inr x, s') \<and> Q s') \<Longrightarrow> yields P m x Q"
  by (simp add: yields_def)

lemma yieldsD: "yields P m x Q \<Longrightarrow> P s \<Longrightarrow> \<exists>s'. m s = (Inr x, s') \<and> Q s'"
  by (simp add: yields_def)

lemma yields_bind: "yields P m x Q \<Longrightarrow> yields Q (f x) y R \<Longrightarrow> yields P (bindP m f) y R"
  unfolding yields_def run_bind_Inr by metis

lemma yields_ret: "yields P (retP x) x P"
  by (simp add: yields_def run_simps)

lemma yields_lift: "r = Inr x \<Longrightarrow> yields P (liftP r) x P"
  by (simp add: yields_def run_simps)

lemma yields_get: "(\<And>s. P s \<Longrightarrow> g s = x) \<Longrightarrow> yields P (getP g) x P"
  by (simp add: yields_def run_simps)

lemma yields_modify: "(\<And>s. P s \<Longrightarrow> Q (f s)) \<Longrightarrow> yields P (modifyP f) () Q"
  by (simp add: yields_def run_simps)

lemma yields_when: "(b \<Longrightarrow> yields P m () Q) \<Longrightarrow> (\<not> b \<Longrightarrow> P = Q) \<Longrightarrow> yields P (whenP b m) () Q"
  by (simp add: yields_def run_simps)

lemma yields_for_upt:
  "(\<And>i. a \<le> i \<Longrightarrow> i < b \<Longrightarrow> yields (I i) (f i) () (I (Suc i))) \<Longrightarrow> a \<le> b \<Longrightarrow> yields (I a) (forP [a..<b] f) () (I b)"
proof (induction "b - a" arbitrary: a)
  case 0
  then show ?case by (simp add: yields_ret)
next
  case (Suc m)
  then have "[a..<b] = a # [Suc a..<b]" by (simp add: upt_conv_Cons)
  moreover have "yields (I (Suc a)) (forP [Suc a..<b] f) () (I b)" by (rule Suc.hyps) (use Suc in auto)
  moreover have "yields (I a) (f a) () (I (Suc a))" using Suc by simp
  ultimately show ?case by (simp add: yields_bind)
qed

lemma yields_pre: "yields P m x Q \<Longrightarrow> (\<And>s. P' s \<Longrightarrow> P s) \<Longrightarrow> yields P' m x Q"
  by (simp add: yields_def)

lemma yields_post: "yields P m x Q \<Longrightarrow> (\<And>s. Q s \<Longrightarrow> Q' s) \<Longrightarrow> yields P m x Q'"
  unfolding yields_def by blast

lemma run_get_bind [run_simps]: "bindP (getP g) f s = f (g s) s" "bindP (retP x) f s = f x s"
  by (simp_all add: run_simps)

section \<open>Loops that succeed\<close>

lemma forP_total:
  assumes "\<And>x s. x \<in> set xs \<Longrightarrow> f x s = (Inr (), g x s)"
  shows "forP xs f s = (Inr (), fold g xs s)"
  using assms by (induction xs arbitrary: s) (simp_all add: run_simps)

end
