(* ===== verification/Repository.thy ===== *)
theory Repository
  imports Program InfoBackup
begin

text \<open>
  The repository as the commands see it through src/storage/storage.c: the entries it holds, as
  lists of path components, and the info files and manifests they contain. The storage driver
  (posix, S3, Azure, GCS, remote) is a part of the state: which removals and writes it refuses and
  with which error. The removal of a file that is missing does nothing, the removal of a path removes
  everything below it, or a part of that when it fails.
\<close>

type_synonym path = "string list"

record Repo =
  entries :: "path list"
  backupInfoFile :: "InfoBackup result"
  archiveInfoFile :: "InfoPg result"
  manifestFile :: "string \<Rightarrow> Manifest result"
  removeError :: "path \<Rightarrow> ErrorType option"
  pathRemoveError :: "path \<Rightarrow> (ErrorType \<times> (path \<Rightarrow> bool)) option"
  putError :: "path \<Rightarrow> ErrorType option"
  symLinkFeature :: bool
  latestLink :: "string option"

definition under :: "path \<Rightarrow> path \<Rightarrow> bool" where
  "under p e \<longleftrightarrow> take (length p) e = p"

section \<open>Operations of storage.c\<close>

definition storageList :: "path \<Rightarrow> string \<Rightarrow> ('a Repo_scheme, string list) prog" where
  "storageList p expression =
     bindP (liftP (regExpNew expression)) (\<lambda>r.
     getP (\<lambda>s. filter (regExpMatch r)
       (remdups (map (\<lambda>e. e ! length p) (filter (\<lambda>e. under p e \<and> length p < length e) (entries s))))))"

definition storageExists :: "path \<Rightarrow> ('a Repo_scheme, bool) prog" where
  "storageExists p = getP (\<lambda>s. p \<in> set (entries s))"

definition storageRemove :: "path \<Rightarrow> ('a Repo_scheme, unit) prog" where
  "storageRemove p = (\<lambda>s. case removeError s p of
     Some e \<Rightarrow> (Inl e, s)
   | None \<Rightarrow> (Inr (), s\<lparr>entries := filter (\<lambda>e. e \<noteq> p) (entries s)\<rparr>))"

definition storagePathRemove :: "path \<Rightarrow> ('a Repo_scheme, unit) prog" where
  "storagePathRemove p = (\<lambda>s. case pathRemoveError s p of
     Some (e, gone) \<Rightarrow> (Inl e, s\<lparr>entries := filter (\<lambda>x. \<not> (under p x \<and> gone x)) (entries s)\<rparr>)
   | None \<Rightarrow> (Inr (), s\<lparr>entries := filter (\<lambda>x. \<not> under p x) (entries s)\<rparr>))"

definition storagePut :: "path \<Rightarrow> ('a Repo_scheme, unit) prog" where
  "storagePut p = (\<lambda>s. case putError s p of
     Some e \<Rightarrow> (Inl e, s)
   | None \<Rightarrow> (Inr (), s\<lparr>entries := (if p \<in> set (entries s) then entries s else entries s @ [p])\<rparr>))"

section \<open>Paths of the repository\<close>

definition backupPath :: "string \<Rightarrow> path" where
  "backupPath label = [''backup'', label]"

definition manifestPath :: "string \<Rightarrow> path" where
  "manifestPath label = [''backup'', label, ''backup.manifest'']"

definition manifestCopyPath :: "string \<Rightarrow> path" where
  "manifestCopyPath label = [''backup'', label, ''backup.manifest.copy'']"

definition archivePath :: "string \<Rightarrow> path" where
  "archivePath archiveId = [''archive'', archiveId]"

section \<open>The laws of removal\<close>

text \<open>
  What a client of the storage relies on: a removal affects the entries it names and no others,
  whether it succeeds or fails.
\<close>

locale removal_laws =
  fixes present :: "'s \<Rightarrow> path \<Rightarrow> bool"
    and remove :: "path \<Rightarrow> ('s, unit) prog"
    and pathRemove :: "path \<Rightarrow> ('s, unit) prog"
  assumes remove_other: "e \<noteq> p \<Longrightarrow> present (snd (remove p s)) e = present s e"
    and remove_self: "remove p s = (Inr (), s') \<Longrightarrow> \<not> present s' p"
    and pathRemove_other: "\<not> under p e \<Longrightarrow> present (snd (pathRemove p s)) e = present s e"
    and pathRemove_under: "pathRemove p s = (Inr (), s') \<Longrightarrow> under p e \<Longrightarrow> \<not> present s' e"
    and remove_shrinks: "present (snd (remove p s)) e \<Longrightarrow> present s e"
    and pathRemove_shrinks: "present (snd (pathRemove p s)) e \<Longrightarrow> present s e"
begin

lemma keeps_present_remove: "e \<noteq> p \<Longrightarrow> keeps (\<lambda>s. present s e) (remove p)"
  by (simp add: keeps_def remove_other)

lemma keeps_present_pathRemove: "\<not> under p e \<Longrightarrow> keeps (\<lambda>s. present s e) (pathRemove p)"
  by (simp add: keeps_def pathRemove_other)

lemma keeps_absent:
  "keeps (\<lambda>s. \<not> present s e) (remove p)" "keeps (\<lambda>s. \<not> present s e) (pathRemove p)"
  unfolding keeps_def by (meson remove_shrinks, meson pathRemove_shrinks)

text \<open>A loop of removals leaves every entry that no step of it names.\<close>

lemma keeps_present_loop:
  assumes "\<And>x. x \<in> set xs \<Longrightarrow> doomed x \<Longrightarrow> e \<noteq> target x"
  shows "keeps (\<lambda>s. present s e) (forP xs (\<lambda>x. whenP (doomed x) (remove (target x))))"
  using assms by (intro keeps_for keeps_when keeps_present_remove) auto

end

interpretation repo_removal: removal_laws "\<lambda>s e. e \<in> set (entries s)" storageRemove storagePathRemove
  by unfold_locales
    (auto simp: storageRemove_def storagePathRemove_def split: option.splits prod.splits)

lemmas repo_keeps = repo_removal.keeps_present_remove repo_removal.keeps_present_pathRemove

lemma keeps_storageList [keeps_intros]: "keeps P (storageList p e)"
  unfolding storageList_def by (intro keeps_intros)

lemma keeps_storageExists [keeps_intros]: "keeps P (storageExists p)"
  unfolding storageExists_def by (intro keeps_intros)

lemma storageRemove_frame [simp]:
  "backupInfoFile (snd (storageRemove p s)) = backupInfoFile s"
  "backupInfoFile (snd (storagePathRemove p s)) = backupInfoFile s"
  "archiveInfoFile (snd (storageRemove p s)) = archiveInfoFile s"
  "archiveInfoFile (snd (storagePathRemove p s)) = archiveInfoFile s"
  by (auto simp: storageRemove_def storagePathRemove_def split: option.splits prod.splits)

lemma storageList_unchanged: "snd (storageList p e s) = s"
  by (auto simp: storageList_def run_simps split: sum.splits)

lemma storageList_names:
  "storageList p e s = (Inr xs, s') \<Longrightarrow> x \<in> set xs \<longleftrightarrow>
     (\<exists>r. regExpNew e = Inr r \<and> regExpMatch r x) \<and> (\<exists>y \<in> set (entries s). under p y \<and> length p < length y \<and> y ! length p = x)"
  by (auto simp: storageList_def run_simps split: sum.splits)

end
