(* ===== verification/ExpireBackups.thy ===== *)
theory ExpireBackups
  imports Repository
begin

text \<open>
  The expire command, first part (src/command/expire/expire.c): which backups leave backup.info. The
  state is the repository, the backup.info object in memory and the archive retention option,
  which the time-based expiration sets. Log messages are left out. The options of one repository
  are a record; \<open>dryRun\<close> is the option when it is valid for the command.
\<close>

section \<open>State and options\<close>

record Expire = Repo +
  curInfo :: InfoBackup
  retentionArchive :: "nat option"

record ExpireConfig =
  retentionFull :: "nat option"
  retentionFullDefaultRepo :: nat
  retentionFullTime :: bool
  retentionDiff :: "nat option"
  retentionArchiveType :: BackupType
  retentionHistory :: "nat option"
  dryRun :: bool

definition labelParam :: "bool \<Rightarrow> bool \<Rightarrow> bool \<Rightarrow> BackupRegExpParam" where
  "labelParam f d i = \<lparr>full = f, differential = d, incremental = i, noAnchorEnd = False\<rparr>"

definition strLstGet :: "string list \<Rightarrow> nat \<Rightarrow> string result" where
  "strLstGet this listIdx = (if listIdx < length this then Inr (this ! listIdx) else Inl AssertError)"

text \<open>The labels of backup.info that match the expression of some backup types.\<close>

definition labelList :: "InfoBackup \<Rightarrow> BackupRegExpParam \<Rightarrow> string list result" where
  "labelList infoBackup param =
     bindE (backupRegExp param) (\<lambda>expression. infoBackupDataLabelList infoBackup (Some expression))"

section \<open>Expiring backups\<close>

text \<open>One turn of the loop of expireBackup.\<close>

definition expireBackupOne :: "ExpireConfig \<Rightarrow> string \<Rightarrow> (Expire, unit) prog" where
  "expireBackupOne cfg removeBackupLabel =
     bindP (whenP (\<not> dryRun cfg)
       (bindP (storageRemove (manifestPath removeBackupLabel)) (\<lambda>_.
          storageRemove (manifestCopyPath removeBackupLabel)))) (\<lambda>_.
     modifyP (\<lambda>s. s\<lparr>curInfo := infoBackupDataDelete (curInfo s) removeBackupLabel\<rparr>))"

definition expireBackup :: "ExpireConfig \<Rightarrow> string \<Rightarrow> (Expire, string list) prog" where
  "expireBackup cfg label =
     bindP (getP (\<lambda>s. strLstSort (infoBackupDataDependentList (curInfo s) label) sortOrderDesc)) (\<lambda>backupList.
     bindP (forP backupList (expireBackupOne cfg)) (\<lambda>_.
     retP (strLstSort backupList sortOrderAsc)))"

definition backupLinkLatest :: "string \<Rightarrow> (Expire, unit) prog" where
  "backupLinkLatest label =
     bindP (storageRemove [''backup'', ''latest'']) (\<lambda>_.
     bindP (modifyP (\<lambda>s. s\<lparr>latestLink := None\<rparr>)) (\<lambda>_.
     bindP (getP symLinkFeature) (\<lambda>feature.
     whenP feature (bindP (catchP (storagePut [''backup'', ''latest'']) (\<lambda>_. throwP FileOpenError)) (\<lambda>_.
       modifyP (\<lambda>s. s\<lparr>latestLink := Some label\<rparr>))))))"

text \<open>A label that is not in backup.info would be a null pointer here.\<close>

definition pgIdOf :: "InfoBackup \<Rightarrow> string \<Rightarrow> nat result" where
  "pgIdOf infoBackup label = (case infoBackupDataByLabel infoBackup label of
     None \<Rightarrow> Inl UndefinedBehavior | Some b \<Rightarrow> Inr (backupPgId b))"

definition adhocCheck :: "InfoBackup \<Rightarrow> string \<Rightarrow> unit result" where
  "adhocCheck infoBackup label =
     bindE (mapE (\<lambda>l. strLstSort l sortOrderDesc) (labelList infoBackup (labelParam True False False))) (\<lambda>fullList.
     bindE (strLstGet fullList 0) (\<lambda>latestFull.
     if strcmp latestFull label = 0 then
       (if length fullList = 1 then Inl BackupSetInvalidError
        else
          bindE (pgIdOf infoBackup label) (\<lambda>id1.
          bindE (strLstGet fullList 1) (\<lambda>priorFull.
          bindE (pgIdOf infoBackup priorFull) (\<lambda>id2.
          if id1 \<noteq> id2 then Inl BackupSetInvalidError else Inr ()))))
     else Inr ()))"

definition expireAdhocBackup :: "ExpireConfig \<Rightarrow> string \<Rightarrow> (Expire, nat) prog" where
  "expireAdhocBackup cfg label =
     bindP (getP curInfo) (\<lambda>infoBackup.
     bindP (liftP (adhocCheck infoBackup label)) (\<lambda>_.
     bindP (liftP (mapE backupLabel (infoBackupData infoBackup (infoBackupDataTotal infoBackup - 1)))) (\<lambda>latestBackup.
     bindP (expireBackup cfg label) (\<lambda>backupExpired.
     bindP (getP curInfo) (\<lambda>infoBackup'.
     bindP (whenP (infoBackupDataByLabel infoBackup' latestBackup = None \<and> \<not> dryRun cfg)
       (bindP (liftP (mapE backupLabel (infoBackupData infoBackup' (infoBackupDataTotal infoBackup' - 1))))
          backupLinkLatest)) (\<lambda>_.
     retP (length backupExpired)))))))"

fun sumP :: "'a list \<Rightarrow> ('a \<Rightarrow> ('s, nat) prog) \<Rightarrow> ('s, nat) prog" where
  "sumP [] f = retP 0"
| "sumP (x # xs) f = bindP (f x) (\<lambda>n. bindP (sumP xs f) (\<lambda>m. retP (n + m)))"

definition expireDiffOne :: "ExpireConfig \<Rightarrow> string \<Rightarrow> (Expire, nat) prog" where
  "expireDiffOne cfg label =
     bindP (liftP (bindE (backupRegExp (labelParam True False False)) (\<lambda>e. regExpMatchOne e label))) (\<lambda>isFull.
     if isFull then retP 0
     else bindP (expireBackup cfg label) (\<lambda>backupExpired. retP (length backupExpired)))"

definition expireDiffBackup :: "ExpireConfig \<Rightarrow> (Expire, nat) prog" where
  "expireDiffBackup cfg =
     (let differentialRetention = (case retentionDiff cfg of Some n \<Rightarrow> n | None \<Rightarrow> 0)
      in if differentialRetention > 0 then
           bindP (getP curInfo) (\<lambda>infoBackup.
           bindP (liftP (labelList infoBackup (labelParam True True False))) (\<lambda>currentBackupList.
           if length currentBackupList > differentialRetention
           then sumP (take (length currentBackupList - differentialRetention) currentBackupList) (expireDiffOne cfg)
           else retP 0))
         else retP 0)"

definition expireFullBackup :: "ExpireConfig \<Rightarrow> (Expire, nat) prog" where
  "expireFullBackup cfg =
     (let fullRetention = (case retentionFull cfg of Some n \<Rightarrow> n | None \<Rightarrow> 0)
      in if fullRetention > 0 then
           bindP (getP curInfo) (\<lambda>infoBackup.
           bindP (liftP (labelList infoBackup (labelParam True False False))) (\<lambda>currentBackupList.
           if length currentBackupList > fullRetention
           then sumP (take (length currentBackupList - fullRetention) currentBackupList)
                  (\<lambda>label. bindP (expireBackup cfg label) (\<lambda>backupExpired. retP (length backupExpired)))
           else retP 0))
         else retP 0)"

text \<open>The search for the backup to keep, over the full backups from newest to oldest.\<close>

fun timeKeep :: "InfoBackup \<Rightarrow> int \<Rightarrow> string list \<Rightarrow> string result" where
  "timeKeep infoBackup minTimestamp [] = Inl UndefinedBehavior"
| "timeKeep infoBackup minTimestamp (l # ls) = (case infoBackupDataByLabel infoBackup l of
     None \<Rightarrow> Inl UndefinedBehavior
   | Some info \<Rightarrow>
       if backupTimestampStop info < minTimestamp \<or> ls = [] then Inr (backupLabel info)
       else timeKeep infoBackup minTimestamp ls)"

text \<open>
  The loop that expires the oldest backup until it is the one to keep, with the totals of backups
  and of turns. Every turn removes the first backup of the list, so that one turn more than there are
  backups is never reached.
\<close>

fun timeLoop :: "ExpireConfig \<Rightarrow> string \<Rightarrow> nat \<Rightarrow> (Expire, nat \<times> nat) prog" where
  "timeLoop cfg keep 0 = throwP UndefinedBehavior"
| "timeLoop cfg keep (Suc fuel) =
     bindP (getP curInfo) (\<lambda>infoBackup.
     bindP (liftP (mapE backupLabel (infoBackupData infoBackup 0))) (\<lambda>oldest.
     if strEq (Some oldest) (Some keep) then retP (0, 0)
     else
       bindP (expireBackup cfg oldest) (\<lambda>backupExpired.
       bindP (timeLoop cfg keep fuel) (\<lambda>(result, numFullExpired).
       retP (length backupExpired + result, Suc numFullExpired)))))"

definition expireTimeBasedBackup :: "ExpireConfig \<Rightarrow> int \<Rightarrow> (Expire, nat) prog" where
  "expireTimeBasedBackup cfg minTimestamp =
     bindP (liftP (ASSERT (minTimestamp > 0))) (\<lambda>_.
     bindP (getP curInfo) (\<lambda>infoBackup.
     bindP (liftP (mapE (\<lambda>l. strLstSort l sortOrderAsc) (labelList infoBackup (labelParam True False False))))
       (\<lambda>currentBackupList.
     if length currentBackupList > 0 then
       bindP (liftP (timeKeep infoBackup minTimestamp (rev currentBackupList))) (\<lambda>lastBackupLabelToKeep.
       bindP (timeLoop cfg lastBackupLabelToKeep (Suc (infoBackupDataTotal infoBackup))) (\<lambda>(result, numFullExpired).
       bindP (getP retentionArchive) (\<lambda>archiveOption.
       bindP (whenP (retentionArchiveType cfg = backupTypeFull \<and> archiveOption = None \<and> numFullExpired > 0)
         (modifyP (\<lambda>s. s\<lparr>retentionArchive :=
            Some ((length currentBackupList + 2 ^ 32 - numFullExpired) mod 2 ^ 32)\<rparr>))) (\<lambda>_.
       retP result))))
     else retP 0)))"

section \<open>The runs of expireBackup\<close>

text \<open>What one expiration does to the state when no removal fails.\<close>

definition noErrors :: "Expire \<Rightarrow> bool" where
  "noErrors s \<longleftrightarrow> removeError s = (\<lambda>_. None) \<and> pathRemoveError s = (\<lambda>_. None) \<and> putError s = (\<lambda>_. None)"

definition expired :: "ExpireConfig \<Rightarrow> string set \<Rightarrow> Expire \<Rightarrow> Expire" where
  "expired cfg ls s = s\<lparr>
     entries := filter (\<lambda>e. dryRun cfg \<or> (\<forall>l \<in> ls. e \<noteq> manifestPath l \<and> e \<noteq> manifestCopyPath l)) (entries s),
     curInfo := (curInfo s)\<lparr>backup := filter (\<lambda>b. backupLabel b \<notin> ls) (backup (curInfo s))\<rparr>\<rparr>"

lemma expired_noErrors [simp]: "noErrors (expired cfg ls s) = noErrors s"
  by (simp add: noErrors_def expired_def)

lemma expired_backup [simp]: "backup (curInfo (expired cfg ls s)) = filter (\<lambda>b. backupLabel b \<notin> ls) (backup (curInfo s))"
  by (simp add: expired_def)

lemma expired_empty [simp]: "expired cfg {} s = s"
  by (simp add: expired_def)

lemma expired_expired: "expired cfg ls (expired cfg ls' s) = expired cfg (ls' \<union> ls) s"
proof -
  have "filter (\<lambda>e. dryRun cfg \<or> (\<forall>l \<in> ls. e \<noteq> manifestPath l \<and> e \<noteq> manifestCopyPath l))
      (filter (\<lambda>e. dryRun cfg \<or> (\<forall>l \<in> ls'. e \<noteq> manifestPath l \<and> e \<noteq> manifestCopyPath l)) es) =
    filter (\<lambda>e. dryRun cfg \<or> (\<forall>l \<in> ls' \<union> ls. e \<noteq> manifestPath l \<and> e \<noteq> manifestCopyPath l)) es" for es
    by (auto intro!: filter_cong)
  then show ?thesis by (simp add: expired_def del: filter_filter) simp
qed

lemma expireBackupOne_run:
  assumes "noErrors s" "label_sorted (backup (curInfo s))"
  shows "expireBackupOne cfg l s = (Inr (), expired cfg {l} s)"
  using assms
  by (auto simp: expireBackupOne_def run_simps storageRemove_def noErrors_def expired_def infoBackupDataDelete_backup
      infoBackupDataDelete_def deleteLoop_filter label_sorted_distinct filter_filter conj_commute intro!: filter_cong)

lemma expireLoop_run:
  assumes "noErrors s" "label_sorted (backup (curInfo s))"
  shows "forP xs (expireBackupOne cfg) s = (Inr (), expired cfg (set xs) s)"
  using assms
proof (induction xs arbitrary: s)
  case (Cons x xs)
  have "label_sorted (backup (curInfo (expired cfg {x} s)))" using Cons.prems(2) by (simp add: label_sorted_filter)
  then show ?case using Cons by (simp add: run_simps expireBackupOne_run expired_expired)
qed (simp add: run_simps)

lemma expireBackup_run:
  assumes "noErrors s" "backups_wf (backup (curInfo s))"
  shows "expireBackup cfg l s =
    (Inr (strLstSort (strLstSort (infoBackupDataDependentList (curInfo s) l) sortOrderDesc) sortOrderAsc),
     expired cfg {x. depends (backup (curInfo s)) l x} s)"
  using assms
  by (simp add: expireBackup_def run_simps expireLoop_run backups_wf_def)
     (simp add: dependentList_set [of "curInfo s"] backups_wf_def)

lemma backups_wf_expired:
  assumes "backups_wf (backup (curInfo s))"
  shows "backups_wf (backup (curInfo (expired cfg {x. depends (backup (curInfo s)) l x} s)))"
  using backups_wf_remove [OF assms, of "depends (backup (curInfo s)) l"] depends_closed by (fastforce simp: expired_def)

section \<open>Chains of dependency\<close>

lemma depends_trans: "depends bs b c \<Longrightarrow> depends bs a b \<Longrightarrow> depends bs a c"
  by (induction rule: depends.induct) (auto intro: depends.intros)

lemma depends_mono: "depends bs l x \<Longrightarrow> set bs \<subseteq> set cs \<Longrightarrow> depends cs l x"
  by (induction rule: depends.induct) (auto intro: depends.intros)

text \<open>The prior of a backup is unique, so two backups that one depends on depend on each other.\<close>

lemma depends_linear:
  assumes "label_sorted bs" "depends bs f x" "depends bs g x"
  shows "depends bs f g \<or> depends bs g f"
  using assms(2,3)
proof (induction rule: depends.induct)
  case (depends_step f p b)
  from depends_step.prems show ?case
  proof (cases rule: depends.cases)
    case depends_refl
    then show ?thesis using depends.depends_step [OF depends_step.hyps] by blast
  next
    case (depends_step p' b')
    then have "b' = b" using label_inj [OF assms(1)] \<open>b \<in> set bs\<close> by metis
    then show ?thesis using depends_step \<open>backupPrior b = Some p\<close> \<open>depends bs g p \<Longrightarrow> _\<close> by simp
  qed
qed blast

text \<open>After a set of backups that is closed under dependents is removed, the same backups depend on each other.\<close>

lemma depends_filter:
  assumes "\<And>b p. b \<in> set bs \<Longrightarrow> backupPrior b = Some p \<Longrightarrow> p \<in> R \<Longrightarrow> backupLabel b \<in> R"
  shows "R \<union> {x. depends (filter (\<lambda>b. backupLabel b \<notin> R) bs) l x} = R \<union> {x. depends bs l x}"
proof -
  have "x \<in> R \<or> depends (filter (\<lambda>b. backupLabel b \<notin> R) bs) l x" if "depends bs l x" for x
    using that
  proof (induction rule: depends.induct)
    case (depends_step l p b)
    then show ?case using assms by (fastforce intro: depends.depends_step)
  qed (auto intro: depends_refl)
  moreover have "depends bs l x" if "depends (filter (\<lambda>b. backupLabel b \<notin> R) bs) l x" for x
    using that by (rule depends_mono) auto
  ultimately show ?thesis by blast
qed

text \<open>The backups that depend on one of some backups.\<close>

definition dependents :: "InfoBackupData list \<Rightarrow> string set \<Rightarrow> string set" where
  "dependents bs ls = {x. \<exists>l \<in> ls. depends bs l x}"

lemma dependents_closed:
  "b \<in> set bs \<Longrightarrow> backupPrior b = Some p \<Longrightarrow> p \<in> dependents bs ls \<Longrightarrow> backupLabel b \<in> dependents bs ls"
  by (auto simp: dependents_def intro: depends_step)

lemma dependents_simps [simp]:
  "dependents bs {} = {}" "dependents bs (insert l ls) = {x. depends bs l x} \<union> dependents bs ls"
  by (auto simp: dependents_def)

lemma dependents_self: "ls \<subseteq> dependents bs ls"
  by (auto simp: dependents_def intro: depends_refl)

lemma expireBackup_more:
  assumes "noErrors s" "backups_wf (backup (curInfo s))" "s' = expired cfg (dependents (backup (curInfo s)) ls) s"
  shows "\<exists>xs. expireBackup cfg l s' = (Inr xs, expired cfg (dependents (backup (curInfo s)) (insert l ls)) s)"
    and "backups_wf (backup (curInfo s'))"
proof -
  let ?bs = "backup (curInfo s)" and ?R = "dependents (backup (curInfo s)) ls"
  show wf: "backups_wf (backup (curInfo s'))"
    using backups_wf_remove [OF assms(2), of "\<lambda>x. x \<in> ?R"] dependents_closed by (auto simp: assms(3))
  have "?R \<union> {x. depends (filter (\<lambda>b. backupLabel b \<notin> ?R) ?bs) l x} = dependents ?bs (insert l ls)"
    by (subst depends_filter) (auto intro: dependents_closed)
  then show "\<exists>xs. expireBackup cfg l s' = (Inr xs, expired cfg (dependents ?bs (insert l ls)) s)"
    using expireBackup_run [OF _ wf, of cfg l] assms(1,3) by (simp add: expired_expired)
qed

text \<open>A loop that expires some of the labels of a list.\<close>

lemma expireSum_run:
  assumes "noErrors s" "backups_wf (backup (curInfo s))"
    and "\<And>l s. f l s = (if skip l then (Inr 0, s) else bindP (expireBackup cfg l) (\<lambda>xs. retP (length xs)) s)"
  shows "\<exists>n. sumP ls f (expired cfg (dependents (backup (curInfo s)) done) s) =
    (Inr n, expired cfg (dependents (backup (curInfo s)) (done \<union> set (filter (\<lambda>l. \<not> skip l) ls))) s)"
proof (induction ls arbitrary: "done")
  case (Cons l ls)
  show ?case
  proof (cases "skip l")
    case True
    then show ?thesis using Cons [of "done"] by (auto simp: run_simps assms(3))
  next
    case False
    obtain xs where "expireBackup cfg l (expired cfg (dependents (backup (curInfo s)) done) s) =
        (Inr xs, expired cfg (dependents (backup (curInfo s)) (insert l done)) s)"
      using expireBackup_more(1) [OF assms(1,2) refl] by blast
    then have "f l (expired cfg (dependents (backup (curInfo s)) done) s) =
        (Inr (length xs), expired cfg (dependents (backup (curInfo s)) (insert l done)) s)"
      using False by (simp add: assms(3) [of l] run_simps)
    moreover obtain n where "sumP ls f (expired cfg (dependents (backup (curInfo s)) (insert l done)) s) =
        (Inr n, expired cfg (dependents (backup (curInfo s)) (insert l done \<union> set (filter (\<lambda>l. \<not> skip l) ls))) s)"
      using Cons by blast
    ultimately show ?thesis using False by (simp add: run_simps del: dependents_simps)
  qed
qed (simp add: run_simps)

section \<open>The labels of the backup types\<close>

abbreviation isFull :: "string \<Rightarrow> bool" where
  "isFull l \<equiv> labelType l = Some backupTypeFull"

abbreviation isDiff :: "string \<Rightarrow> bool" where
  "isDiff l \<equiv> labelType l = Some backupTypeDiff"

text \<open>A backup has no prior exactly if it is full, and the prior of a differential backup is full.\<close>

definition types_wf :: "InfoBackupData list \<Rightarrow> bool" where
  "types_wf bs \<longleftrightarrow> (\<forall>b \<in> set bs. (backupPrior b = None \<longleftrightarrow> isFull (backupLabel b)) \<and>
     (\<forall>p. backupPrior b = Some p \<longrightarrow> isDiff (backupLabel b) \<longrightarrow> isFull p))"

lemma labelList_eq:
  assumes "f \<or> d \<or> i"
  shows "labelList info (labelParam f d i) = Inr (filter (\<lambda>l. case labelType l of None \<Rightarrow> False
    | Some t \<Rightarrow> paramSelects (labelParam f d i) t) (labels (backup info)))"
proof -
  let ?p = "labelParam f d i"
  obtain e where e: "backupRegExp ?p = Inr e" "regExpNew e = Inr (labelRx ?p (RxCat RxEnd RxEmpty))"
    using backupRegExp_parse [of ?p] assms by (auto simp: labelParam_def bindE_eq_Inr)
  have "regExpMatch (labelRx ?p (RxCat RxEnd RxEmpty)) =
      (\<lambda>l. case labelType l of None \<Rightarrow> False | Some t \<Rightarrow> paramSelects ?p t)"
    using labelRx_match [of ?p] assms by (intro ext) (simp add: labelParam_def)
  then show ?thesis using e by (simp add: labelList_def infoBackupDataLabelList_def)
qed

lemma labelSelect:
  "(case labelType l of None \<Rightarrow> False | Some t \<Rightarrow> paramSelects (labelParam True False False) t) = isFull l"
  "(case labelType l of None \<Rightarrow> False | Some t \<Rightarrow> paramSelects (labelParam True True False) t) = (isFull l \<or> isDiff l)"
  "(case labelType l of None \<Rightarrow> False | Some t \<Rightarrow> paramSelects (labelParam True True True) t) = (labelType l \<noteq> None)"
  by (cases "labelType l"; cases "the (labelType l)"; simp add: labelParam_def)+

lemma labelList_full: "labelList info (labelParam True False False) = Inr (filter isFull (labels (backup info)))"
  by (simp add: labelList_eq labelSelect)

lemma labelList_fullDiff:
  "labelList info (labelParam True True False) = Inr (filter (\<lambda>l. isFull l \<or> isDiff l) (labels (backup info)))"
  by (simp add: labelList_eq labelSelect)

lemma isFull_match:
  "bindE (backupRegExp (labelParam True False False)) (\<lambda>e. regExpMatchOne e l) = Inr (isFull l)"
proof -
  have "bindE (backupRegExp (labelParam True False False)) (\<lambda>e. regExpMatchOne e l) =
      Inr (case labelType l of None \<Rightarrow> False | Some t \<Rightarrow> paramSelects (labelParam True False False) t)"
    by (rule backupRegExp_match) (simp_all add: labelParam_def)
  then show ?thesis by (simp only: labelSelect)
qed

lemma depends_full: "types_wf bs \<Longrightarrow> isFull g \<Longrightarrow> depends bs f g \<Longrightarrow> f = g"
  by (erule depends.cases) (auto simp: types_wf_def)

lemma depends_diff:
  assumes "types_wf bs" "isDiff f" "isDiff g" "depends bs f g"
  shows "f = g"
  using assms(4)
proof (cases rule: depends.cases)
  case (depends_step p b)
  then have "isFull p" using assms(1,3) by (auto simp: types_wf_def)
  with depends_step show ?thesis using depends_full [OF assms(1)] assms(2) by fastforce
qed simp

lemma depends_root:
  assumes "backups_wf bs" "types_wf bs" "b \<in> set bs"
  shows "\<exists>f \<in> set (labels bs). isFull f \<and> depends bs f (backupLabel b)"
proof -
  have "i < length bs \<Longrightarrow> \<exists>f \<in> set (labels bs). isFull f \<and> depends bs f (backupLabel (bs ! i))" for i
  proof (induction i rule: less_induct)
    case (less i)
    show ?case
    proof (cases "backupPrior (bs ! i)")
      case None
      then show ?thesis using less.prems assms(2) depends_refl by (auto simp: types_wf_def)
    next
      case (Some p)
      obtain j where j: "j < length bs" "backupLabel (bs ! j) = p" and lt: "strcmp p (backupLabel (bs ! i)) < 0"
        using assms(1) Some less.prems by (force simp: backups_wf_def dep_closed_def in_set_conv_nth)
      have "j < i"
      proof (rule ccontr)
        assume "\<not> j < i"
        then have "strcmp (backupLabel (bs ! i)) p \<le> 0"
          using assms(1) j less.prems
          by (cases "i = j") (auto simp: backups_wf_def label_sorted_def sorted_wrt_iff_nth_less intro: less_imp_le)
        with lt show False using strcmp_flip [of p "backupLabel (bs ! i)"] by simp
      qed
      then show ?thesis using less.IH [OF _ j(1)] j(2) depends_step [OF _ nth_mem [OF less.prems] Some] by blast
    qed
  qed
  then show ?thesis using assms(3) by (auto simp: in_set_conv_nth)
qed

lemma depends_root_unique:
  "backups_wf bs \<Longrightarrow> types_wf bs \<Longrightarrow> isFull f \<Longrightarrow> isFull g \<Longrightarrow> depends bs f x \<Longrightarrow> depends bs g x \<Longrightarrow> f = g"
  using depends_linear [of bs f x g] depends_full [of bs] by (auto simp: backups_wf_def)

lemma types_wf_filter: "types_wf bs \<Longrightarrow> types_wf (filter P bs)"
  by (auto simp: types_wf_def)

section \<open>Retention of full and differential backups\<close>

lemma expireFullBackup_run:
  assumes "noErrors s" "backups_wf (backup (curInfo s))" "retentionFull cfg = Some n" "n > 0"
  defines "fulls \<equiv> filter isFull (labels (backup (curInfo s)))"
  shows "\<exists>m. expireFullBackup cfg s =
    (Inr m, expired cfg (dependents (backup (curInfo s)) (set (take (length fulls - n) fulls))) s)"
proof (cases "length fulls > n")
  case True
  have "\<exists>m. sumP (take (length fulls - n) fulls) (\<lambda>label. bindP (expireBackup cfg label) (\<lambda>xs. retP (length xs)))
      (expired cfg (dependents (backup (curInfo s)) {}) s) =
    (Inr m, expired cfg (dependents (backup (curInfo s))
       ({} \<union> set (filter (\<lambda>l. \<not> False) (take (length fulls - n) fulls)))) s)"
    by (rule expireSum_run [OF assms(1,2)]) simp
  then show ?thesis using True assms(3,4)
    by (simp add: expireFullBackup_def run_simps labelList_full flip: fulls_def)
next
  case False
  then show ?thesis using assms(3,4) by (simp add: expireFullBackup_def run_simps labelList_full flip: fulls_def)
qed

lemma expireDiffBackup_run:
  assumes "noErrors s" "backups_wf (backup (curInfo s))" "retentionDiff cfg = Some n" "n > 0"
  defines "fds \<equiv> filter (\<lambda>l. isFull l \<or> isDiff l) (labels (backup (curInfo s)))"
  shows "\<exists>m. expireDiffBackup cfg s =
    (Inr m, expired cfg (dependents (backup (curInfo s)) (set (filter isDiff (take (length fds - n) fds)))) s)"
proof (cases "length fds > n")
  case True
  have "\<exists>m. sumP (take (length fds - n) fds) (expireDiffOne cfg) (expired cfg (dependents (backup (curInfo s)) {}) s) =
    (Inr m, expired cfg (dependents (backup (curInfo s))
       ({} \<union> set (filter (\<lambda>l. \<not> isFull l) (take (length fds - n) fds)))) s)"
    by (rule expireSum_run [OF assms(1,2)]) (simp add: expireDiffOne_def run_simps isFull_match)
  moreover have "filter (\<lambda>l. \<not> isFull l) (take (length fds - n) fds) = filter isDiff (take (length fds - n) fds)"
    by (rule filter_cong) (auto simp: fds_def dest!: in_set_takeD)
  ultimately show ?thesis using True assms(3,4)
    by (simp add: expireDiffBackup_def run_simps labelList_fullDiff flip: fds_def)
next
  case False
  then show ?thesis using assms(3,4) by (simp add: expireDiffBackup_def run_simps labelList_fullDiff flip: fds_def)
qed

lemma remaining_fulls:
  assumes "backups_wf bs" "types_wf bs" "filter isFull (labels bs) = old @ new"
  shows "b \<in> set bs \<Longrightarrow> backupLabel b \<notin> dependents bs (set old) \<longleftrightarrow> (\<exists>f \<in> set new. depends bs f (backupLabel b))"
proof -
  assume b: "b \<in> set bs"
  have fulls: "x \<in> set old \<union> set new \<longleftrightarrow> x \<in> set (labels bs) \<and> isFull x" for x
    using arg_cong [OF assms(3), of set] by (auto simp: set_eq_iff)
  have "distinct (old @ new)"
    using label_sorted_distinct [of bs] assms(1,3) distinct_filter [of "labels bs" isFull] by (simp add: backups_wf_def)
  then have dis: "set old \<inter> set new = {}" by simp
  obtain f where f: "f \<in> set (labels bs)" "isFull f" "depends bs f (backupLabel b)"
    using depends_root [OF assms(1,2) b] by blast
  have "depends bs g (backupLabel b) \<longleftrightarrow> g = f" if "g \<in> set old \<union> set new" for g
    using depends_root_unique [OF assms(1,2) _ f(2) _ f(3), of g] fulls [of g] that f(3) by blast
  moreover have "f \<in> set old \<union> set new" using f fulls by blast
  ultimately have "backupLabel b \<in> dependents bs (set old) \<longleftrightarrow> f \<in> set old"
    "(\<exists>g \<in> set new. depends bs g (backupLabel b)) \<longleftrightarrow> f \<in> set new" and "f \<in> set old \<union> set new"
    unfolding dependents_def by blast+
  then show ?thesis using dis by blast
qed

section \<open>Time-based retention\<close>

lemma str_sorted_unique:
  "str_sorted xs \<Longrightarrow> str_sorted ys \<Longrightarrow> mset xs = mset ys \<Longrightarrow> xs = ys"
proof (induction xs arbitrary: ys)
  case (Cons x xs)
  obtain y ys' where ys: "ys = y # ys'" using Cons.prems(3) by (cases ys) auto
  have "x \<in> set ys" "y \<in> set (x # xs)" using Cons.prems(3) ys by (metis list.set_intros(1) mset_eq_setD)+
  then have "strcmp y x \<le> 0" "strcmp x y \<le> 0" using Cons.prems(1,2) ys by auto
  then have "strcmp x y = 0" using strcmp_flip [of x y] by simp
  then have "x = y" by simp
  then show ?case using Cons ys by simp
qed simp

lemma strLstSort_sorted: "sorted_wrt (\<lambda>x y. strcmp x y < 0) xs \<Longrightarrow> strLstSort xs sortOrderAsc = xs"
  by (rule str_sorted_unique [OF strLstSort_asc _ strLstSort_mset])
    (auto elim!: sorted_wrt_mono_rel [rotated])

lemma fulls_sorted: "label_sorted bs \<Longrightarrow> sorted_wrt (\<lambda>x y. strcmp x y < 0) (filter isFull (labels bs))"
  by (simp add: label_sorted_def sorted_wrt_filter)

definition stopOf :: "InfoBackupData list \<Rightarrow> string \<Rightarrow> int" where
  "stopOf bs l = (case find (\<lambda>b. backupLabel b = l) bs of None \<Rightarrow> 0 | Some b \<Rightarrow> backupTimestampStop b)"

lemma stopOf_byLabel:
  assumes "l \<in> set (labels (backup info))"
  shows "\<exists>b. infoBackupDataByLabel info l = Some b \<and> backupLabel b = l \<and> backupTimestampStop b = stopOf (backup info) l"
proof -
  have eq: "infoBackupDataByLabel info l = find (\<lambda>b. backupLabel b = l) (backup info)"
    by (simp add: infoBackupDataByLabel_def lstComparatorStr_def)
  obtain b where "infoBackupDataByLabel info l = Some b"
    using assms infoBackupDataByLabel_None [of info l] by (cases "infoBackupDataByLabel info l") auto
  moreover from this have "backupLabel b = l" unfolding eq by (auto simp: find_Some_iff)
  ultimately show ?thesis unfolding eq stopOf_def by simp
qed

lemma timeKeep_split:
  assumes "ls \<noteq> []" "set ls \<subseteq> set (labels (backup info))"
  shows "\<exists>pre keep post. timeKeep info m ls = Inr keep \<and> ls = pre @ keep # post \<and>
    (\<forall>f \<in> set pre. stopOf (backup info) f \<ge> m) \<and> (stopOf (backup info) keep < m \<or> post = [])"
  using assms
proof (induction ls)
  case (Cons l ls)
  obtain b where b: "infoBackupDataByLabel info l = Some b" "backupLabel b = l" "backupTimestampStop b = stopOf (backup info) l"
    using stopOf_byLabel [of l info] Cons.prems(2) by auto
  show ?case
  proof (cases "backupTimestampStop b < m \<or> ls = []")
    case True
    then show ?thesis using b by (intro exI [of _ "[]"] exI [of _ l] exI [of _ ls]) auto
  next
    case False
    then obtain pre keep post where "timeKeep info m ls = Inr keep" "ls = pre @ keep # post"
      "\<forall>f \<in> set pre. stopOf (backup info) f \<ge> m" "stopOf (backup info) keep < m \<or> post = []"
      using Cons by auto
    then show ?thesis using b False by (intro exI [of _ "l # pre"] exI [of _ keep] exI [of _ post]) auto
  qed
qed simp

lemma oldest_full:
  assumes "backups_wf (b # bs)" "types_wf (b # bs)"
  shows "isFull (backupLabel b)"
proof (cases "backupPrior b")
  case None
  then show ?thesis using assms(2) by (simp add: types_wf_def)
next
  case (Some p)
  then have p: "p = backupLabel b \<or> p \<in> set (labels bs)" "strcmp p (backupLabel b) < 0"
    using assms(1) by (auto simp: backups_wf_def dep_closed_def)
  then have "strcmp (backupLabel b) p \<le> 0"
    using assms(1) by (auto simp: backups_wf_def label_sorted_def less_imp_le)
  then show ?thesis using p(2) strcmp_flip [of p "backupLabel b"] by simp
qed

definition older :: "InfoBackupData list \<Rightarrow> string \<Rightarrow> string set" where
  "older bs keep = {l \<in> set (labels bs). strcmp l keep < 0}"

lemma timeLoop_run:
  assumes "noErrors s" "backups_wf (backup (curInfo s))" "types_wf (backup (curInfo s))"
    and "keep \<in> set (labels (backup (curInfo s)))" "isFull keep"
    and "D \<subseteq> older (backup (curInfo s)) keep"
    and "length (backup (curInfo (expired cfg (dependents (backup (curInfo s)) D) s))) < fuel"
  shows "\<exists>r. timeLoop cfg keep fuel (expired cfg (dependents (backup (curInfo s)) D) s) =
    (Inr (r, length (filter (\<lambda>l. isFull l \<and> strcmp l keep < 0)
       (labels (backup (curInfo (expired cfg (dependents (backup (curInfo s)) D) s)))))),
     expired cfg (dependents (backup (curInfo s)) (older (backup (curInfo s)) keep)) s)"
  using assms(6,7)
proof (induction fuel arbitrary: D)
  case (Suc fuel)
  let ?bs = "backup (curInfo s)"
  let ?s = "expired cfg (dependents ?bs D) s"
  let ?cs = "filter (\<lambda>b. backupLabel b \<notin> dependents ?bs D) ?bs"
  have wf: "backups_wf ?cs" using expireBackup_more(2) [OF assms(1,2) refl, of cfg D] by simp
  have tw: "types_wf ?cs" using assms(3) by (rule types_wf_filter)
  have srt: "label_sorted ?bs" using assms(2) by (simp add: backups_wf_def)
  have full_in: "x \<in> dependents ?bs D \<Longrightarrow> isFull x \<Longrightarrow> x \<in> D" for x
    using depends_full [OF assms(3)] by (auto simp: dependents_def)
  have "keep \<notin> D" using Suc.prems(1) by (auto simp: older_def)
  then have keep_cs: "keep \<in> set (labels ?cs)" using full_in [of keep] assms(4,5) by auto
  then obtain b cs where cs: "?cs = b # cs" by (cases ?cs) auto
  have bin: "b \<in> set ?bs" "backupLabel b \<notin> dependents ?bs D" using arg_cong [OF cs, of set] by auto
  show ?case
  proof (cases "backupLabel b = keep")
    case True
    have none: "\<not> strcmp (backupLabel c) keep < 0" if "c \<in> set ?cs" for c
    proof -
      have "c = b \<or> strcmp keep (backupLabel c) < 0"
        using wf cs that True by (auto simp: backups_wf_def label_sorted_def)
      then show ?thesis using True strcmp_flip [of keep "backupLabel c"] by auto
    qed
    then have "older ?bs keep \<subseteq> dependents ?bs D" by (auto simp: older_def)
    then have "dependents ?bs D = dependents ?bs (older ?bs keep)"
      using Suc.prems(1) depends_trans by (fastforce simp: dependents_def)
    moreover have "filter (\<lambda>l. isFull l \<and> strcmp l keep < 0) (labels ?cs) = []"
      using none by (auto simp: filter_empty_conv)
    ultimately show ?thesis using True cs by (simp add: run_simps infoBackupData_def)
  next
    case False
    have lt: "strcmp (backupLabel b) keep < 0"
      using wf cs keep_cs False by (auto simp: backups_wf_def label_sorted_def)
    have bf: "isFull (backupLabel b)" using oldest_full [of b cs] wf tw cs by simp
    obtain xs where xs: "expireBackup cfg (backupLabel b) ?s = (Inr xs, expired cfg (dependents ?bs (insert (backupLabel b) D)) s)"
      using expireBackup_more(1) [OF assms(1,2) refl] by blast
    let ?D = "insert (backupLabel b) D"
    let ?cs' = "filter (\<lambda>b. backupLabel b \<notin> dependents ?bs ?D) ?bs"
    have sub: "?cs' = filter (\<lambda>c. \<not> depends ?bs (backupLabel b) (backupLabel c)) ?cs" by (auto intro: filter_cong)
    then have "length ?cs' \<le> length cs" using cs depends_refl length_filter_le by simp
    then have "length ?cs' < fuel" using Suc.prems(2) cs by simp
    moreover have "?D \<subseteq> older ?bs keep" using Suc.prems(1) bin lt by (auto simp: older_def)
    ultimately obtain r where r: "timeLoop cfg keep fuel (expired cfg (dependents ?bs ?D) s) =
        (Inr (r, length (filter (\<lambda>l. isFull l \<and> strcmp l keep < 0) (labels ?cs'))),
         expired cfg (dependents ?bs (older ?bs keep)) s)"
      using Suc.IH [of ?D] by auto
    have "filter (\<lambda>l. isFull l \<and> strcmp l keep < 0) (labels ?cs') =
        filter (\<lambda>l. isFull l \<and> strcmp l keep < 0) (labels cs)"
    proof -
      have "isFull (backupLabel c) \<Longrightarrow> depends ?bs (backupLabel b) (backupLabel c) \<longleftrightarrow> backupLabel c = backupLabel b" for c
        using depends_full [OF assms(3)] depends_refl by metis
      moreover have "backupLabel c \<noteq> backupLabel b" if "c \<in> set cs" for c
        using label_sorted_distinct [of ?cs] wf cs that by (auto simp: backups_wf_def image_iff)
      ultimately show ?thesis unfolding sub cs by (auto simp: filter_map comp_def depends_refl intro!: filter_cong arg_cong [of _ _ labels])
    qed
    then have "length (filter (\<lambda>l. isFull l \<and> strcmp l keep < 0) (labels ?cs)) =
        Suc (length (filter (\<lambda>l. isFull l \<and> strcmp l keep < 0) (labels ?cs')))"
      using lt bf cs by simp
    then show ?thesis using False cs xs r by (simp add: run_simps infoBackupData_def del: dependents_simps)
  qed
qed simp

lemma dependents_older:
  assumes "backups_wf bs" "types_wf bs" "filter isFull (labels bs) = pre @ keep # post"
  shows "dependents bs (older bs keep) = dependents bs (set pre)"
proof -
  have srt: "sorted_wrt (\<lambda>x y. strcmp x y < 0) (pre @ keep # post)"
    using fulls_sorted [of bs] assms(1,3) by (simp add: backups_wf_def)
  have fulls: "x \<in> set (pre @ keep # post) \<longleftrightarrow> x \<in> set (labels bs) \<and> isFull x" for x
    using arg_cong [OF assms(3), of set] by (auto simp: set_eq_iff)
  have "set pre \<subseteq> older bs keep" using srt fulls by (auto simp: older_def sorted_wrt_append)
  moreover have "older bs keep \<subseteq> dependents bs (set pre)"
  proof
    fix l assume l: "l \<in> older bs keep"
    then obtain b where b: "b \<in> set bs" "backupLabel b = l" by (auto simp: older_def)
    obtain f where f: "f \<in> set (labels bs)" "isFull f" "depends bs f l" using depends_root [OF assms(1,2) b(1)] b(2) by blast
    have "f = l \<or> strcmp f l < 0" using depends_less [OF _ f(3)] assms(1) by (auto simp: backups_wf_def)
    then have lt: "strcmp f keep < 0" using l strcmp_less_trans [of f l keep] by (auto simp: older_def less_imp_le)
    have "f \<notin> set (keep # post)"
      using srt lt strcmp_flip [of f keep] by (auto simp: sorted_wrt_append)
    then have "f \<in> set pre" using fulls [of f] f by auto
    then show "l \<in> dependents bs (set pre)" using f(3) by (auto simp: dependents_def)
  qed
  ultimately show ?thesis using depends_trans by (fastforce simp: dependents_def)
qed

lemma expireTimeBasedBackup_run:
  assumes "noErrors s" "backups_wf (backup (curInfo s))" "types_wf (backup (curInfo s))" "m > 0"
    and "filter isFull (labels (backup (curInfo s))) \<noteq> []"
  shows "\<exists>r pre keep post. filter isFull (labels (backup (curInfo s))) = pre @ keep # post \<and>
    (\<forall>f \<in> set post. stopOf (backup (curInfo s)) f \<ge> m) \<and> (stopOf (backup (curInfo s)) keep < m \<or> pre = []) \<and>
    expireTimeBasedBackup cfg m s = (Inr r,
      (expired cfg (dependents (backup (curInfo s)) (set pre)) s)\<lparr>retentionArchive :=
        (if retentionArchiveType cfg = backupTypeFull \<and> retentionArchive s = None \<and> pre \<noteq> []
         then Some (Suc (length post) mod 2 ^ 32) else retentionArchive s)\<rparr>)"
proof -
  let ?bs = "backup (curInfo s)" let ?fulls = "filter isFull (labels ?bs)"
  have srt: "sorted_wrt (\<lambda>x y. strcmp x y < 0) ?fulls" using fulls_sorted assms(2) by (simp add: backups_wf_def)
  obtain rpost keep rpre where k: "timeKeep (curInfo s) m (rev ?fulls) = Inr keep" "rev ?fulls = rpost @ keep # rpre"
    "\<forall>f \<in> set rpost. stopOf ?bs f \<ge> m" "stopOf ?bs keep < m \<or> rpre = []"
    using timeKeep_split [of "rev ?fulls" "curInfo s" m] assms(5) by auto
  have f: "?fulls = rev rpre @ keep # rev rpost" using arg_cong [OF k(2), of rev] by simp
  have keep: "keep \<in> set (labels ?bs)" "isFull keep" using arg_cong [OF f, of set] by (auto simp: set_eq_iff)
  obtain r where r: "timeLoop cfg keep (Suc (length ?bs)) s =
      (Inr (r, length (filter (\<lambda>l. isFull l \<and> strcmp l keep < 0) (labels ?bs))), expired cfg (dependents ?bs (older ?bs keep)) s)"
    using timeLoop_run [OF assms(1,2,3) keep, of "{}" cfg "Suc (length ?bs)"] by auto
  have "filter (\<lambda>l. isFull l \<and> strcmp l keep < 0) (labels ?bs) = filter (\<lambda>l. strcmp l keep < 0) ?fulls" by (simp add: conj_commute)
  also have "\<dots> = rev rpre"
    using srt strcmp_flip [of keep] unfolding f by (auto simp: sorted_wrt_append filter_empty_conv intro!: filter_True)
  finally have n: "length (filter (\<lambda>l. isFull l \<and> strcmp l keep < 0) (labels ?bs)) = length rpre" by simp
  have s: "strLstSort ?fulls sortOrderAsc = ?fulls" using srt by (rule strLstSort_sorted)
  have dep: "dependents ?bs (older ?bs keep) = dependents ?bs (set (rev rpre))"
    by (rule dependents_older [OF assms(2,3) f])
  have len: "length ?fulls = length rpre + Suc (length rpost)" using f by (metis add_Suc_right length_Cons length_append length_rev)
  have "length ?fulls + 2 ^ 32 - length rpre = Suc (length rpost) + 2 ^ 32" using len by simp
  moreover have "(4294967297 + n) mod 4294967296 = Suc n mod (4294967296 :: nat)" for n
    using mod_add_self2 [of "Suc n" 4294967296] by simp
  ultimately have "expireTimeBasedBackup cfg m s = (Inr r,
      (expired cfg (dependents ?bs (set (rev rpre))) s)\<lparr>retentionArchive :=
        (if retentionArchiveType cfg = backupTypeFull \<and> retentionArchive s = None \<and> rev rpre \<noteq> []
         then Some (Suc (length rpost) mod 2 ^ 32) else retentionArchive s)\<rparr>)"
    using assms(4,5) k(1) r n s dep
    by (auto simp: expireTimeBasedBackup_def run_simps labelList_full infoBackupDataTotal_def expired_def)
  then show ?thesis using f k(3,4) by (intro exI [of _ r] exI [of _ "rev rpre"] exI [of _ keep] exI [of _ "rev rpost"]) simp
qed

section \<open>Aborted expirations\<close>

text \<open>
  Of the backups of a list, those with a manifest in the repository are usable: the manifest of
  their prior backup is there as well.
\<close>

definition usable :: "InfoBackupData list \<Rightarrow> Expire \<Rightarrow> bool" where
  "usable bs s \<longleftrightarrow> (\<forall>b \<in> set bs. \<forall>p. backupPrior b = Some p \<longrightarrow>
     manifestPath (backupLabel b) \<in> set (entries s) \<longrightarrow> manifestPath p \<in> set (entries s))"

lemma strcmp_asym: "strcmp x y < 0 \<Longrightarrow> \<not> strcmp y x < 0"
  using strcmp_flip [of x y] by simp

lemma expireBackupOne_entries:
  "x \<in> set (entries (snd (expireBackupOne cfg l s))) \<Longrightarrow> x \<in> set (entries s)"
  "x \<in> set (entries s) \<Longrightarrow> x \<noteq> manifestPath l \<Longrightarrow> x \<noteq> manifestCopyPath l \<Longrightarrow> x \<in> set (entries (snd (expireBackupOne cfg l s)))"
  "\<not> dryRun cfg \<Longrightarrow> expireBackupOne cfg l s = (Inr u, s') \<Longrightarrow> manifestPath l \<notin> set (entries s')"
  by (cases "dryRun cfg"; cases "removeError s (manifestPath l)"; cases "removeError s (manifestCopyPath l)";
      auto simp: expireBackupOne_def run_simps storageRemove_def)+

lemma manifestPath_inj [simp]: "manifestPath a = manifestPath b \<longleftrightarrow> a = b" "manifestPath a \<noteq> manifestCopyPath b"
  by (simp_all add: manifestPath_def manifestCopyPath_def)

lemma expireLoop_usable:
  assumes "sorted_wrt (\<lambda>x y. strcmp y x < 0) (gone @ todo)" "dep_closed bs"
    and "\<forall>b \<in> set bs. \<forall>p. backupPrior b = Some p \<longrightarrow> p \<in> set (gone @ todo) \<longrightarrow> backupLabel b \<in> set (gone @ todo)"
    and "\<not> dryRun cfg" "\<forall>l \<in> set gone. manifestPath l \<notin> set (entries s)" "usable bs s"
  shows "usable bs (snd (forP todo (expireBackupOne cfg) s))"
  using assms(1,3,5,6)
proof (induction todo arbitrary: gone s)
  case (Cons l todo)
  let ?s = "snd (expireBackupOne cfg l s)"
  have gone: "\<forall>x \<in> set gone. manifestPath x \<notin> set (entries ?s)"
    using expireBackupOne_entries(1) Cons.prems(3) by blast
  have "usable bs ?s"
    unfolding usable_def
  proof (intro ballI allI impI)
    fix b p assume b: "b \<in> set bs" "backupPrior b = Some p" "manifestPath (backupLabel b) \<in> set (entries ?s)"
    then have "manifestPath (backupLabel b) \<in> set (entries s)" using expireBackupOne_entries(1) by blast
    then have p: "manifestPath p \<in> set (entries s)" using Cons.prems(4) b by (auto simp: usable_def)
    show "manifestPath p \<in> set (entries ?s)"
    proof (cases "p = l")
      case True
      then have "backupLabel b \<in> set (gone @ l # todo)" using Cons.prems(2) b by auto
      moreover have lt: "strcmp l (backupLabel b) < 0" using assms(2) b True by (auto simp: dep_closed_def)
      then have "backupLabel b \<noteq> l" by auto
      moreover have "\<forall>x \<in> set todo. strcmp x l < 0" using Cons.prems(1) by (simp add: sorted_wrt_append)
      then have "backupLabel b \<notin> set todo" using strcmp_asym [OF lt] by blast
      ultimately have "backupLabel b \<in> set gone" by simp
      then show ?thesis using gone b(3) by blast
    next
      case False
      then show ?thesis using p by (intro expireBackupOne_entries(2)) simp_all
    qed
  qed
  moreover have "usable bs (snd (forP todo (expireBackupOne cfg) ?s))" if "expireBackupOne cfg l s = (Inr (), ?s)"
    using Cons.IH [of "gone @ [l]" ?s] Cons.prems(1,2) gone expireBackupOne_entries(3) [OF assms(4) that] \<open>usable bs ?s\<close>
    by simp
  ultimately show ?case by (cases "expireBackupOne cfg l s") (auto simp: run_simps split: sum.splits)
qed (simp add: run_simps)

lemma desc_strict:
  assumes "sorted_wrt (\<lambda>x y. strcmp y x \<le> 0) xs" "distinct xs"
  shows "sorted_wrt (\<lambda>x y. strcmp y x < 0) xs"
  using assms by (induction xs) (auto simp: order_less_le)

lemma expireBackup_usable:
  assumes "backups_wf (backup (curInfo s))" "usable (backup (curInfo s)) s"
  shows "usable (backup (curInfo s)) (snd (expireBackup cfg l s))"
proof (cases "dryRun cfg")
  case True
  have "keeps (\<lambda>t. entries t = entries s) (expireBackup cfg l)"
    unfolding expireBackup_def expireBackupOne_def using True by (intro keeps_intros keeps_for) simp_all
  then have "entries (snd (expireBackup cfg l s)) = entries s" by (simp add: keeps_def)
  then show ?thesis using assms(2) by (simp add: usable_def)
next
  case False
  let ?xs = "strLstSort (infoBackupDataDependentList (curInfo s) l) sortOrderDesc"
  have "distinct ?xs"
    using dependentList_distinct [OF assms(1)] strLstSort_mset mset_eq_imp_distinct_iff by metis
  then have "sorted_wrt (\<lambda>x y. strcmp y x < 0) ([] @ ?xs)" using desc_strict [OF strLstSort_desc] by simp
  moreover have "\<forall>b \<in> set (backup (curInfo s)). \<forall>p. backupPrior b = Some p \<longrightarrow> p \<in> set ([] @ ?xs) \<longrightarrow> backupLabel b \<in> set ([] @ ?xs)"
    using dependentList_set [OF assms(1)] depends_step by fastforce
  ultimately have "usable (backup (curInfo s)) (snd (forP ?xs (expireBackupOne cfg) s))"
    using expireLoop_usable [of "[]" ?xs "backup (curInfo s)" cfg s] assms False by (simp add: backups_wf_def)
  then show ?thesis by (auto simp: expireBackup_def run_simps split: prod.splits sum.splits)
qed

section \<open>The adhoc check\<close>

lemma adhocCheck_full:
  assumes "adhocCheck info l = Inr ()" "label_sorted (backup info)"
  obtains b where "b \<in> set (backup info)" "isFull (backupLabel b)" "backupLabel b \<noteq> l"
    "hd (strLstSort (filter isFull (labels (backup info))) sortOrderDesc) = l \<Longrightarrow>
       \<exists>c \<in> set (backup info). backupLabel c = l \<and> backupPgId c = backupPgId b"
proof -
  let ?fs = "strLstSort (filter isFull (labels (backup info))) sortOrderDesc"
  have set: "set ?fs = {x \<in> set (labels (backup info)). isFull x}" by auto
  have ne: "?fs \<noteq> []" and hd: "?fs ! 0 = hd ?fs"
    using assms(1) by (auto simp: adhocCheck_def labelList_full strLstGet_def hd_conv_nth split: if_splits)
  show ?thesis
  proof (cases "hd ?fs = l")
    case False
    define f where "f = hd ?fs"
    have "f \<in> set ?fs" unfolding f_def using ne by (rule hd_in_set)
    then obtain b where "b \<in> set (backup info)" "isFull (backupLabel b)" "backupLabel b = f" by auto
    moreover have "f \<noteq> l" using False f_def by simp
    ultimately show ?thesis by (intro that [of b]) (use False in simp_all)
  next
    case True
    have "length ?fs \<noteq> 1"
      using assms(1) ne hd True by (auto simp: adhocCheck_def labelList_full strLstGet_def)
    then have two: "1 < length ?fs" using ne by (metis length_0_conv less_one linorder_neqE_nat)
    have "distinct ?fs"
      using label_sorted_distinct [OF assms(2)] strLstSort_mset mset_eq_imp_distinct_iff distinct_filter by metis
    then have n: "?fs ! 1 \<noteq> l" using two True hd by (metis less_trans nth_eq_iff_index_eq zero_less_one zero_neq_one)
    obtain c d where c: "infoBackupDataByLabel info l = Some c" "infoBackupDataByLabel info (?fs ! 1) = Some d"
      "backupPgId c = backupPgId d"
      using assms(1) True two hd
      by (auto simp: adhocCheck_def labelList_full strLstGet_def pgIdOf_def split: if_splits option.splits)
    have "?fs ! 1 \<in> set ?fs" using two nth_mem by blast
    then have "isFull (?fs ! 1)" unfolding set by blast
    then show ?thesis
      using that [of d] c n infoBackupDataByLabel_Some [OF assms(2)] by metis
  qed
qed

section \<open>A sample state\<close>

definition sampleExpire :: Expire where
  "sampleExpire = \<lparr>entries = map manifestPath (labels (backup sampleInfo)), backupInfoFile = Inr sampleInfo,
     archiveInfoFile = Inl FileMissingError, manifestFile = (\<lambda>_. Inl FileMissingError), removeError = (\<lambda>_. None),
     pathRemoveError = (\<lambda>_. None), putError = (\<lambda>_. None), symLinkFeature = True, latestLink = None, curInfo = sampleInfo, retentionArchive = None\<rparr>"

definition sampleConfig :: ExpireConfig where
  "sampleConfig = \<lparr>retentionFull = Some 1, retentionFullDefaultRepo = 1, retentionFullTime = False, retentionDiff = Some 1,
     retentionArchiveType = backupTypeFull, retentionHistory = None, dryRun = False\<rparr>"

lemma sampleExpire_simps [simp]: "noErrors sampleExpire" "curInfo sampleExpire = sampleInfo"
  "retentionFull sampleConfig = Some 1" "retentionDiff sampleConfig = Some 1" "dryRun sampleConfig = False"
  by (simp_all add: noErrors_def sampleExpire_def sampleConfig_def)

lemma sample_types [simp]: "isFull ''20191002-070640F''" "isFull ''20191004-144000F''"
  "isDiff ''20191002-070640F_20191003-105320D''"
  by (simp_all add: labelType_def isFullLabel_def isStamp_def decimalDigit_def)

lemma sampleInfo_labels [simp]:
  "labels (backup sampleInfo) = [''20191002-070640F'', ''20191002-070640F_20191003-105320D'', ''20191004-144000F'']"
  by (simp add: sampleInfo_def sampleBackup_def)

lemma sampleInfo_types: "types_wf (backup sampleInfo)"
  using sample_types by (auto simp: types_wf_def sampleInfo_def sampleBackup_def)

section \<open>Properties\<close>

text \<open>
  C10. Expiring a backup. When no removal fails, expireBackup removes from backup.info exactly the
  backup and everything that depends on it, returns their labels from oldest to newest, keeps
  the order and dependency invariant of the list, and, unless it is a dry run, removes exactly
  their manifests and manifest copies from the repository.
\<close>

theorem expireBackup_exact:
  assumes "noErrors s" "backups_wf (backup (curInfo s))"
  shows "\<exists>xs s'. expireBackup cfg l s = (Inr xs, s') \<and> str_sorted xs \<and>
    set xs = {x. depends (backup (curInfo s)) l x} \<and>
    backup (curInfo s') = filter (\<lambda>b. \<not> depends (backup (curInfo s)) l (backupLabel b)) (backup (curInfo s)) \<and>
    backups_wf (backup (curInfo s')) \<and>
    entries s' = filter (\<lambda>e. dryRun cfg \<or> (\<forall>x \<in> set xs. e \<noteq> manifestPath x \<and> e \<noteq> manifestCopyPath x)) (entries s)"
  using expireBackup_run [OF assms, of cfg l] backups_wf_expired [OF assms(2), of cfg l] dependentList_set [OF assms(2), of l]
    strLstSort_asc by (auto simp: expired_def)

theorem expireBackup_exact_witness:
  "\<exists>xs s'. expireBackup sampleConfig ''20191002-070640F'' sampleExpire = (Inr xs, s') \<and> backups_wf (backup (curInfo s'))"
  using expireBackup_exact [of sampleExpire sampleConfig "''20191002-070640F''"] sampleInfo_wf by auto

text \<open>
  C9. Aborted expiration. However the storage fails during expireBackup, and whatever was removed
  before it failed, a backup that still has its manifest in the repository also has the manifest
  of the backup it depends on: the backups are removed from newest to oldest.
\<close>

theorem expireBackup_abort_safe:
  assumes "backups_wf (backup (curInfo s))" "usable (backup (curInfo s)) s"
  shows "usable (backup (curInfo s)) (snd (expireBackup cfg l s))"
  using expireBackup_usable [OF assms] .

theorem expireBackup_abort_safe_witness:
  "usable (backup sampleInfo) (snd (expireBackup sampleConfig ''20191002-070640F''
     (sampleExpire\<lparr>removeError := (\<lambda>p. if p = manifestCopyPath ''20191002-070640F'' then Some FileRemoveError else None)\<rparr>)))"
proof -
  let ?s = "sampleExpire\<lparr>removeError := (\<lambda>p. if p = manifestCopyPath ''20191002-070640F'' then Some FileRemoveError else None)\<rparr>"
  have "usable (backup (curInfo ?s)) ?s"
    by (simp add: usable_def sampleExpire_def sampleInfo_def sampleBackup_def)
  then show ?thesis using expireBackup_abort_safe [of ?s sampleConfig "''20191002-070640F''"] sampleInfo_wf by simp
qed

text \<open>
  C6. Retention of full backups. With a retention of n full backups, expireFullBackup keeps exactly
  the backups that depend on one of the newest n full backups, which are the full backups that
  remain, and keeps the invariants of the list.
\<close>

theorem expireFull_retention:
  assumes "noErrors s" "backups_wf (backup (curInfo s))" "types_wf (backup (curInfo s))"
    and "retentionFull cfg = Some n" "n > 0"
    and "fulls = filter isFull (labels (backup (curInfo s)))" "kept = drop (length fulls - n) fulls"
  shows "\<exists>m s'. expireFullBackup cfg s = (Inr m, s') \<and>
    backup (curInfo s') = filter (\<lambda>b. \<exists>f \<in> set kept. depends (backup (curInfo s)) f (backupLabel b)) (backup (curInfo s)) \<and>
    filter isFull (labels (backup (curInfo s'))) = kept \<and> backups_wf (backup (curInfo s'))"
proof -
  let ?bs = "backup (curInfo s)" let ?old = "take (length fulls - n) fulls"
  have split: "filter isFull (labels ?bs) = ?old @ kept" using assms(6,7) by simp
  let ?s = "expired cfg (dependents ?bs (set ?old)) s"
  obtain m where m: "expireFullBackup cfg s = (Inr m, ?s)" using expireFullBackup_run [OF assms(1,2,4,5)] assms(6) by blast
  have b: "backup (curInfo ?s) = filter (\<lambda>b. \<exists>f \<in> set kept. depends ?bs f (backupLabel b)) ?bs"
    unfolding expired_backup by (rule filter_cong [OF refl]) (rule remaining_fulls [OF assms(2,3) split])
  have "filter isFull (labels (backup (curInfo ?s))) =
      filter (\<lambda>f. \<exists>g \<in> set kept. depends ?bs g f) (?old @ kept)"
    unfolding b split [symmetric] by (simp add: filter_map comp_def conj_commute)
  also have "\<dots> = filter (\<lambda>f. f \<in> set kept) (?old @ kept)"
    using split depends_full [OF assms(3)] depends_refl by (intro filter_cong) (fastforce dest: arg_cong [of _ _ set])+
  also have "\<dots> = kept"
  proof -
    have "distinct (?old @ kept)"
      using label_sorted_distinct [of ?bs] assms(2) split distinct_filter [of "labels ?bs" isFull] by (simp add: backups_wf_def)
    then show ?thesis by (auto simp: filter_empty_conv)
  qed
  finally show ?thesis using m b expireBackup_more(2) [OF assms(1,2) refl, of cfg "set ?old"] by blast
qed

theorem expireFull_retention_witness:
  "\<exists>m s'. expireFullBackup sampleConfig sampleExpire = (Inr m, s') \<and> filter isFull (labels (backup (curInfo s'))) = [''20191004-144000F'']"
  using expireFull_retention [of sampleExpire sampleConfig 1 "[''20191002-070640F'', ''20191004-144000F'']" "[''20191004-144000F'']"]
    sampleInfo_wf sampleInfo_types sample_types by auto

text \<open>
  C7. Retention of differential backups. With a retention of n, expireDiffBackup counts full and
  differential backups together, removes the differential ones that are not among the newest n
  with everything that depends on them, and keeps every full backup.
\<close>

theorem expireDiff_retention:
  assumes "noErrors s" "backups_wf (backup (curInfo s))" "types_wf (backup (curInfo s))"
    and "retentionDiff cfg = Some n" "n > 0"
    and "fds = filter (\<lambda>l. isFull l \<or> isDiff l) (labels (backup (curInfo s)))"
  shows "\<exists>m s'. expireDiffBackup cfg s = (Inr m, s') \<and>
    backup (curInfo s') = filter (\<lambda>b. \<forall>d \<in> set (take (length fds - n) fds). isDiff d \<longrightarrow>
      \<not> depends (backup (curInfo s)) d (backupLabel b)) (backup (curInfo s)) \<and>
    filter (\<lambda>l. isFull l \<or> isDiff l) (labels (backup (curInfo s'))) =
      filter isFull (take (length fds - n) fds) @ drop (length fds - n) fds \<and>
    backups_wf (backup (curInfo s'))"
proof -
  let ?bs = "backup (curInfo s)" let ?old = "take (length fds - n) fds" let ?D = "set (filter isDiff ?old)"
  let ?s = "expired cfg (dependents ?bs ?D) s"
  obtain m where m: "expireDiffBackup cfg s = (Inr m, ?s)" using expireDiffBackup_run [OF assms(1,2,4,5)] assms(6) by blast
  have fds: "x \<in> set fds \<Longrightarrow> isFull x \<or> isDiff x" for x by (simp add: assms(6))
  have member: "x \<in> dependents ?bs ?D \<longleftrightarrow> x \<in> ?D" if "isFull x \<or> isDiff x" for x
    using that depends_full [OF assms(3)] depends_diff [OF assms(3)] depends_refl by (fastforce simp: dependents_def)
  have "filter (\<lambda>l. isFull l \<or> isDiff l) (labels (backup (curInfo ?s))) = filter (\<lambda>l. l \<notin> dependents ?bs ?D) fds"
    by (simp add: assms(6) filter_map comp_def conj_commute)
  also have "\<dots> = filter (\<lambda>l. l \<notin> ?D) (?old @ drop (length fds - n) fds)"
    using member fds by (auto intro!: filter_cong)
  also have "\<dots> = filter isFull ?old @ drop (length fds - n) fds"
  proof -
    have "distinct fds" using label_sorted_distinct [of ?bs] assms(2) by (simp add: assms(6) backups_wf_def)
    then have "set ?old \<inter> set (drop (length fds - n) fds) = {}" by (simp add: set_take_disj_set_drop_if_distinct)
    then have "filter (\<lambda>l. l \<notin> ?D) (drop (length fds - n) fds) = drop (length fds - n) fds" by (auto simp: filter_id_conv)
    moreover have "filter (\<lambda>l. l \<notin> ?D) ?old = filter isFull ?old"
      using fds by (intro filter_cong) (auto dest: in_set_takeD)
    ultimately show ?thesis unfolding filter_append by simp
  qed
  finally have "filter (\<lambda>l. isFull l \<or> isDiff l) (labels (backup (curInfo ?s))) = filter isFull ?old @ drop (length fds - n) fds" .
  moreover have "backup (curInfo ?s) = filter (\<lambda>b. \<forall>d \<in> set ?old. isDiff d \<longrightarrow> \<not> depends ?bs d (backupLabel b)) ?bs"
    by (auto simp: dependents_def intro: filter_cong)
  ultimately show ?thesis using m expireBackup_more(2) [OF assms(1,2) refl, of cfg ?D] by blast
qed

theorem expireDiff_retention_witness:
  "\<exists>m s'. expireDiffBackup sampleConfig sampleExpire = (Inr m, s') \<and>
     filter (\<lambda>l. isFull l \<or> isDiff l) (labels (backup (curInfo s'))) = [''20191002-070640F'', ''20191004-144000F'']"
  using expireDiff_retention [of sampleExpire sampleConfig 1 "labels (backup sampleInfo)"]
    sampleInfo_wf sampleInfo_types sample_types by auto

text \<open>
  C8. Time-based retention. The loop ends: expireTimeBasedBackup keeps a full backup, all newer
  full backups, every one of which ended within the period, and exactly the backups that depend on
  these; the oldest one kept ended before the period, unless there is none older to expire. When
  archive retention follows full backups and is not set, it becomes the number of full backups
  kept.
\<close>

theorem expireTimeBased_retention:
  assumes "noErrors s" "backups_wf (backup (curInfo s))" "types_wf (backup (curInfo s))" "minTimestamp > 0"
    and "filter isFull (labels (backup (curInfo s))) \<noteq> []" "length (backup (curInfo s)) < 2 ^ 32"
  shows "\<exists>r s' old keep new. expireTimeBasedBackup cfg minTimestamp s = (Inr r, s') \<and>
    filter isFull (labels (backup (curInfo s))) = old @ keep # new \<and>
    (\<forall>f \<in> set new. stopOf (backup (curInfo s)) f \<ge> minTimestamp) \<and>
    (stopOf (backup (curInfo s)) keep < minTimestamp \<or> old = []) \<and>
    backup (curInfo s') = filter (\<lambda>b. \<exists>f \<in> set (keep # new). depends (backup (curInfo s)) f (backupLabel b)) (backup (curInfo s)) \<and>
    backups_wf (backup (curInfo s')) \<and>
    retentionArchive s' = (if retentionArchiveType cfg = backupTypeFull \<and> retentionArchive s = None \<and> old \<noteq> []
      then Some (length (keep # new)) else retentionArchive s)"
proof -
  let ?bs = "backup (curInfo s)"
  obtain r old keep new where r: "filter isFull (labels ?bs) = old @ keep # new" "\<forall>f \<in> set new. stopOf ?bs f \<ge> minTimestamp"
    "stopOf ?bs keep < minTimestamp \<or> old = []"
    "expireTimeBasedBackup cfg minTimestamp s = (Inr r, (expired cfg (dependents ?bs (set old)) s)\<lparr>retentionArchive :=
        (if retentionArchiveType cfg = backupTypeFull \<and> retentionArchive s = None \<and> old \<noteq> []
         then Some (Suc (length new) mod 2 ^ 32) else retentionArchive s)\<rparr>)"
    using expireTimeBasedBackup_run [OF assms(1-5), of cfg] by blast
  have "length (filter isFull (labels ?bs)) < 2 ^ 32"
    using length_filter_le [of isFull "labels ?bs"] assms(6) unfolding length_map by linarith
  then have "Suc (length new) mod 2 ^ 32 = length (keep # new)" unfolding r(1) by simp
  moreover have "filter (\<lambda>b. backupLabel b \<notin> dependents ?bs (set old)) ?bs =
      filter (\<lambda>b. \<exists>f \<in> set (keep # new). depends ?bs f (backupLabel b)) ?bs"
    by (rule filter_cong [OF refl]) (rule remaining_fulls [OF assms(2,3) r(1)])
  moreover have "backups_wf (filter (\<lambda>b. backupLabel b \<notin> dependents ?bs (set old)) ?bs)"
    using expireBackup_more(2) [OF assms(1,2) refl, of cfg "set old"] by simp
  ultimately show ?thesis using r
    by (intro exI [of _ r] exI [of _ "snd (expireTimeBasedBackup cfg minTimestamp s)"] exI [of _ old] exI [of _ keep] exI [of _ new]) simp
qed

theorem expireTimeBased_retention_witness:
  "\<exists>r s'. expireTimeBasedBackup sampleConfig 100 sampleExpire = (Inr r, s') \<and> backups_wf (backup (curInfo s'))"
  using expireTimeBased_retention [of sampleExpire 100 sampleConfig] sampleInfo_wf sampleInfo_types
  by (auto simp: sampleInfo_def sampleBackup_def)



end
