(* ===== verification/ExpireArchive.thy ===== *)
theory ExpireArchive
  imports ExpireBackups
begin

text \<open>
  The expire command, second part (src/command/expire/expire.c): which WAL segments leave the
  archive. For every archive id the backup that starts the retention is selected; WAL before it
  is removed unless it lies between the start and the stop of an older backup that remains,
  which needs it to become consistent.
\<close>

section \<open>Archive ids\<close>

definition atoi :: "string \<Rightarrow> int" where
  "atoi s = fst (strtoll s 10)"

definition archiveIdComparator :: "string comparator" where
  "archiveIdComparator item1 item2 =
     atoi (strLstNewSplit item1 ''-'' ! 1) - atoi (strLstNewSplit item2 ''-'' ! 1)"

definition archivePgIdOf :: "string \<Rightarrow> nat result" where
  "archivePgIdOf archiveId = bindE (strLstGet (strLstNewSplit archiveId ''-'') 1) cvtZToUInt"

section \<open>Ranges of WAL to keep\<close>

record ArchiveRange =
  start :: string
  stop :: "string option"

text \<open>Is a major WAL path (timeline and high part of the LSN) in one of the ranges?\<close>

fun walPathKept :: "string \<Rightarrow> ArchiveRange list \<Rightarrow> bool result" where
  "walPathKept walPath [] = Inr False"
| "walPathKept walPath (r # rs) =
     bindE (strSubN (start r) 0 16) (\<lambda>start16.
     if strcmp walPath start16 \<ge> 0 then
       (case stop r of
          None \<Rightarrow> Inr True
        | Some stop' \<Rightarrow> bindE (strSubN stop' 0 16) (\<lambda>stop16.
            if strcmp walPath stop16 \<le> 0 then Inr True else walPathKept walPath rs))
     else walPathKept walPath rs)"

text \<open>Is a WAL file in one of the ranges?\<close>

fun walFileKept :: "string \<Rightarrow> ArchiveRange list \<Rightarrow> bool result" where
  "walFileKept walSubPath [] = Inr False"
| "walFileKept walSubPath (r # rs) =
     bindE (strSubN walSubPath 0 24) (\<lambda>segment.
     if strcmp segment (start r) \<ge> 0 \<and>
        (case stop r of None \<Rightarrow> True | Some stop' \<Rightarrow> strcmp segment stop' \<le> 0)
     then Inr True else walFileKept walSubPath rs)"

text \<open>The ranges of the backups of a cluster up to the retention backup, whose range is open.\<close>

definition archiveRangeOf :: "string \<Rightarrow> InfoBackupData \<Rightarrow> ArchiveRange list" where
  "archiveRangeOf retentionLabel b = (case backupArchiveStart b of
     None \<Rightarrow> []
   | Some st \<Rightarrow>
       if strcmp (backupLabel b) retentionLabel \<le> 0
       then [\<lparr>start = st, stop = (if strcmp (backupLabel b) retentionLabel \<noteq> 0 then backupArchiveStop b else None)\<rparr>]
       else [])"

definition archiveRangeList :: "string \<Rightarrow> InfoBackupData list \<Rightarrow> ArchiveRange list" where
  "archiveRangeList retentionLabel bs = concat (map (archiveRangeOf retentionLabel) bs)"

definition archiveExpireMaxOf :: "string \<Rightarrow> InfoBackupData list \<Rightarrow> string option" where
  "archiveExpireMaxOf retentionLabel bs =
     (case filter (\<lambda>b. strcmp (backupLabel b) retentionLabel = 0 \<and> backupArchiveStart b \<noteq> None) bs of
        [] \<Rightarrow> None | cs \<Rightarrow> backupArchiveStart (last cs))"

section \<open>Removing WAL\<close>

definition expireWalFile :: "ExpireConfig \<Rightarrow> string \<Rightarrow> string \<Rightarrow> ArchiveRange list \<Rightarrow> string \<Rightarrow> (Expire, unit) prog" where
  "expireWalFile cfg archiveId walPath ranges walSubPath =
     bindP (liftP (walFileKept walSubPath ranges)) (\<lambda>kept.
     whenP (\<not> kept \<and> \<not> dryRun cfg) (storageRemove [''archive'', archiveId, walPath, walSubPath]))"

definition expireWalPath ::
  "ExpireConfig \<Rightarrow> string \<Rightarrow> ArchiveRange list \<Rightarrow> string option \<Rightarrow> string \<Rightarrow> (Expire, unit) prog" where
  "expireWalPath cfg archiveId ranges archiveExpireMax walPath =
     bindP (liftP (walPathKept walPath ranges)) (\<lambda>kept.
     if \<not> kept then whenP (\<not> dryRun cfg) (storagePathRemove [''archive'', archiveId, walPath])
     else
       bindP (liftP (case archiveExpireMax of None \<Rightarrow> Inl AssertError | Some m \<Rightarrow> strSubN m 0 16)) (\<lambda>max16.
       if strcmp walPath max16 \<le> 0 then
         bindP (storageList [''archive'', archiveId, walPath] ''^[0-F]{24}.*$'') (\<lambda>walSubPathList.
         forP (strLstSort walSubPathList sortOrderAsc) (expireWalFile cfg archiveId walPath ranges))
       else retP ()))"

definition expireHistoryFile :: "ExpireConfig \<Rightarrow> string \<Rightarrow> string \<Rightarrow> string \<Rightarrow> (Expire, unit) prog" where
  "expireHistoryFile cfg archiveId timeline historyFile =
     bindP (liftP (strSubN historyFile 0 8)) (\<lambda>t.
     whenP (strcmp t timeline < 0 \<and> \<not> dryRun cfg) (storageRemove [''archive'', archiveId, historyFile]))"

definition expireArchiveFiles ::
  "ExpireConfig \<Rightarrow> string \<Rightarrow> InfoBackupData list \<Rightarrow> string \<Rightarrow> string \<Rightarrow> (Expire, unit) prog" where
  "expireArchiveFiles cfg archiveId archiveIdBackupList retentionLabel retentionStart =
     (let ranges = archiveRangeList retentionLabel archiveIdBackupList;
          archiveExpireMax = archiveExpireMaxOf retentionLabel archiveIdBackupList
      in bindP (storageList [''archive'', archiveId] ''^[0-F]{16}$'') (\<lambda>walPathList.
         bindP (forP (strLstSort walPathList sortOrderAsc) (expireWalPath cfg archiveId ranges archiveExpireMax)) (\<lambda>_.
         bindP (liftP (strSubN retentionStart 0 8)) (\<lambda>backupArchiveStartTimeline.
         bindP (storageList [''archive'', archiveId] ''^[0-F]{8}.history$'') (\<lambda>historyFilesList.
         forP (strLstSort historyFilesList sortOrderAsc) (expireHistoryFile cfg archiveId backupArchiveStartTimeline))))))"

text \<open>From the labels of the retention, those of the backups of one cluster, oldest first.\<close>

definition localRetention :: "InfoBackupData list \<Rightarrow> nat \<Rightarrow> string list \<Rightarrow> string list" where
  "localRetention bs archivePgId globalBackupRetentionList =
     concat (map (\<lambda>l. labels (filter (\<lambda>b. strcmp (backupLabel b) l = 0 \<and> backupPgId b = archivePgId) bs))
       (rev globalBackupRetentionList))"

definition localArchiveRetention :: "string list \<Rightarrow> string list \<Rightarrow> string list" where
  "localArchiveRetention localList globalArchiveList =
     (let l = concat (map (\<lambda>g. filter (\<lambda>x. strcmp g x = 0) localList) (rev globalArchiveList))
      in if l = [] then [last localList] else l)"

text \<open>The directory of one archive id.\<close>

definition removeArchiveId ::
  "ExpireConfig \<Rightarrow> InfoBackup \<Rightarrow> InfoPg \<Rightarrow> string list \<Rightarrow> string list \<Rightarrow> string \<Rightarrow> (Expire, unit) prog" where
  "removeArchiveId cfg infoBackup infoArchivePg globalList globalArchiveList archiveId =
     bindP (liftP (archivePgIdOf archiveId)) (\<lambda>archivePgId.
     let localList = localRetention (backup infoBackup) archivePgId globalList
     in if localList = [] then
          bindP (liftP (infoPgDataCurrent infoArchivePg)) (\<lambda>currentPg.
          whenP (id_pg currentPg \<noteq> archivePgId \<and> \<not> dryRun cfg) (storagePathRemove (archivePath archiveId)))
        else
          (let retentionLabel = hd (localArchiveRetention localList globalArchiveList)
           in case find (\<lambda>b. strcmp (backupLabel b) retentionLabel = 0) (rev (backup infoBackup)) of
                None \<Rightarrow> retP ()
              | Some archiveRetentionBackup \<Rightarrow>
                  (case backupArchiveStart archiveRetentionBackup of
                     None \<Rightarrow> retP ()
                   | Some retentionStart \<Rightarrow>
                       expireArchiveFiles cfg archiveId
                         (filter (\<lambda>b. backupPgId b = archivePgId) (backup infoBackup))
                         (backupLabel archiveRetentionBackup) retentionStart)))"

text \<open>The histories of archive.info and backup.info must agree.\<close>

fun historyMatch :: "InfoPg \<Rightarrow> InfoPg \<Rightarrow> nat list \<Rightarrow> unit result" where
  "historyMatch infoArchivePg infoBackupPg [] = Inr ()"
| "historyMatch infoArchivePg infoBackupPg (infoPgIdx # idxs) =
     bindE (infoPgData infoArchivePg infoPgIdx) (\<lambda>a.
     bindE (infoPgData infoBackupPg infoPgIdx) (\<lambda>b.
     if id_pg a \<noteq> id_pg b \<or> systemId a \<noteq> systemId b \<or> version a \<noteq> version b then Inl FormatError
     else historyMatch infoArchivePg infoBackupPg idxs))"

definition globalRetention :: "ExpireConfig \<Rightarrow> InfoBackup \<Rightarrow> string list result" where
  "globalRetention cfg infoBackup =
     mapE (\<lambda>l. strLstSort l sortOrderDesc) (labelList infoBackup (case retentionArchiveType cfg of
       backupTypeFull \<Rightarrow> labelParam True False False
     | backupTypeDiff \<Rightarrow> labelParam True True False
     | backupTypeIncr \<Rightarrow> labelParam True True True))"

text \<open>The directories on disk with the name of an archive id: at most one, since names are unique.\<close>

definition removeArchiveDirs ::
  "ExpireConfig \<Rightarrow> InfoBackup \<Rightarrow> InfoPg \<Rightarrow> string list \<Rightarrow> string list \<Rightarrow> string list \<Rightarrow> nat \<Rightarrow> (Expire, unit) prog" where
  "removeArchiveDirs cfg infoBackup infoArchivePg globalList globalArchiveList listArchiveDisk pgIdx =
     bindP (liftP (infoPgArchiveId infoArchivePg pgIdx)) (\<lambda>archiveId.
     forP (filter (\<lambda>d. strcmp archiveId d = 0) listArchiveDisk)
       (\<lambda>_. removeArchiveId cfg infoBackup infoArchivePg globalList globalArchiveList archiveId))"

text \<open>The archive retention, when it is set.\<close>

definition expireArchiveIds :: "ExpireConfig \<Rightarrow> InfoBackup \<Rightarrow> nat \<Rightarrow> (Expire, unit) prog" where
  "expireArchiveIds cfg infoBackup archiveRetention =
     bindP (liftP (globalRetention cfg infoBackup)) (\<lambda>globalList.
     if globalList \<noteq> [] \<and> archiveRetention \<le> length globalList then
       bindP (\<lambda>s. (archiveInfoFile s, s)) (\<lambda>infoArchivePg.
       bindP (storageList [''archive''] (''^[0-9]+('' @ [CHR 0x5C] @ ''.[0-9]+)*-[0-9]+$'')) (\<lambda>archiveDisk.
       bindP (liftP (historyMatch infoArchivePg (infoPg infoBackup) [0..<infoPgDataTotal infoArchivePg])) (\<lambda>_.
       forP (rev [0..<infoPgDataTotal infoArchivePg])
         (removeArchiveDirs cfg infoBackup infoArchivePg globalList (take archiveRetention globalList)
            (msort archiveIdComparator archiveDisk)))))
     else retP ())"

definition removeExpiredArchive :: "ExpireConfig \<Rightarrow> InfoBackup \<Rightarrow> (Expire, unit) prog" where
  "removeExpiredArchive cfg infoBackup =
     bindP (getP (\<lambda>s. case retentionArchive s of Some n \<Rightarrow> n | None \<Rightarrow> 0)) (\<lambda>archiveRetention.
     if archiveRetention = 0 then retP () else expireArchiveIds cfg infoBackup archiveRetention)"

section \<open>Ranges protect\<close>

definition inRange :: "string \<Rightarrow> ArchiveRange \<Rightarrow> bool" where
  "inRange segment r \<longleftrightarrow> strcmp (start r) segment \<le> 0 \<and> (\<forall>sp. stop r = Some sp \<longrightarrow> strcmp segment sp \<le> 0)"

lemma strcmp_take: "strcmp x y \<le> 0 \<Longrightarrow> strcmp (take n x) (take n y) \<le> 0"
proof (induction x y arbitrary: n rule: strcmp.induct)
  case (4 a as b bs)
  then show ?case by (cases n) (auto split: if_splits)
next
  case (2 b bs)
  then show ?case by (cases n) auto
qed auto

lemma strcmp_ge_flip: "0 \<le> strcmp x y \<longleftrightarrow> strcmp y x \<le> 0"
  using strcmp_flip [of x y] by simp

lemma walFileKept_protects: "r \<in> set rs \<Longrightarrow> inRange (take 24 f) r \<Longrightarrow> walFileKept f rs \<noteq> Inr False"
  by (induction rs) (auto simp: strSubN_def inRange_def strcmp_ge_flip split: option.splits)

lemma walPathKept_protects: "r \<in> set rs \<Longrightarrow> inRange x r \<Longrightarrow> walPathKept (take 16 x) rs \<noteq> Inr False"
  by (induction rs) (auto simp: strSubN_def inRange_def strcmp_ge_flip strcmp_take split: option.splits)

section \<open>Removals outside the ranges\<close>

lemma keeps_expireWalFile:
  assumes "\<And>kept. walFileKept f ranges = Inr kept \<Longrightarrow> e = [''archive'', a, d, f] \<Longrightarrow> kept"
  shows "keeps (\<lambda>s. e \<in> set (entries s)) (expireWalFile cfg a d ranges f)"
  unfolding expireWalFile_def
  by (rule keeps_liftP_bind, rule keeps_when, rule repo_keeps(1)) (use assms in blast)

lemma keeps_expireWalPath:
  assumes "r \<in> set ranges" "inRange (take 24 f) r"
  shows "keeps (\<lambda>s. [''archive'', a, take 16 f, f] \<in> set (entries s)) (expireWalPath cfg a ranges m d)"
proof (cases "d = take 16 f")
  case True
  have "walPathKept d ranges \<noteq> Inr False"
    using walPathKept_protects [OF assms] by (simp add: True min_def)
  moreover have "keeps (\<lambda>s. [''archive'', a, take 16 f, f] \<in> set (entries s)) (expireWalFile cfg a d ranges g)" for g
    using walFileKept_protects [OF assms] by (intro keeps_expireWalFile) auto
  ultimately show ?thesis
    unfolding expireWalPath_def
    by (intro keeps_liftP_bind keeps_if keeps_intros keeps_for) auto
next
  case False
  show ?thesis
    unfolding expireWalPath_def
    by (intro keeps_liftP_bind keeps_if keeps_when keeps_bind keeps_storageList keeps_for keeps_basic
        repo_keeps(2) keeps_expireWalFile) (use False in \<open>auto simp: under_def\<close>)
qed

lemma keeps_other_wal:
  assumes "e = [''archive'', a, d, f]" "a \<noteq> a'"
  shows "keeps (\<lambda>s. e \<in> set (entries s)) (expireWalPath cfg a' ranges m d')"
  unfolding expireWalPath_def
  by (intro keeps_liftP_bind keeps_if keeps_when keeps_bind keeps_storageList keeps_for keeps_basic
      repo_keeps(2) keeps_expireWalFile) (use assms in \<open>auto simp: under_def\<close>)

lemma keeps_expireHistoryFile:
  "e = [''archive'', a, d, f] \<Longrightarrow> keeps (\<lambda>s. e \<in> set (entries s)) (expireHistoryFile cfg a' tml h)"
  unfolding expireHistoryFile_def
  by (intro keeps_liftP_bind keeps_when repo_keeps(1)) auto

lemma keeps_expireArchiveFiles:
  assumes "e = [''archive'', a, take 16 f, f]"
    and "a = a' \<Longrightarrow> \<exists>r \<in> set (archiveRangeList label bs). inRange (take 24 f) r"
  shows "keeps (\<lambda>s. e \<in> set (entries s)) (expireArchiveFiles cfg a' bs label st)"
proof -
  have "keeps (\<lambda>s. e \<in> set (entries s)) (expireWalPath cfg a' (archiveRangeList label bs) m d)" for m d
    using assms keeps_expireWalPath [of _ _ f] keeps_other_wal by (cases "a = a'") blast+
  then show ?thesis
    unfolding expireArchiveFiles_def Let_def
    by (intro keeps_bind keeps_storageList keeps_for keeps_basic keeps_expireHistoryFile [OF assms(1)]) auto
qed

section \<open>The retention of a cluster\<close>

text \<open>
  A backup belongs to the cluster of its prior, and in one cluster the WAL start of a later
  backup is not before that of an earlier one.
\<close>

definition cluster_wf :: "InfoBackupData list \<Rightarrow> bool" where
  "cluster_wf bs \<longleftrightarrow>
     (\<forall>b \<in> set bs. \<forall>c \<in> set bs. backupPrior b = Some (backupLabel c) \<longrightarrow> backupPgId c = backupPgId b) \<and>
     (\<forall>b \<in> set bs. \<forall>c \<in> set bs. \<forall>x y. backupPgId b = backupPgId c \<longrightarrow> strcmp (backupLabel b) (backupLabel c) \<le> 0 \<longrightarrow>
        backupArchiveStart b = Some x \<longrightarrow> backupArchiveStart c = Some y \<longrightarrow> strcmp x y \<le> 0)"

lemma depends_cluster:
  assumes "backups_wf bs" "cluster_wf bs" "depends bs f x" "c \<in> set bs" "backupLabel c = f" "b \<in> set bs" "backupLabel b = x"
  shows "backupPgId b = backupPgId c"
  using assms(3,5-7)
proof (induction arbitrary: b rule: depends.induct)
  case (depends_refl l)
  then show ?case using label_inj [of bs b c] assms(1,4) by (auto simp: backups_wf_def)
next
  case (depends_step l p d)
  then have "b = d" using label_inj [of bs b d] assms(1) by (auto simp: backups_wf_def)
  moreover have "p \<in> set (labels bs)" using assms(1) depends_step.hyps by (auto simp: backups_wf_def dep_closed_def)
  then obtain q where q: "q \<in> set bs" "backupLabel q = p" by auto
  moreover have "backupPgId q = backupPgId c" using depends_step q by blast
  moreover have "backupPgId q = backupPgId d" using assms(2) q depends_step by (auto simp: cluster_wf_def)
  ultimately show ?case by simp
qed

lemma globalRetention_eq:
  obtains sel where "globalRetention cfg info = Inr (strLstSort (filter sel (labels (backup info))) sortOrderDesc)"
    "\<And>l. isFull l \<Longrightarrow> sel l"
proof (cases "retentionArchiveType cfg")
  case backupTypeFull
  then show ?thesis using that [of isFull] by (simp add: globalRetention_def labelList_full)
next
  case backupTypeDiff
  then show ?thesis using that [of "\<lambda>l. isFull l \<or> isDiff l"] by (simp add: globalRetention_def labelList_fullDiff)
next
  case backupTypeIncr
  then show ?thesis using that [of "\<lambda>l. labelType l \<noteq> None"] by (simp add: globalRetention_def labelList_eq labelSelect)
qed

lemma localRetention_set:
  "set (localRetention bs n g) = {l \<in> set g. \<exists>b \<in> set bs. backupLabel b = l \<and> backupPgId b = n}"
  by (auto simp: localRetention_def)

lemma localRetention_ne:
  assumes "backups_wf (backup info)" "types_wf (backup info)" "cluster_wf (backup info)"
    and "globalRetention cfg info = Inr g" "b \<in> set (backup info)"
  shows "localRetention (backup info) (backupPgId b) g \<noteq> []"
proof -
  obtain sel where sel: "g = strLstSort (filter sel (labels (backup info))) sortOrderDesc" "\<And>l. isFull l \<Longrightarrow> sel l"
    using globalRetention_eq [of cfg info] assms(4) by (metis Inr_inject)
  obtain f where f: "f \<in> set (labels (backup info))" "isFull f" "depends (backup info) f (backupLabel b)"
    using depends_root [OF assms(1,2,5)] by blast
  then obtain c where c: "c \<in> set (backup info)" "backupLabel c = f" by auto
  then have "backupPgId b = backupPgId c" using depends_cluster [OF assms(1,3) f(3)] assms(5) by blast
  then have "f \<in> set (localRetention (backup info) (backupPgId b) g)" using c f sel by (auto simp: localRetention_set)
  then show ?thesis by (metis empty_iff list.set(1))
qed

lemma sorted_blocks:
  "str_sorted gs \<Longrightarrow> str_sorted (concat (map (\<lambda>g. filter (\<lambda>x. strcmp g x = 0) xs) gs))"
proof (induction gs)
  case (Cons g gs)
  have "str_sorted (filter ((=) g) xs)" by (induction xs) auto
  then show ?case using Cons by (auto simp: sorted_wrt_append)
qed simp

lemma str_sorted_hd: "str_sorted xs \<Longrightarrow> x \<in> set xs \<Longrightarrow> strcmp (hd xs) x \<le> 0"
  by (cases xs) auto

lemma localArchiveRetention_hd:
  assumes "loc \<noteq> []" "sorted_wrt (\<lambda>x y. strcmp y x \<le> 0) ga"
  defines "R \<equiv> hd (localArchiveRetention loc ga)"
  shows "R \<in> set loc" and "l \<in> set ga \<Longrightarrow> l \<in> set loc \<Longrightarrow> strcmp R l \<le> 0"
proof -
  let ?L = "concat (map (\<lambda>g. filter (\<lambda>x. strcmp g x = 0) loc) (rev ga))"
  have set: "set ?L = {x \<in> set loc. x \<in> set ga}" by auto
  have srt: "str_sorted ?L" by (rule sorted_blocks) (simp add: sorted_wrt_rev assms(2))
  have R: "R = (if ?L = [] then last loc else hd ?L)" by (simp add: R_def localArchiveRetention_def Let_def)
  show "R \<in> set loc"
  proof (cases "?L = []")
    case True
    then show ?thesis using R assms(1) last_in_set by metis
  next
    case False
    then show ?thesis using R set hd_in_set [OF False] by auto
  qed
  assume "l \<in> set ga" "l \<in> set loc"
  then have "l \<in> set ?L" unfolding set by simp
  moreover from this have "?L \<noteq> []" by (metis empty_iff list.set(1))
  ultimately show "strcmp R l \<le> 0" using R str_sorted_hd [OF srt] by presburger
qed

lemma archiveRange_in: "b \<in> set bs \<Longrightarrow> r \<in> set (archiveRangeOf l b) \<Longrightarrow> r \<in> set (archiveRangeList l bs)"
  by (auto simp: archiveRangeList_def)

lemma retention_in_range:
  assumes "backups_wf bs" "cluster_wf bs" "b \<in> set bs" "rb \<in> set bs" "backupPgId rb = backupPgId b"
    and "backupArchiveStart b = Some st" "backupArchiveStart rb = Some rs" "strcmp st segment \<le> 0"
    and "(\<exists>sp. backupArchiveStop b = Some sp \<and> strcmp segment sp \<le> 0) \<or> strcmp (backupLabel rb) (backupLabel b) \<le> 0"
  shows "\<exists>r \<in> set (archiveRangeList (backupLabel rb) (filter (\<lambda>c. backupPgId c = backupPgId b) bs)). inRange segment r"
proof (cases "strcmp (backupLabel rb) (backupLabel b) \<le> 0")
  case True
  then have "strcmp rs st \<le> 0" using assms(2) assms(3-7) unfolding cluster_wf_def by blast
  then have "strcmp rs segment \<le> 0" using assms(8) by (rule strcmp_trans)
  moreover have "\<lparr>start = rs, stop = None\<rparr> \<in> set (archiveRangeList (backupLabel rb) (filter (\<lambda>c. backupPgId c = backupPgId b) bs))"
    by (rule archiveRange_in [of rb]) (use assms(4,5,7) in \<open>simp_all add: archiveRangeOf_def\<close>)
  ultimately show ?thesis by (intro bexI [of _ "\<lparr>start = rs, stop = None\<rparr>"]) (simp_all add: inRange_def)
next
  case False
  then obtain sp where sp: "backupArchiveStop b = Some sp" "strcmp segment sp \<le> 0" using assms(9) by blast
  have "strcmp (backupLabel b) (backupLabel rb) < 0" using False strcmp_flip [of "backupLabel b" "backupLabel rb"] by simp
  then have "backupLabel b \<noteq> backupLabel rb" "strcmp (backupLabel b) (backupLabel rb) \<le> 0" by auto
  then have "\<lparr>start = st, stop = Some sp\<rparr> \<in> set (archiveRangeList (backupLabel rb) (filter (\<lambda>c. backupPgId c = backupPgId b) bs))"
    by (intro archiveRange_in [of b]) (use assms(3,6) sp in \<open>simp_all add: archiveRangeOf_def\<close>)
  then show ?thesis using assms(8) sp
    by (intro bexI [of _ "\<lparr>start = st, stop = Some sp\<rparr>"]) (simp_all add: inRange_def)
qed

lemma keeps_removeArchiveId:
  assumes wf: "backups_wf (backup info)" "types_wf (backup info)" "cluster_wf (backup info)"
    and g: "globalRetention cfg info = Inr g" "ga = take k g"
    and b: "b \<in> set (backup info)" "archivePgIdOf a = Inr (backupPgId b)" "backupArchiveStart b = Some st"
    and seg: "strcmp st (take 24 f) \<le> 0"
      "(\<exists>sp. backupArchiveStop b = Some sp \<and> strcmp (take 24 f) sp \<le> 0) \<or> backupLabel b \<in> set ga"
  shows "keeps (\<lambda>s. [''archive'', a, take 16 f, f] \<in> set (entries s)) (removeArchiveId cfg info ip g ga a')"
proof (cases "a' = a")
  case True
  let ?bs = "backup info" let ?loc = "localRetention ?bs (backupPgId b) g" let ?R = "hd (localArchiveRetention ?loc ga)"
  have ne: "?loc \<noteq> []" using localRetention_ne [OF wf g(1) b(1)] .
  obtain sel where "g = strLstSort (filter sel (labels ?bs)) sortOrderDesc"
    using globalRetention_eq [of cfg info] g(1) by (metis Inr_inject)
  then have srt: "sorted_wrt (\<lambda>x y. strcmp y x \<le> 0) ga" using strLstSort_desc g(2) by (simp add: sorted_wrt_take)
  have Rin: "?R \<in> set ?loc" using localArchiveRetention_hd(1) [OF ne srt] .
  show ?thesis
  proof (cases "find (\<lambda>b. strcmp (backupLabel b) ?R = 0) (rev ?bs)")
    case None
    then show ?thesis using True b(2) ne by (simp add: removeArchiveId_def keeps_def run_simps)
  next
    case (Some rb)
    then have rb: "rb \<in> set ?bs" "backupLabel rb = ?R"
      using nth_mem [of _ "rev ?bs"] by (fastforce simp: find_Some_iff)+
    moreover obtain c where "c \<in> set ?bs" "backupLabel c = ?R" "backupPgId c = backupPgId b"
      using Rin by (auto simp: localRetention_set)
    ultimately have id: "backupPgId rb = backupPgId b" using label_inj [of ?bs rb c] wf(1) by (auto simp: backups_wf_def)
    show ?thesis
    proof (cases "backupArchiveStart rb")
      case None
      then show ?thesis using True Some b(2) ne by (simp add: removeArchiveId_def keeps_def run_simps)
    next
      case (Some rs)
      have "backupLabel b \<in> set ga \<Longrightarrow> strcmp (backupLabel rb) (backupLabel b) \<le> 0"
        using localArchiveRetention_hd(2) [OF ne srt, of "backupLabel b"] b(1) rb(2) g(2)
        by (auto simp: localRetention_set dest: in_set_takeD)
      then have "\<exists>r \<in> set (archiveRangeList (backupLabel rb) (filter (\<lambda>c. backupPgId c = backupPgId b) ?bs)). inRange (take 24 f) r"
        using retention_in_range [OF wf(1,3) b(1) rb(1) id b(3) Some seg(1)] seg(2) by blast
      then have "keeps (\<lambda>s. [''archive'', a, take 16 f, f] \<in> set (entries s))
          (expireArchiveFiles cfg a (filter (\<lambda>c. backupPgId c = backupPgId b) ?bs) (backupLabel rb) rs)"
        by (intro keeps_expireArchiveFiles [OF refl])
      moreover have "removeArchiveId cfg info ip g ga a' =
          expireArchiveFiles cfg a (filter (\<lambda>c. backupPgId c = backupPgId b) ?bs) (backupLabel rb) rs"
        using True b(2) ne Some \<open>find _ (rev ?bs) = Some rb\<close> by (simp add: removeArchiveId_def fun_eq_iff run_simps)
      ultimately show ?thesis by simp
    qed
  qed
next
  case False
  then show ?thesis
    unfolding removeArchiveId_def Let_def
    by (intro keeps_liftP_bind keeps_if keeps_when repo_keeps(2))
      (auto simp: under_def archivePath_def split: option.split intro!: keeps_basic keeps_expireArchiveFiles)
qed

section \<open>Properties\<close>

text \<open>
  C2. WAL that is needed stays. However removeExpiredArchive ends, it keeps every WAL file of the
  archive of a cluster that lies between the archive start and stop of a backup of that cluster
  in backup.info, and every WAL file from the archive start of a backup within the archive
  retention on, so that the backups stay consistent and those in retention can be played forward.
  The lists are those the command works with: ordered and closed under dependency, a backup
  in the cluster of its prior, and WAL positions that grow with the labels.
\<close>

theorem expire_wal_safe:
  assumes "backups_wf (backup info)" "types_wf (backup info)" "cluster_wf (backup info)"
    and "b \<in> set (backup info)" "archivePgIdOf archiveId = Inr (backupPgId b)" "backupArchiveStart b = Some st"
    and "strcmp st (take 24 file) \<le> 0"
    and "(\<exists>sp. backupArchiveStop b = Some sp \<and> strcmp (take 24 file) sp \<le> 0) \<or>
      (\<exists>g n. globalRetention cfg info = Inr g \<and> retentionArchive s = Some n \<and> backupLabel b \<in> set (take n g))"
    and "[''archive'', archiveId, take 16 file, file] \<in> set (entries s)"
  shows "[''archive'', archiveId, take 16 file, file] \<in> set (entries (snd (removeExpiredArchive cfg info s)))"
proof -
  let ?P = "\<lambda>s. [''archive'', archiveId, take 16 file, file] \<in> set (entries s)"
  define n where "n = (case retentionArchive s of Some n \<Rightarrow> n | None \<Rightarrow> 0)"
  have dirs: "keeps ?P (removeArchiveDirs cfg info ip g (take n g) disk i)" if "globalRetention cfg info = Inr g" for ip g disk i
  proof -
    have "(\<exists>sp. backupArchiveStop b = Some sp \<and> strcmp (take 24 file) sp \<le> 0) \<or> backupLabel b \<in> set (take n g)"
      using assms(8) that by (auto simp: n_def)
    then show ?thesis
      unfolding removeArchiveDirs_def
      by (intro keeps_bind keeps_basic keeps_for keeps_removeArchiveId [OF assms(1-3) that refl assms(4-7)])
  qed
  have "keeps ?P (expireArchiveIds cfg info n)"
    unfolding expireArchiveIds_def
    by (intro keeps_if keeps_basic keeps_liftP_bind keeps_bind keeps_storageList keeps_for dirs) (auto simp: keeps_def)
  then have "?P (snd (expireArchiveIds cfg info n s))" using assms(9) by (rule keepsD)
  then show ?thesis using assms(9) by (simp add: removeExpiredArchive_def run_simps flip: n_def)
qed

lemma sample_archiveId: "archivePgIdOf ''9.4-1'' = Inr 1"
  by (simp add: archivePgIdOf_def strLstNewSplit.simps strLstGet_def cvtZToUInt_def cvtZToUIntBase_def
      cvtZToUInt64Internal_def strtoull_def strtoParse_def isspaceC_def digitValue_def cvtZToIntValid_def)

lemma sample_cluster: "cluster_wf (backup sampleInfo)"
  by (simp add: cluster_wf_def sampleInfo_def sampleBackup_def)

theorem expire_wal_safe_witness:
  "[''archive'', ''9.4-1'', ''0000000100000000'', ''000000010000000000000003.gz''] \<in>
     set (entries (snd (removeExpiredArchive sampleConfig sampleInfo
       (sampleExpire\<lparr>retentionArchive := Some 1,
          entries := [[''archive'', ''9.4-1'', ''0000000100000000'', ''000000010000000000000003.gz'']]\<rparr>))))"
proof -
  let ?b = "sampleBackup ''20191002-070640F'' backupTypeFull None ''000000010000000000000002'' ''000000010000000000000003''"
  let ?s = "sampleExpire\<lparr>retentionArchive := Some 1,
    entries := [[''archive'', ''9.4-1'', ''0000000100000000'', ''000000010000000000000003.gz'']]\<rparr>"
  have "?b \<in> set (backup sampleInfo)" "archivePgIdOf ''9.4-1'' = Inr (backupPgId ?b)"
    "backupArchiveStart ?b = Some ''000000010000000000000002''" "backupArchiveStop ?b = Some ''000000010000000000000003''"
    by (simp_all add: sampleInfo_def sampleBackup_def sample_archiveId)
  then show ?thesis
    using expire_wal_safe [OF sampleInfo_wf sampleInfo_types sample_cluster, of ?b "''9.4-1''" "''000000010000000000000002''"
        "''000000010000000000000003.gz''" sampleConfig ?s] by simp
qed

end
