(* ===== verification/Reconstruct.thy ===== *)
theory Reconstruct
  imports Repository
begin

text \<open>
  Loading backup.info with reconstruction and saving it (src/info/infoBackup.c): backups whose
  manifest is no longer in the repository leave the list together with what depends on them, and
  completed backups of a known cluster that are in the repository but not in the list are added.
\<close>

section \<open>Loading\<close>

definition allLabels :: BackupRegExpParam where
  "allLabels = \<lparr>full = True, differential = True, incremental = True, noAnchorEnd = False\<rparr>"

text \<open>The first loop: one backup of the list.\<close>

definition reconstructRemove :: "path list \<Rightarrow> InfoBackup \<Rightarrow> string \<Rightarrow> InfoBackup" where
  "reconstructRemove es infoBackup label =
     (if manifestPath label \<notin> set es \<and> infoBackupDataByLabel infoBackup label \<noteq> None
      then foldl infoBackupDataDelete infoBackup
             (strLstSort (infoBackupDataDependentList infoBackup label) sortOrderDesc)
      else infoBackup)"

text \<open>Does a cluster of the history match the manifest, and is its prior backup in the list?\<close>

definition historyFound :: "InfoBackup \<Rightarrow> ManifestData \<Rightarrow> bool" where
  "historyFound infoBackup manData =
     list_ex (\<lambda>pg. pgId_md manData = id_pg pg \<and> pgSystemId_md manData = systemId pg \<and> pgVersion_md manData = version pg \<and>
       (case backupLabelPrior manData of None \<Rightarrow> True | Some p \<Rightarrow> infoBackupDataByLabel infoBackup p \<noteq> None))
     (history (infoPg infoBackup))"

text \<open>The second loop: the backups of the repository that are not in the list of current backups.\<close>

fun reconstructAdd ::
  "(string \<Rightarrow> Manifest result) \<Rightarrow> path list \<Rightarrow> string list \<Rightarrow> string list \<Rightarrow> InfoBackup \<Rightarrow> InfoBackup result" where
  "reconstructAdd load es current [] infoBackup = Inr infoBackup"
| "reconstructAdd load es current (label # ls) infoBackup =
     (if \<not> strLstExists current label \<and> manifestPath label \<in> set es then
        bindE (load label) (\<lambda>manifest.
        reconstructAdd load es current ls
          (if historyFound infoBackup (manifestData manifest) then infoBackupDataAdd infoBackup manifest else infoBackup))
      else reconstructAdd load es current ls infoBackup)"

definition infoBackupLoadFileReconstruct :: "('a Repo_scheme, InfoBackup) prog" where
  "infoBackupLoadFileReconstruct =
     bindP (\<lambda>s. (backupInfoFile s, s)) (\<lambda>infoBackup.
     bindP (liftP (backupRegExp allLabels)) (\<lambda>expression.
     bindP (storageList [''backup''] expression) (\<lambda>backupNames.
     (\<lambda>s. let backupList = strLstSort backupNames sortOrderAsc;
              infoBackup1 = foldl (reconstructRemove (entries s)) infoBackup
                (strLstSort (labels (backup infoBackup)) sortOrderAsc);
              backupCurrentList = strLstSort (labels (backup infoBackup1)) sortOrderAsc
          in (reconstructAdd (manifestFile s) (entries s) backupCurrentList backupList infoBackup1, s)))))"

section \<open>Saving\<close>

definition infoBackupSaveFile :: "InfoBackup \<Rightarrow> ('a Repo_scheme, unit) prog" where
  "infoBackupSaveFile infoBackup =
     bindP (storagePut [''backup'', ''backup.info'']) (\<lambda>_.
     bindP (modifyP (\<lambda>s. s\<lparr>backupInfoFile := Inr infoBackup\<rparr>)) (\<lambda>_.
     storagePut [''backup'', ''backup.info.copy'']))"

section \<open>Removing backups without manifest\<close>

lemma foldl_delete:
  "label_sorted (backup info) \<Longrightarrow>
   foldl infoBackupDataDelete info ls = info\<lparr>backup := filter (\<lambda>b. backupLabel b \<notin> set ls) (backup info)\<rparr>"
proof (induction ls arbitrary: info)
  case (Cons l ls)
  then show ?case
    by (simp add: infoBackupDataDelete_backup label_sorted_filter InfoBackup.equality)
qed simp

lemma reconstructRemove_backup:
  assumes "backups_wf (backup info)"
  shows "backup (reconstructRemove es info l) =
      (if manifestPath l \<notin> set es then filter (\<lambda>b. \<not> (l \<in> set (labels (backup info)) \<and> depends (backup info) l (backupLabel b))) (backup info)
       else backup info)"
    and "infoPg (reconstructRemove es info l) = infoPg info"
  using assms dependentList_set [OF assms, of l] infoBackupDataByLabel_None [of info l]
  by (auto simp: reconstructRemove_def foldl_delete backups_wf_def)

lemma reconstructRemove_wf:
  assumes "backups_wf (backup info)"
  shows "backups_wf (backup (reconstructRemove es info l))"
proof (cases "manifestPath l \<notin> set es \<and> l \<in> set (labels (backup info))")
  case True
  then show ?thesis
    using backups_wf_remove [OF assms, of "depends (backup info) l"] depends_closed
    by (fastforce simp: reconstructRemove_backup [OF assms])
next
  case False
  then have "filter (\<lambda>b. \<not> (l \<in> set (labels (backup info)) \<and> depends (backup info) l (backupLabel b))) (backup info) = backup info \<or>
      manifestPath l \<in> set es" by (auto simp: filter_id_conv)
  then show ?thesis using assms by (auto simp: reconstructRemove_backup [OF assms])
qed

lemma reconstructRemove_fold:
  assumes "backups_wf (backup info)"
  shows "backups_wf (backup (foldl (reconstructRemove es) info ls)) \<and>
    set (backup (foldl (reconstructRemove es) info ls)) \<subseteq> set (backup info) \<and>
    infoPg (foldl (reconstructRemove es) info ls) = infoPg info \<and>
    (\<forall>l \<in> set ls. l \<in> set (labels (backup (foldl (reconstructRemove es) info ls))) \<longrightarrow> manifestPath l \<in> set es)"
  using assms
proof (induction ls arbitrary: info)
  case (Cons l ls)
  let ?info = "reconstructRemove es info l"
  have IH: "backups_wf (backup (foldl (reconstructRemove es) ?info ls))"
    "set (backup (foldl (reconstructRemove es) ?info ls)) \<subseteq> set (backup ?info)"
    "infoPg (foldl (reconstructRemove es) ?info ls) = infoPg ?info"
    "\<forall>l \<in> set ls. l \<in> set (labels (backup (foldl (reconstructRemove es) ?info ls))) \<longrightarrow> manifestPath l \<in> set es"
    using Cons.IH [OF reconstructRemove_wf [OF Cons.prems]] by blast+
  have "set (backup ?info) \<subseteq> set (backup info)" using Cons.prems by (auto simp: reconstructRemove_backup)
  moreover have "l \<notin> set (labels (backup ?info))" if "manifestPath l \<notin> set es"
    using Cons.prems that depends_refl by (auto simp: reconstructRemove_backup)
  ultimately show ?case using IH Cons.prems by (auto simp: reconstructRemove_backup(2))
qed simp

section \<open>Adding backups found in the repository\<close>

text \<open>A manifest in the directory of a backup carries its label and, unless full, an earlier prior.\<close>

definition manifest_ok :: "string \<Rightarrow> Manifest \<Rightarrow> bool" where
  "manifest_ok label m \<longleftrightarrow> backupLabel_md (manifestData m) = label \<and>
     (backupType_md (manifestData m) \<noteq> backupTypeFull \<longrightarrow>
        (\<exists>p. backupLabelPrior (manifestData m) = Some p \<and> strcmp p label < 0))"

lemma add_wf:
  assumes "backups_wf (backup info)" "manifest_ok l m" "l \<notin> set (labels (backup info))" "historyFound info (manifestData m)"
  shows "backups_wf (backup (infoBackupDataAdd info m))"
    and "set (labels (backup (infoBackupDataAdd info m))) = insert l (set (labels (backup info)))"
proof -
  have lab: "backupLabel (infoBackupDataOf m) = l" and pr: "backupPrior (infoBackupDataOf m) =
      (if backupType_md (manifestData m) \<noteq> backupTypeFull then backupLabelPrior (manifestData m) else None)"
    using assms(2) by (simp_all add: infoBackupDataOf_def manifest_ok_def Let_def split: prod.split)
  then show "set (labels (backup (infoBackupDataAdd info m))) = insert l (set (labels (backup info)))"
    by (auto simp: infoBackupDataAdd_set)
  have "label_sorted (backup (infoBackupDataAdd info m))"
    using assms(1,3) lab label_sorted_distinct [of "backup info"]
    by (intro infoBackupDataAdd_sorted) (auto simp: backups_wf_def)
  moreover have "dep_closed (backup (infoBackupDataAdd info m))"
  proof -
    have "p \<in> set (labels (backup info)) \<and> strcmp p l < 0" if "backupPrior (infoBackupDataOf m) = Some p" for p
      using that pr assms(2,4) infoBackupDataByLabel_None [of info p]
      by (auto simp: manifest_ok_def historyFound_def list_ex_iff split: if_splits)
    then show ?thesis using assms(1) lab by (auto simp: dep_closed_def infoBackupDataAdd_set backups_wf_def)
  qed
  ultimately show "backups_wf (backup (infoBackupDataAdd info m))" by (simp add: backups_wf_def)
qed

lemma reconstructAdd_wf:
  assumes "backups_wf (backup info)" "distinct ls"
    and "\<forall>l \<in> set ls. \<forall>m. load l = Inr m \<longrightarrow> manifest_ok l m"
    and "\<forall>l \<in> set (labels (backup info)). manifestPath l \<in> set es" "\<forall>l \<in> set ls. l \<notin> set current \<longrightarrow> l \<notin> set (labels (backup info))"
    and "reconstructAdd load es current ls info = Inr info'"
  shows "backups_wf (backup info') \<and> (\<forall>l \<in> set (labels (backup info')). manifestPath l \<in> set es) \<and>
    set (backup info) \<subseteq> set (backup info') \<and> infoPg info' = infoPg info"
  using assms
proof (induction ls arbitrary: info)
  case (Cons l ls)
  show ?case
  proof (cases "l \<notin> set current \<and> manifestPath l \<in> set es")
    case True
    then obtain m where m: "load l = Inr m" "manifest_ok l m" and
      r: "reconstructAdd load es current ls
        (if historyFound info (manifestData m) then infoBackupDataAdd info m else info) = Inr info'"
      using Cons.prems by (auto simp: bindE_eq_Inr)
    show ?thesis
    proof (cases "historyFound info (manifestData m)")
      case found: True
      have ok: "l \<notin> set (labels (backup info))" using Cons.prems(5) True by simp
      note add = add_wf [OF Cons.prems(1) m(2) ok found]
      have "\<forall>x \<in> set (labels (backup (infoBackupDataAdd info m))). manifestPath x \<in> set es"
        unfolding add(2) using Cons.prems(4) True by simp
      moreover have "\<forall>x \<in> set ls. x \<notin> set current \<longrightarrow> x \<notin> set (labels (backup (infoBackupDataAdd info m)))"
        unfolding add(2) using Cons.prems(2,5) by auto
      moreover have "reconstructAdd load es current ls (infoBackupDataAdd info m) = Inr info'" using r found by simp
      ultimately have "backups_wf (backup info') \<and> (\<forall>l \<in> set (labels (backup info')). manifestPath l \<in> set es) \<and>
          set (backup (infoBackupDataAdd info m)) \<subseteq> set (backup info') \<and> infoPg info' = infoPg (infoBackupDataAdd info m)"
        using Cons.IH [OF add(1)] Cons.prems(2,3) by simp
      then show ?thesis by (auto simp: infoBackupDataAdd_set) (simp add: infoBackupDataAdd_def)
    next
      case False
      then show ?thesis using Cons.IH [of info] Cons.prems r by simp
    qed
  next
    case False
    then have "reconstructAdd load es current ls info = Inr info'" using Cons.prems(6) by auto
    then show ?thesis using Cons.IH [OF Cons.prems(1)] Cons.prems(2-5) by simp
  qed
qed simp

lemma reconstructed:
  assumes "backupInfoFile s = Inr info" "backups_wf (backup info)"
    and "\<forall>l m. manifestFile s l = Inr m \<longrightarrow> manifest_ok l m"
    and "infoBackupLoadFileReconstruct s = (Inr info', s')"
  shows "backups_wf (backup info') \<and> (\<forall>l \<in> set (labels (backup info')). manifestPath l \<in> set (entries s)) \<and>
    infoPg info' = infoPg info \<and> s' = s"
proof -
  let ?cur = "strLstSort (labels (backup info)) sortOrderAsc"
  let ?info1 = "foldl (reconstructRemove (entries s)) info ?cur"
  obtain expression where e: "backupRegExp allLabels = Inr expression"
    by (auto simp: backupRegExp_def allLabels_def)
  obtain names where n: "storageList [''backup''] expression s = (Inr names, s)"
      and r: "reconstructAdd (manifestFile s) (entries s) (strLstSort (labels (backup ?info1)) sortOrderAsc)
        (strLstSort names sortOrderAsc) ?info1 = Inr info'" and s': "s' = s"
  proof (cases "fst (storageList [''backup''] expression s)")
    case (Inl x)
    then have "storageList [''backup''] expression s = (Inl x, s)" using storageList_unchanged by (metis prod.collapse)
    then show ?thesis using assms(1,4) e by (simp add: infoBackupLoadFileReconstruct_def run_simps)
  next
    case (Inr x)
    then have x: "storageList [''backup''] expression s = (Inr x, s)" using storageList_unchanged by (metis prod.collapse)
    show ?thesis
      by (rule that [OF x]) (use x assms(1,4) e in \<open>auto simp: infoBackupLoadFileReconstruct_def run_simps Let_def\<close>)
  qed
  have f: "backups_wf (backup ?info1)" "set (backup ?info1) \<subseteq> set (backup info)" "infoPg ?info1 = infoPg info"
    "\<forall>l \<in> set ?cur. l \<in> set (labels (backup ?info1)) \<longrightarrow> manifestPath l \<in> set (entries s)"
    using reconstructRemove_fold [OF assms(2), of "entries s" ?cur] by blast+
  have "distinct names" using n by (auto simp: storageList_def run_simps split: sum.splits)
  then have d: "distinct (strLstSort names sortOrderAsc)" using strLstSort_mset mset_eq_imp_distinct_iff by metis
  have m: "\<forall>l \<in> set (strLstSort names sortOrderAsc). \<forall>m. manifestFile s l = Inr m \<longrightarrow> manifest_ok l m" using assms(3) by blast
  have p: "\<forall>l \<in> set (labels (backup ?info1)). manifestPath l \<in> set (entries s)" using f(2,4) by auto
  have c: "\<forall>l \<in> set (strLstSort names sortOrderAsc). l \<notin> set (strLstSort (labels (backup ?info1)) sortOrderAsc) \<longrightarrow>
      l \<notin> set (labels (backup ?info1))" by simp
  from reconstructAdd_wf [OF f(1) d m p c r] show ?thesis unfolding f(3) s' by blast
qed

section \<open>Properties\<close>

text \<open>
  C14. Reconstruction. If the backup.info that is loaded is in order and the manifests carry their
  own labels, the list after reconstruction is in order and closed under dependency, every
  backup in it has its manifest in the repository, and the cluster history is unchanged.
\<close>

theorem reconstruct_wf:
  assumes "backupInfoFile s = Inr info" "backups_wf (backup info)"
    and "\<forall>l m. manifestFile s l = Inr m \<longrightarrow> manifest_ok l m"
    and "infoBackupLoadFileReconstruct s = (Inr info', s')"
  shows "backups_wf (backup info') \<and> (\<forall>l \<in> set (labels (backup info')). manifestPath l \<in> set (entries s)) \<and>
    infoPg info' = infoPg info \<and> s' = s"
  using reconstructed [OF assms] .

definition sampleRepo :: Repo where
  "sampleRepo = \<lparr>entries = [], backupInfoFile = Inr sampleInfo, archiveInfoFile = Inl FileMissingError,
     manifestFile = (\<lambda>_. Inl FileMissingError), removeError = (\<lambda>_. None), pathRemoveError = (\<lambda>_. None),
     putError = (\<lambda>_. None),      symLinkFeature = True, latestLink = None\<rparr>"

theorem reconstruct_wf_witness:
  "\<exists>info' s'. infoBackupLoadFileReconstruct sampleRepo = (Inr info', s') \<and> backups_wf (backup info') \<and>
     (\<forall>l \<in> set (labels (backup info')). manifestPath l \<in> set (entries sampleRepo))"
proof -
  obtain e where e: "backupRegExp allLabels = Inr e" "regExpNew e = Inr (labelRx allLabels (RxCat RxEnd RxEmpty))"
    using backupRegExp_parse [of allLabels] by (auto simp: allLabels_def bindE_eq_Inr)
  have "strLstSort [] sortOrderAsc = []" by (simp add: strLstSort_def msort.simps)
  then have "\<exists>info'. infoBackupLoadFileReconstruct sampleRepo = (Inr info', sampleRepo)"
    using e by (simp add: infoBackupLoadFileReconstruct_def run_simps storageList_def sampleRepo_def Let_def)
  then show ?thesis
    using reconstruct_wf [of sampleRepo sampleInfo] sampleInfo_wf by (auto simp: sampleRepo_def)
qed

end
