(* ===== verification/ExpireCommand.thy ===== *)
theory ExpireCommand
  imports ExpireArchive Reconstruct
begin

text \<open>
  The expire command, third part (src/command/expire/expire.c): removing expired backups and backup
  history from the repository, and the command itself over the repositories it is run for. The
  environment of a repository gives the time, the text of a local time and, when the default
  repository is another one, the entries of that repository.
\<close>

record ExpireEnv =
  timeText :: "int \<Rightarrow> string option"
  now :: int
  defaultEntries :: "path list option"

definition SEC_PER_DAY :: int where
  "SEC_PER_DAY = 86400"

section \<open>Expired backups\<close>

text \<open>The index to start from: 1 when the newest backup is resumable and must stay.\<close>

definition resumableIdx :: "InfoBackup \<Rightarrow> string \<Rightarrow> string list \<Rightarrow> (Expire, nat) prog" where
  "resumableIdx infoBackup adhocBackupLabel backupList =
     bindP (liftP (strLstGet backupList 0)) (\<lambda>newest.
     bindP (storageExists (manifestPath newest)) (\<lambda>manifest.
     bindP (storageExists (manifestCopyPath newest)) (\<lambda>manifestCopy.
     if \<not> manifest \<and> manifestCopy then
       bindP (liftP (strSubN adhocBackupLabel 0 16)) (\<lambda>fullLabel.
       if \<not> strBeginsWith newest fullLabel then retP 1
       else
         bindP (\<lambda>s. (manifestFile s newest, s)) (\<lambda>manifestResume.
         case backupLabelPrior (manifestData manifestResume) of
           None \<Rightarrow> throwP AssertError
         | Some prior \<Rightarrow> retP (if infoBackupDataByLabel infoBackup prior \<noteq> None then 1 else 0)))
     else retP 0)))"

definition removeExpiredBackup :: "ExpireConfig \<Rightarrow> InfoBackup \<Rightarrow> string option \<Rightarrow> (Expire, unit) prog" where
  "removeExpiredBackup cfg infoBackup adhocBackupLabel =
     (let currentBackupList = strLstSort (labels (backup infoBackup)) sortOrderDesc
      in bindP (liftP (backupRegExp (labelParam True True True))) (\<lambda>expression.
         bindP (storageList [''backup''] expression) (\<lambda>names.
         let backupList = strLstSort names sortOrderDesc
         in bindP (case adhocBackupLabel of None \<Rightarrow> retP 0 | Some l \<Rightarrow> resumableIdx infoBackup l backupList) (\<lambda>backupIdx.
            forP (drop backupIdx backupList) (\<lambda>label.
              whenP (\<not> strLstExists currentBackupList label \<and> \<not> dryRun cfg) (storagePathRemove (backupPath label)))))))"

section \<open>Expired backup history\<close>

definition storageListDefault :: "ExpireEnv \<Rightarrow> path \<Rightarrow> string \<Rightarrow> (Expire, string list) prog" where
  "storageListDefault env p expression = (case defaultEntries env of
     None \<Rightarrow> storageList p expression
   | Some es \<Rightarrow> liftP (mapE (\<lambda>r. filter (regExpMatch r)
       (remdups (map (\<lambda>e. e ! length p) (filter (\<lambda>e. under p e \<and> length p < length e) es)))) (regExpNew expression)))"

definition historyPath :: path where
  "historyPath = [''backup'', ''backup.history'']"

definition removeHistoryFile :: "ExpireConfig \<Rightarrow> string list \<Rightarrow> string \<Rightarrow> string \<Rightarrow> string \<Rightarrow> (Expire, unit) prog" where
  "removeHistoryFile cfg currentBackupList minBackupLabel historyYear historyBackupFile =
     bindP (liftP (strLstGet (strLstNewSplit historyBackupFile ''.'') 0)) (\<lambda>historyBackupLabel.
     whenP (\<not> strLstExists currentBackupList historyBackupLabel \<and> strcmp historyBackupLabel minBackupLabel < 0 \<and> \<not> dryRun cfg)
       (storageRemove (historyPath @ [historyYear, historyBackupFile])))"

fun removeHistoryYears :: "ExpireConfig \<Rightarrow> ExpireEnv \<Rightarrow> string list \<Rightarrow> string \<Rightarrow> string list \<Rightarrow> (Expire, unit) prog" where
  "removeHistoryYears cfg env currentBackupList minBackupLabel [] = retP ()"
| "removeHistoryYears cfg env currentBackupList minBackupLabel (historyYear # years) =
     bindP (liftP (strSubN minBackupLabel 0 4)) (\<lambda>minYear.
     if strcmp historyYear minYear < 0 then
       bindP (whenP (\<not> dryRun cfg) (storagePathRemove (historyPath @ [historyYear]))) (\<lambda>_.
       removeHistoryYears cfg env currentBackupList minBackupLabel years)
     else if strEq (Some historyYear) (Some minYear) then
       bindP (liftP (backupRegExp ((labelParam True True True)\<lparr>noAnchorEnd := True\<rparr>))) (\<lambda>expression.
       bindP (storageListDefault env (historyPath @ [historyYear])
         (expression @ [CHR 0x5C] @ ''.manifest'' @ [CHR 0x5C] @ ''.gz$'')) (\<lambda>historyList.
       bindP (forP (strLstSort historyList sortOrderDesc) (removeHistoryFile cfg currentBackupList minBackupLabel historyYear)) (\<lambda>_.
       removeHistoryYears cfg env currentBackupList minBackupLabel years)))
     else retP ())"

definition removeExpiredHistory :: "ExpireConfig \<Rightarrow> ExpireEnv \<Rightarrow> InfoBackup \<Rightarrow> (Expire, unit) prog" where
  "removeExpiredHistory cfg env infoBackup = (case retentionHistory cfg of
     None \<Rightarrow> retP ()
   | Some days \<Rightarrow>
       (let currentBackupList = strLstSort (labels (backup infoBackup)) sortOrderDesc;
            minTimestamp = now env - int days * SEC_PER_DAY
        in bindP (liftP (backupLabelFormat (timeText env) backupTypeFull None minTimestamp)) (\<lambda>minBackupLabel.
           bindP (storageListDefault env historyPath ''^2[0-9]{3}$'') (\<lambda>historyYearList.
           removeHistoryYears cfg env currentBackupList minBackupLabel (strLstSort historyYearList sortOrderAsc)))))"

section \<open>The command\<close>

definition expireRetention :: "ExpireConfig \<Rightarrow> ExpireEnv \<Rightarrow> (Expire, unit) prog" where
  "expireRetention cfg env =
     bindP (if retentionFullTime cfg then
              (if retentionFull cfg \<noteq> None
               then expireTimeBasedBackup cfg (now env - int (retentionFullDefaultRepo cfg) * SEC_PER_DAY) else retP 0)
            else expireFullBackup cfg) (\<lambda>_.
     bindP (expireDiffBackup cfg) (\<lambda>_. retP ()))"

text \<open>The body of the loop over the repositories, inside its TRY.\<close>

definition expireRepo :: "ExpireConfig \<Rightarrow> ExpireEnv \<Rightarrow> string option \<Rightarrow> (Expire, unit) prog" where
  "expireRepo cfg env adhocBackupLabel =
     bindP infoBackupLoadFileReconstruct (\<lambda>infoBackup.
     bindP (modifyP (\<lambda>s. s\<lparr>curInfo := infoBackup\<rparr>)) (\<lambda>_.
     bindP (case adhocBackupLabel of
              Some label \<Rightarrow>
                (if infoBackupDataByLabel infoBackup label \<noteq> None
                 then bindP (expireAdhocBackup cfg label) (\<lambda>_. retP ()) else retP ())
            | None \<Rightarrow> expireRetention cfg env) (\<lambda>_.
     bindP (getP curInfo) (\<lambda>infoBackup'.
     bindP (whenP (\<not> dryRun cfg) (infoBackupSaveFile infoBackup')) (\<lambda>_.
     bindP (removeExpiredBackup cfg infoBackup' adhocBackupLabel) (\<lambda>_.
     bindP (removeExpiredArchive cfg infoBackup') (\<lambda>_.
     removeExpiredHistory cfg env infoBackup')))))))"

text \<open>
  The loop over the repositories. An error in one repository is counted and the next one is
  expired. The entries of the default repository are those it has at that moment.
\<close>

fun expireRepos ::
  "string option \<Rightarrow> nat \<Rightarrow> (ExpireConfig \<times> ExpireEnv) list \<Rightarrow> nat list \<Rightarrow> nat \<Rightarrow> Expire list \<Rightarrow> nat \<times> Expire list" where
  "expireRepos adhocBackupLabel repoDefault options [] errorTotal repos = (errorTotal, repos)"
| "expireRepos adhocBackupLabel repoDefault options (repoIdx # idxs) errorTotal repos =
     (let (cfg, env) = options ! repoIdx;
          env' = env\<lparr>defaultEntries := (if repoIdx = repoDefault then None else Some (entries (repos ! repoDefault)))\<rparr>;
          (result, repo) = expireRepo cfg env' adhocBackupLabel (repos ! repoIdx)
      in expireRepos adhocBackupLabel repoDefault options idxs
           (if isl result then Suc errorTotal else errorTotal) (repos[repoIdx := repo]))"

text \<open>
  The command. \<open>checks\<close> is the outcome of the tests for a local repository and a stop file,
  \<open>repoOption\<close> tells whether the repo option is set, which selects the default repository only.
\<close>

definition cmdExpire ::
  "unit result \<Rightarrow> bool \<Rightarrow> string option \<Rightarrow> nat \<Rightarrow> (ExpireConfig \<times> ExpireEnv) list \<Rightarrow> Expire list \<Rightarrow> unit result \<times> Expire list" where
  "cmdExpire checks repoOption adhocBackupLabel repoDefault options repos =
     (case bindE checks (\<lambda>_. case adhocBackupLabel of
             None \<Rightarrow> Inr ()
           | Some label \<Rightarrow>
               bindE (bindE (backupRegExp (labelParam True True True)) (\<lambda>e. regExpMatchOne e label)) (\<lambda>valid.
               if valid then Inr () else Inl OptionInvalidValueError)) of
        Inl e \<Rightarrow> (Inl e, repos)
      | Inr _ \<Rightarrow>
          (let idxs = (if repoOption then [repoDefault] else [0..<length repos]);
               (errorTotal, repos') = expireRepos adhocBackupLabel repoDefault options idxs 0 repos
           in (if errorTotal > 0 then Inl CommandError else Inr (), repos')))"

section \<open>Backups that are listed keep their files\<close>

lemma labelType_all: "(case labelType l of None \<Rightarrow> False | Some t \<Rightarrow> paramSelects (labelParam True True True) t) = (labelType l \<noteq> None)"
proof (cases "labelType l")
  case (Some t)
  then show ?thesis by (cases t) (simp_all add: labelParam_def)
qed simp

lemma label_match:
  "\<exists>e r. backupRegExp (labelParam True True True) = Inr e \<and> regExpNew e = Inr r \<and> (\<forall>l. regExpMatch r l \<longleftrightarrow> labelType l \<noteq> None)"
proof -
  obtain e where e: "backupRegExp (labelParam True True True) = Inr e" by (auto simp: backupRegExp_def labelParam_def)
  have m: "mapE (\<lambda>r. regExpMatch r l) (regExpNew e) = Inr (labelType l \<noteq> None)" for l
    using backupRegExp_match [of "labelParam True True True" l] e labelType_all [of l]
    by (simp add: labelParam_def regExpMatchOne_def)
  show ?thesis
  proof (cases "regExpNew e")
    case (Inl x)
    then show ?thesis using m by simp
  next
    case (Inr r)
    then show ?thesis using m e by auto
  qed
qed

text \<open>The backups of the repository: the names below the backup path that are labels.\<close>

lemma storageList_labels:
  assumes "backupRegExp (labelParam True True True) = Inr e"
  shows "\<exists>xs. storageList [''backup''] e s = (Inr xs, s) \<and> distinct xs \<and>
    set xs = {l. labelType l \<noteq> None \<and> (\<exists>y \<in> set (entries s). under (backupPath l) y)}"
proof -
  obtain r where r: "regExpNew e = Inr r" "\<And>l. regExpMatch r l \<longleftrightarrow> labelType l \<noteq> None" using label_match assms by auto
  have u: "under [''backup''] y \<and> Suc 0 < length y \<and> y ! Suc 0 = l \<longleftrightarrow> under (backupPath l) y" for y l
    by (cases y; cases "tl y") (auto simp: under_def backupPath_def)
  show ?thesis using r(1) by (auto simp: storageList_def run_simps r(2) u [symmetric])
qed

text \<open>The entries that may go: those of backups that are not listed.\<close>

definition unlisted :: "InfoBackup \<Rightarrow> path \<Rightarrow> bool" where
  "unlisted info e \<longleftrightarrow> length e \<ge> 2 \<and> e ! 0 = ''backup'' \<and> labelType (e ! 1) \<noteq> None \<and> e ! 1 \<notin> set (labels (backup info))"

lemma under_backupPath: "under (backupPath l) e \<longleftrightarrow> length e \<ge> 2 \<and> e ! 0 = ''backup'' \<and> e ! 1 = l"
  by (cases e; cases "tl e") (auto simp: under_def backupPath_def)

lemma keeps_bind_result:
  "keeps P m \<Longrightarrow> (\<And>x s s'. m s = (Inr x, s') \<Longrightarrow> keeps P (f x)) \<Longrightarrow> keeps P (bindP m f)"
  by (fastforce simp: keeps_def run_simps split: prod.splits sum.splits)

lemma keeps_resumableIdx: "keeps P (resumableIdx info l bs)"
  unfolding resumableIdx_def
  by (intro keeps_intros) (auto simp: keeps_def run_simps split: option.splits)

lemma backup_phase:
  assumes "\<And>l. \<not> dryRun cfg \<Longrightarrow> labelType l \<noteq> None \<Longrightarrow> l \<notin> set (labels (backup info)) \<Longrightarrow> keeps P (storagePathRemove (backupPath l))"
  shows "keeps P (removeExpiredBackup cfg info adhoc)"
  unfolding removeExpiredBackup_def Let_def
proof (intro keeps_bind_result [OF keeps_storageList] keeps_liftP_bind)
  fix expression names and s s' :: Expire
  assume e: "backupRegExp (labelParam True True True) = Inr expression" and n: "storageList [''backup''] expression s = (Inr names, s')"
  then have ns: "\<forall>l \<in> set names. labelType l \<noteq> None" using storageList_labels [OF e, of s] by auto
  have loop: "keeps P (forP (drop k (strLstSort names sortOrderDesc)) (\<lambda>label.
      whenP (\<not> strLstExists (strLstSort (labels (backup info)) sortOrderDesc) label \<and> \<not> dryRun cfg) (storagePathRemove (backupPath label))))" for k
    using ns by (intro keeps_for keeps_when assms) (fastforce dest: in_set_dropD)+
  show "keeps P (bindP
      (case adhoc of None \<Rightarrow> retP 0 | Some l \<Rightarrow> resumableIdx info l (strLstSort names sortOrderDesc)) (\<lambda>backupIdx.
      forP (drop backupIdx (strLstSort names sortOrderDesc)) (\<lambda>label.
        whenP (\<not> strLstExists (strLstSort (labels (backup info)) sortOrderDesc) label \<and> \<not> dryRun cfg)
          (storagePathRemove (backupPath label)))))"
    by (rule keeps_bind [OF _ loop]) (auto intro: keeps_intros keeps_resumableIdx split: option.splits)
qed

lemma removeLoop_success:
  assumes "forP ls (\<lambda>label. whenP (label \<notin> C) (storagePathRemove (backupPath label))) s = (Inr (), s')"
  shows "set (entries s') = {e \<in> set (entries s). \<forall>l \<in> set ls - C. \<not> under (backupPath l) e}"
  using assms
proof (induction ls arbitrary: s)
  case (Cons l ls)
  then obtain t where t: "whenP (l \<notin> C) (storagePathRemove (backupPath l)) s = (Inr (), t)"
    "forP ls (\<lambda>label. whenP (label \<notin> C) (storagePathRemove (backupPath label))) t = (Inr (), s')"
    by (auto simp: run_bind_Inr)
  have "set (entries t) = {e \<in> set (entries s). l \<notin> C \<longrightarrow> \<not> under (backupPath l) e}"
    using t(1) by (auto simp: run_simps storagePathRemove_def split: if_splits option.splits)
  then show ?case using Cons.IH [OF t(2)] by auto
qed (simp add: run_simps)

lemma removeExpiredBackup_success:
  assumes "removeExpiredBackup cfg info None s = (Inr (), s')" "\<not> dryRun cfg"
  shows "set (entries s') = {e \<in> set (entries s). \<not> unlisted info e}"
proof -
  obtain e where e: "backupRegExp (labelParam True True True) = Inr e" using label_match by blast
  obtain xs where x: "storageList [''backup''] e s = (Inr xs, s)"
    "set xs = {l. labelType l \<noteq> None \<and> (\<exists>y \<in> set (entries s). under (backupPath l) y)}"
    using storageList_labels [OF e, of s] by blast
  have "forP (strLstSort xs sortOrderDesc) (\<lambda>label. whenP (label \<notin> set (labels (backup info))) (storagePathRemove (backupPath label))) s = (Inr (), s')"
    using assms e x(1) by (simp add: removeExpiredBackup_def run_simps)
  from removeLoop_success [OF this] show ?thesis
    by (auto simp: x(2) under_backupPath unlisted_def)
qed

section \<open>What each phase may change\<close>

text \<open>
  An invariant that the removals of a phase keep is an invariant of the phase; in a dry run there
  are no removals.
\<close>

lemma keeps_option: "(x = None \<Longrightarrow> keeps P m) \<Longrightarrow> (\<And>y. x = Some y \<Longrightarrow> keeps P (f y)) \<Longrightarrow>
    keeps P (case x of None \<Rightarrow> m | Some y \<Rightarrow> f y)"
  by (cases x) simp_all

lemma keeps_read [keeps_intros]: "keeps P (\<lambda>s. (g s, s))"
  by (simp add: keeps_def)

lemma archive_phase:
  assumes remove: "\<And>p. \<not> dryRun cfg \<Longrightarrow> keeps P (storageRemove (''archive'' # p))"
    and pathRemove: "\<And>p. \<not> dryRun cfg \<Longrightarrow> keeps P (storagePathRemove (''archive'' # p))"
  shows "keeps P (removeExpiredArchive cfg info)"
proof -
  have one_file: "keeps P (expireWalFile cfg i w rs f)" "keeps P (expireHistoryFile cfg i t f)" for i w rs f t
    unfolding expireWalFile_def expireHistoryFile_def by (intro keeps_intros remove; simp)+
  have path: "keeps P (expireWalPath cfg i rs m w)" for i rs m w
    unfolding expireWalPath_def by (intro keeps_intros keeps_for one_file pathRemove; simp)
  have files: "keeps P (expireArchiveFiles cfg i bs l st)" for i bs l st
    unfolding expireArchiveFiles_def Let_def by (intro keeps_intros keeps_for one_file path)
  have one: "keeps P (removeArchiveId cfg info ip g ga i)" for ip g ga i
    unfolding removeArchiveId_def Let_def archivePath_def
    by (intro keeps_intros keeps_option files pathRemove; simp)
  have dirs: "keeps P (removeArchiveDirs cfg info ip g ga d i)" for ip g ga d i
    unfolding removeArchiveDirs_def by (intro keeps_intros keeps_for one)
  show ?thesis
    unfolding removeExpiredArchive_def expireArchiveIds_def by (intro keeps_intros keeps_for dirs)
qed

lemma year_match: "regExpNew ''^2[0-9]{3}$'' = Inr r \<Longrightarrow> \<not> regExpMatch r ''backup.manifest''"
proof -
  have "mapE (\<lambda>r. regExpMatch r ''backup.manifest'') (regExpNew ''^2[0-9]{3}$'') = Inr False" by code_simp
  then show "regExpNew ''^2[0-9]{3}$'' = Inr r \<Longrightarrow> \<not> regExpMatch r ''backup.manifest''" by simp
qed

lemma history_phase:
  assumes remove: "\<And>y f. \<not> dryRun cfg \<Longrightarrow> keeps P (storageRemove (historyPath @ [y, f]))"
    and pathRemove: "\<And>y. \<not> dryRun cfg \<Longrightarrow> y \<noteq> ''backup.manifest'' \<Longrightarrow> keeps P (storagePathRemove (historyPath @ [y]))"
  shows "keeps P (removeExpiredHistory cfg env info)"
proof -
  have list: "keeps P (storageListDefault env p e)" for p e
    unfolding storageListDefault_def by (intro keeps_option keeps_intros)
  have one_file: "keeps P (removeHistoryFile cfg cur m y f)" for cur m y f
    unfolding removeHistoryFile_def by (intro keeps_intros remove; simp)
  have years: "''backup.manifest'' \<notin> set ys \<Longrightarrow> keeps P (removeHistoryYears cfg env cur m ys)" for cur m ys
    by (induction ys) (auto intro!: keeps_intros keeps_for list one_file pathRemove)
  have names: "''backup.manifest'' \<notin> set ys" if "storageListDefault env historyPath ''^2[0-9]{3}$'' s = (Inr ys, s')" for ys and s s' :: Expire
    using that year_match
    by (auto simp: storageListDefault_def storageList_def run_simps split: option.splits sum.splits)
  show ?thesis
    unfolding removeExpiredHistory_def Let_def
    by (intro keeps_option keeps_intros keeps_bind_result [OF list] years) (use names in auto)
qed

text \<open>The phase that expires backups, one rule for every program that calls expireBackup.\<close>

lemma keeps_sumP: "(\<And>x. keeps P (f x)) \<Longrightarrow> keeps P (sumP xs f)"
  by (induction xs) (auto intro!: keeps_intros)

lemma keeps_pair [keeps_intros]: "(\<And>x y. keeps P (f x y)) \<Longrightarrow> keeps P (case z of (x, y) \<Rightarrow> f x y)"
  by (cases z) simp

lemma expire_phase:
  assumes one: "\<And>l. keeps P (expireBackupOne cfg l)"
    and link: "\<And>l. \<not> dryRun cfg \<Longrightarrow> keeps P (backupLinkLatest l)"
    and archive: "\<And>n. keeps P (modifyP (\<lambda>s. s\<lparr>retentionArchive := n\<rparr>))"
  shows "keeps P (expireRetention cfg env)" "keeps P (expireAdhocBackup cfg label)"
proof -
  have all: "keeps P (expireBackup cfg l)" for l
    unfolding expireBackup_def by (intro keeps_intros keeps_for one)
  have diff: "keeps P (expireDiffBackup cfg)"
    unfolding expireDiffBackup_def expireDiffOne_def Let_def by (intro keeps_intros keeps_sumP all)
  have full: "keeps P (expireFullBackup cfg)"
    unfolding expireFullBackup_def Let_def by (intro keeps_intros keeps_sumP all)
  have loop: "keeps P (timeLoop cfg k n)" for k n
    by (induction n) (auto intro!: keeps_intros all)
  have timed: "keeps P (expireTimeBasedBackup cfg t)" for t
    unfolding expireTimeBasedBackup_def by (intro keeps_intros loop archive [unfolded keeps_def run_simps snd_conv, rule_format])
  show "keeps P (expireRetention cfg env)"
    unfolding expireRetention_def by (intro keeps_intros diff full timed)
  show "keeps P (expireAdhocBackup cfg label)"
    unfolding expireAdhocBackup_def by (intro keeps_intros all link; simp)
qed

section \<open>Dry runs\<close>

lemma keeps_load: "keeps P infoBackupLoadFileReconstruct"
  unfolding infoBackupLoadFileReconstruct_def Let_def by (intro keeps_intros)

lemma dry_expireRepo:
  assumes "dryRun cfg" and frame: "\<And>f s. P (s\<lparr>curInfo := f\<rparr>) = P s" "\<And>n s. P (s\<lparr>retentionArchive := n\<rparr>) = P s"
  shows "keeps P (expireRepo cfg env adhoc)"
proof -
  have one: "keeps P (expireBackupOne cfg l)" for l
    unfolding expireBackupOne_def using assms(1) frame(1) by (intro keeps_intros) simp_all
  show ?thesis
    unfolding expireRepo_def
    by (intro keeps_intros keeps_option keeps_load backup_phase archive_phase history_phase expire_phase one) (use assms in simp_all)
qed

section \<open>Runs that succeed\<close>

text \<open>A successful expiration has removed the manifests it had to, whatever removals could fail.\<close>

lemma storageRemove_success:
  "storageRemove p s = (Inr x, s') \<Longrightarrow> s' = s\<lparr>entries := filter (\<lambda>e. e \<noteq> p) (entries s)\<rparr>"
  by (simp add: storageRemove_def split: option.splits)

lemma expireBackupOne_success:
  assumes "expireBackupOne cfg l s = (Inr x, s')" "label_sorted (backup (curInfo s))"
  shows "s' = expired cfg {l} s"
proof -
  have d: "infoBackupDataDelete i l = i\<lparr>backup := filter (\<lambda>b. backupLabel b \<noteq> l) (backup i)\<rparr>"
    if "label_sorted (backup i)" for i
    using foldl_delete [OF that, of "[l]"] by simp
  show ?thesis
  proof (cases "dryRun cfg")
    case True
    then show ?thesis using assms by (auto simp: expireBackupOne_def run_simps expired_def d)
  next
    case False
    then obtain t u where "storageRemove (manifestPath l) s = (Inr (), t)" "storageRemove (manifestCopyPath l) t = (Inr (), u)"
      "s' = u\<lparr>curInfo := infoBackupDataDelete (curInfo u) l\<rparr>"
      using assms(1) by (auto simp: expireBackupOne_def whenP_def run_bind_Inr modifyP_def)
    then show ?thesis using assms(2) False
      by (auto dest!: storageRemove_success simp: expired_def d conj_commute intro!: filter_cong)
  qed
qed

lemma expireLoop_success:
  "forP xs (expireBackupOne cfg) s = (Inr x, s') \<Longrightarrow> label_sorted (backup (curInfo s)) \<Longrightarrow> s' = expired cfg (set xs) s"
proof (induction xs arbitrary: s)
  case (Cons y xs)
  obtain t where t: "expireBackupOne cfg y s = (Inr (), t)" "forP xs (expireBackupOne cfg) t = (Inr x, s')"
    using Cons.prems(1) by (auto simp: run_bind_Inr)
  have "t = expired cfg {y} s" using expireBackupOne_success [OF t(1) Cons.prems(2)] .
  then show ?case using Cons.IH [OF t(2)] Cons.prems(2) by (simp add: label_sorted_filter expired_expired)
qed (simp add: run_simps)

lemma expireBackup_success:
  assumes "expireBackup cfg l s = (Inr x, s')" "backups_wf (backup (curInfo s))"
  shows "s' = expired cfg {x. depends (backup (curInfo s)) l x} s"
proof -
  have "forP (strLstSort (infoBackupDataDependentList (curInfo s) l) sortOrderDesc) (expireBackupOne cfg) s = (Inr (), s')"
    using assms(1) by (auto simp: expireBackup_def run_simps split: sum.splits prod.splits)
  from expireLoop_success [OF this] show ?thesis
    using assms(2) dependentList_set [OF assms(2), of l] by (simp add: backups_wf_def)
qed

text \<open>The list in memory is in order, of the same clusters, and every backup in it has its manifest.\<close>

definition consistent :: "InfoPg \<Rightarrow> Expire \<Rightarrow> bool" where
  "consistent pg s \<longleftrightarrow> backups_wf (backup (curInfo s)) \<and> infoPg (curInfo s) = pg \<and>
     (\<forall>l \<in> set (labels (backup (curInfo s))). manifestPath l \<in> set (entries s))"

lemma okeeps_expireBackup: "okeeps (consistent pg) (expireBackup cfg l)"
  unfolding okeeps_def
proof (intro allI impI)
  fix s x s' assume c: "consistent pg s" and r: "expireBackup cfg l s = (Inr x, s')"
  then have wf: "backups_wf (backup (curInfo s))" by (simp add: consistent_def)
  show "consistent pg s'"
    unfolding expireBackup_success [OF r wf]
    using c backups_wf_expired [OF wf] by (auto simp: consistent_def expired_def)
qed

lemma okeeps_sumP: "(\<And>x. okeeps P (f x)) \<Longrightarrow> okeeps P (sumP xs f)"
  by (induction xs) (auto intro!: okeeps_intros)

lemma okeeps_pair [okeeps_intros]: "(\<And>x y. okeeps P (f x y)) \<Longrightarrow> okeeps P (case z of (x, y) \<Rightarrow> f x y)"
  by (cases z) simp

lemma okeeps_timeLoop: "okeeps (consistent pg) (timeLoop cfg k n)"
  by (induction n) (auto intro!: okeeps_intros okeeps_expireBackup)

lemma keeps_linkLatest: "keeps (consistent pg) (backupLinkLatest l)"
proof -
  have "keeps (consistent pg) (storageRemove [''backup'', ''latest''])"
    by (auto simp: keeps_def storageRemove_def consistent_def manifestPath_def split: option.split)
  then show ?thesis
    unfolding backupLinkLatest_def
    by (intro keeps_intros) (auto simp: consistent_def keeps_def storagePut_def split: option.split)
qed

lemma okeeps_expireRetention: "okeeps (consistent pg) (expireRetention cfg env)"
proof -
  have archive: "okeeps (consistent pg) (modifyP (\<lambda>s. s\<lparr>retentionArchive := n\<rparr>))" for n
    by (intro okeeps_keeps keeps_intros) (simp add: consistent_def)
  have timed: "okeeps (consistent pg) (expireTimeBasedBackup cfg t)" for t
    unfolding expireTimeBasedBackup_def by (intro okeeps_intros okeeps_timeLoop archive)
  have full: "okeeps (consistent pg) (expireFullBackup cfg)"
    unfolding expireFullBackup_def Let_def by (intro okeeps_intros okeeps_sumP okeeps_expireBackup)
  have diff: "okeeps (consistent pg) (expireDiffBackup cfg)"
    unfolding expireDiffBackup_def expireDiffOne_def Let_def by (intro okeeps_intros okeeps_sumP okeeps_expireBackup)
  show ?thesis unfolding expireRetention_def by (intro okeeps_intros timed full diff)
qed

lemma okeeps_expireAdhocBackup: "okeeps (consistent pg) (expireAdhocBackup cfg label)"
  unfolding expireAdhocBackup_def by (intro okeeps_intros okeeps_expireBackup okeeps_keeps [OF keeps_linkLatest])

lemma okeeps_expire:
  "okeeps (consistent pg) (case adhoc of
     Some label \<Rightarrow> (if infoBackupDataByLabel info label \<noteq> None then bindP (expireAdhocBackup cfg label) (\<lambda>_. retP ()) else retP ())
   | None \<Rightarrow> expireRetention cfg env)"
  by (cases adhoc) (auto intro!: okeeps_intros okeeps_expireRetention okeeps_expireAdhocBackup)

text \<open>The removals leave the manifests of the listed backups and the saved list.\<close>

definition saved :: "InfoBackup \<Rightarrow> Expire \<Rightarrow> bool" where
  "saved info s \<longleftrightarrow> backupInfoFile s = Inr info \<and> (\<forall>l \<in> set (labels (backup info)). manifestPath l \<in> set (entries s))"

lemma keeps_saved:
  assumes "\<And>l. l \<in> set (labels (backup info)) \<Longrightarrow> keeps (\<lambda>s. manifestPath l \<in> set (entries s)) m"
    and "\<And>s. backupInfoFile (snd (m s)) = backupInfoFile s"
  shows "keeps (saved info) m"
  using assms unfolding keeps_def saved_def by (metis (no_types, lifting))

lemma keeps_saved_removals:
  "keeps (saved info) (storageRemove (''archive'' # p))" "keeps (saved info) (storagePathRemove (''archive'' # p))"
  "keeps (saved info) (storageRemove (historyPath @ [y, f]))"
  "y \<noteq> ''backup.manifest'' \<Longrightarrow> keeps (saved info) (storagePathRemove (historyPath @ [y]))"
  by (auto intro!: keeps_saved repo_keeps simp: manifestPath_def historyPath_def under_def)

lemma keeps_saved_phases:
  "keeps (saved info) (removeExpiredBackup cfg info adhoc)"
  "keeps (saved info) (removeExpiredArchive cfg info)"
  "keeps (saved info) (removeExpiredHistory cfg env info)"
proof -
  have "keeps (saved info) (storagePathRemove (backupPath l))" if "l \<notin> set (labels (backup info))" for l
    using that by (auto intro!: keeps_saved repo_keeps simp: under_backupPath manifestPath_def)
  then show "keeps (saved info) (removeExpiredBackup cfg info adhoc)" by (rule backup_phase)
qed (auto intro!: archive_phase history_phase keeps_saved_removals)

lemma keeps_absent_phases:
  "keeps (\<lambda>s. e \<notin> set (entries s)) (removeExpiredArchive cfg info)"
  "keeps (\<lambda>s. e \<notin> set (entries s)) (removeExpiredHistory cfg env info)"
  by (auto intro!: archive_phase history_phase repo_removal.keeps_absent)

lemma expireRepo_saved:
  assumes load: "\<And>info0 t. infoBackupLoadFileReconstruct s = (Inr info0, t) \<Longrightarrow> consistent pg (t\<lparr>curInfo := info0\<rparr>)"
    and "\<not> dryRun cfg" "expireRepo cfg env adhoc s = (Inr (), s')"
  shows "\<exists>info'. saved info' s' \<and> backups_wf (backup info') \<and> infoPg info' = pg \<and>
    (adhoc = None \<longrightarrow> (\<forall>e \<in> set (entries s'). \<not> unlisted info' e))"
proof -
  obtain info0 t u v w x where
    l: "infoBackupLoadFileReconstruct s = (Inr info0, t)" and
    e: "(case adhoc of
          Some label \<Rightarrow> (if infoBackupDataByLabel info0 label \<noteq> None then bindP (expireAdhocBackup cfg label) (\<lambda>_. retP ()) else retP ())
        | None \<Rightarrow> expireRetention cfg env) (t\<lparr>curInfo := info0\<rparr>) = (Inr (), u)" and
    sv: "infoBackupSaveFile (curInfo u) u = (Inr (), v)" and
    b: "removeExpiredBackup cfg (curInfo u) adhoc v = (Inr (), w)" and
    a: "removeExpiredArchive cfg (curInfo u) w = (Inr (), x)" and
    h: "removeExpiredHistory cfg env (curInfo u) x = (Inr (), s')"
    using assms(2,3) by (auto simp: expireRepo_def run_bind_Inr modifyP_def getP_def whenP_def)
  have c: "consistent pg u" using okeepsD [OF okeeps_expire load [OF l] e] .
  then have "saved (curInfo u) v" using sv
    by (auto simp: saved_def consistent_def infoBackupSaveFile_def storagePut_def run_simps split: option.splits)
  then have "saved (curInfo u) w" using keepsD [OF keeps_saved_phases(1)] b by (metis snd_conv)
  then have "saved (curInfo u) x" using keepsD [OF keeps_saved_phases(2)] a by (metis snd_conv)
  then have "saved (curInfo u) s'" using keepsD [OF keeps_saved_phases(3)] h by (metis snd_conv)
  moreover have "\<not> unlisted (curInfo u) e" if "adhoc = None" "e \<in> set (entries s')" for e
  proof
    assume "unlisted (curInfo u) e"
    then have "e \<notin> set (entries w)" using removeExpiredBackup_success [of cfg "curInfo u" v w] that(1) b assms(2) by auto
    then have "e \<notin> set (entries x)" using keepsD [OF keeps_absent_phases(1)] a by (metis snd_conv)
    then have "e \<notin> set (entries s')" using keepsD [OF keeps_absent_phases(2)] h by (metis snd_conv)
    then show False using that(2) by simp
  qed
  ultimately show ?thesis using c by (auto simp: consistent_def)
qed

section \<open>The loop over the repositories\<close>

lemma expireRepos_result:
  assumes "\<forall>i \<in> set idxs. i < length repos" "distinct idxs"
    and "expireRepos adhoc d options idxs n repos = (n', repos')"
  shows "length repos' = length repos \<and> (\<forall>j < length repos. j \<notin> set idxs \<longrightarrow> repos' ! j = repos ! j) \<and>
    (\<exists>env'. (\<forall>j. env' j = (snd (options ! j))\<lparr>defaultEntries := defaultEntries (env' j)\<rparr>) \<and>
      (\<forall>j \<in> set idxs. repos' ! j = snd (expireRepo (fst (options ! j)) (env' j) adhoc (repos ! j))) \<and>
      n' = n + length (filter (\<lambda>j. isl (fst (expireRepo (fst (options ! j)) (env' j) adhoc (repos ! j)))) idxs))"
  using assms
proof (induction idxs arbitrary: n repos)
  case Nil
  then show ?case by (auto intro!: exI [of _ "\<lambda>j. snd (options ! j)"])
next
  case (Cons i idxs)
  define env where "env = (snd (options ! i))\<lparr>defaultEntries := (if i = d then None else Some (entries (repos ! d)))\<rparr>"
  define run where "run = expireRepo (fst (options ! i)) env adhoc (repos ! i)"
  have step: "expireRepos adhoc d options idxs (if isl (fst run) then Suc n else n) (repos[i := snd run]) = (n', repos')"
    using Cons.prems(3) unfolding expireRepos.simps Let_def case_prod_beta run_def env_def .
  from Cons.IH [OF _ _ step] Cons.prems(1,2) obtain env' where
    len: "length repos' = length repos" and other: "\<forall>j < length repos. j \<notin> set idxs \<longrightarrow> repos' ! j = repos[i := snd run] ! j"
    and env': "\<forall>j. env' j = (snd (options ! j))\<lparr>defaultEntries := defaultEntries (env' j)\<rparr>"
    and st: "\<forall>j \<in> set idxs. repos' ! j = snd (expireRepo (fst (options ! j)) (env' j) adhoc (repos[i := snd run] ! j))"
    and tot: "n' = (if isl (fst run) then Suc n else n) +
      length (filter (\<lambda>j. isl (fst (expireRepo (fst (options ! j)) (env' j) adhoc (repos[i := snd run] ! j)))) idxs)"
    by auto
  let ?env = "env'(i := env)"
  have i: "i < length repos" "i \<notin> set idxs" using Cons.prems(1,2) by auto
  have same: "expireRepo (fst (options ! j)) (env' j) adhoc (repos[i := snd run] ! j) =
      expireRepo (fst (options ! j)) (?env j) adhoc (repos ! j)" if "j \<in> set idxs" for j
    using that i by auto
  have "filter (\<lambda>j. isl (fst (expireRepo (fst (options ! j)) (env' j) adhoc (repos[i := snd run] ! j)))) idxs =
      filter (\<lambda>j. isl (fst (expireRepo (fst (options ! j)) (?env j) adhoc (repos ! j)))) idxs"
    using same by (intro filter_cong) auto
  then have "n' = n + length (filter (\<lambda>j. isl (fst (expireRepo (fst (options ! j)) (?env j) adhoc (repos ! j)))) (i # idxs))"
    using tot by (simp add: run_def)
  moreover have "\<forall>j \<in> set (i # idxs). repos' ! j = snd (expireRepo (fst (options ! j)) (?env j) adhoc (repos ! j))"
    using st same other i by (auto simp: run_def)
  moreover have "\<forall>j. ?env j = (snd (options ! j))\<lparr>defaultEntries := defaultEntries (?env j)\<rparr>"
    using env' by (auto simp: env_def)
  ultimately show ?case using len other i by (auto intro!: exI [of _ ?env])
qed

section \<open>History manifests\<close>

lemma keeps_historyYears:
  assumes "\<not> strcmp y (take 4 m) < 0"
    and "y = take 4 m \<Longrightarrow> hd (strLstNewSplit f ''.'') \<in> set cur \<or> \<not> strcmp (hd (strLstNewSplit f ''.'')) m < 0"
  shows "keeps (\<lambda>s. historyPath @ [y, f] \<in> set (entries s)) (removeHistoryYears cfg env cur m ys)"
proof -
  let ?P = "\<lambda>s. historyPath @ [y, f] \<in> set (entries s)"
  have list: "keeps ?P (storageListDefault env p e)" for p e
    unfolding storageListDefault_def by (intro keeps_option keeps_intros)
  have one_file: "keeps ?P (removeHistoryFile cfg cur m y' f')" if "y' = take 4 m" for y' f'
    unfolding removeHistoryFile_def
    using assms(2) that
    by (intro keeps_liftP_bind keeps_when repo_keeps) (auto simp: strLstGet_def hd_conv_nth split: if_splits)
  have year: "keeps ?P (storagePathRemove (historyPath @ [y']))" if "strcmp y' (take 4 m) < 0" for y'
    using assms(1) that by (intro repo_keeps) (auto simp: under_def)
  show ?thesis
  proof (induction ys)
    case (Cons y' ys)
    show ?case
      unfolding removeHistoryYears.simps
    proof (rule keeps_liftP_bind)
      fix my assume "strSubN m 0 4 = Inr my"
      then have "my = take 4 m" by (auto simp: strSubN_def split: if_splits)
      then show "keeps ?P (if strcmp y' my < 0 then
          bindP (whenP (\<not> dryRun cfg) (storagePathRemove (historyPath @ [y']))) (\<lambda>_. removeHistoryYears cfg env cur m ys)
        else if strEq (Some y') (Some my) then
          bindP (liftP (backupRegExp ((labelParam True True True)\<lparr>noAnchorEnd := True\<rparr>))) (\<lambda>expression.
          bindP (storageListDefault env (historyPath @ [y']) (expression @ [CHR 0x5C] @ ''.manifest'' @ [CHR 0x5C] @ ''.gz$'')) (\<lambda>historyList.
          bindP (forP (strLstSort historyList sortOrderDesc) (removeHistoryFile cfg cur m y')) (\<lambda>_. removeHistoryYears cfg env cur m ys)))
        else retP ())"
        by (intro keeps_intros keeps_for list one_file year Cons.IH) auto
    qed
  qed (simp add: keeps_basic)
qed

section \<open>Properties\<close>

definition sampleEnv :: ExpireEnv where
  "sampleEnv = \<lparr>timeText = (\<lambda>_. Some ''20191003-105320''), now = 2000000000, defaultEntries = None\<rparr>"

text \<open>
  C12. Backups that leave the disk. However removeExpiredBackup ends, with an adhoc label or not, it
  removes nothing but entries in the directories of backups that are not listed in backup.info;
  when it succeeds without an adhoc label and outside a dry run, exactly these entries are gone.
\<close>

theorem removeExpiredBackup_exact:
  assumes "removeExpiredBackup cfg info adhoc s = (r, s')"
  shows "(\<forall>e \<in> set (entries s). \<not> unlisted info e \<longrightarrow> e \<in> set (entries s')) \<and>
    (r = Inr () \<and> adhoc = None \<and> \<not> dryRun cfg \<longrightarrow> set (entries s') = {e \<in> set (entries s). \<not> unlisted info e})"
proof -
  have "keeps (\<lambda>s. e \<in> set (entries s)) (removeExpiredBackup cfg info adhoc)" if "\<not> unlisted info e" for e
    using that by (intro backup_phase repo_keeps) (auto simp: under_backupPath unlisted_def)
  then have "e \<in> set (entries s')" if "e \<in> set (entries s)" "\<not> unlisted info e" for e
    using that assms unfolding keeps_def by (metis snd_conv)
  then show ?thesis using removeExpiredBackup_success assms by blast
qed

theorem removeExpiredBackup_exact_witness:
  "\<exists>s'. removeExpiredBackup sampleConfig sampleInfo None
      (sampleExpire\<lparr>entries := [manifestPath ''20191004-144000F'', manifestPath ''20191001-000000F'']\<rparr>) = (Inr (), s') \<and>
     set (entries s') = {manifestPath ''20191004-144000F''}"
proof -
  let ?s = "sampleExpire\<lparr>entries := [manifestPath ''20191004-144000F'', manifestPath ''20191001-000000F'']\<rparr>"
  have "fst (removeExpiredBackup sampleConfig sampleInfo None ?s) = Inr ()" by code_simp
  then obtain s' where r: "removeExpiredBackup sampleConfig sampleInfo None ?s = (Inr (), s')" by (metis prod.collapse)
  have "\<not> unlisted sampleInfo (manifestPath ''20191004-144000F'')" "unlisted sampleInfo (manifestPath ''20191001-000000F'')"
    by code_simp+
  then show ?thesis using removeExpiredBackup_exact [OF r] r by auto
qed

text \<open>
  C13. Dry runs. With the dry-run option the expiration of a repository, with an adhoc label or by
  retention, ends with the repository it found: the same entries, the same backup.info and the
  same latest link, also when it fails.
\<close>

theorem expireRepo_dry_run:
  assumes "dryRun cfg" "expireRepo cfg env adhoc s = (r, s')"
  shows "entries s' = entries s \<and> backupInfoFile s' = backupInfoFile s \<and> latestLink s' = latestLink s"
proof -
  let ?P = "\<lambda>t. entries t = entries s \<and> backupInfoFile t = backupInfoFile s \<and> latestLink t = latestLink s"
  have "?P (snd (expireRepo cfg env adhoc s))"
    by (rule keepsD [OF dry_expireRepo [OF assms(1)]]) simp_all
  then show ?thesis using assms(2) by simp
qed

theorem expireRepo_dry_run_witness:
  "entries (snd (expireRepo (sampleConfig\<lparr>dryRun := True\<rparr>) sampleEnv None sampleExpire)) = entries sampleExpire"
  using expireRepo_dry_run [of "sampleConfig\<lparr>dryRun := True\<rparr>" sampleEnv None sampleExpire]
  by (cases "expireRepo (sampleConfig\<lparr>dryRun := True\<rparr>) sampleEnv None sampleExpire") simp



text \<open>
  C16. History manifests that stay. However removeExpiredHistory ends, it keeps the history
  manifests of the years after that of the oldest label to retain and, in that year, those whose
  label is not before it or is listed in backup.info.
\<close>

theorem removeExpiredHistory_keeps:
  assumes "retentionHistory cfg = Some days"
    and "backupLabelFormat (timeText env) backupTypeFull None (now env - int days * SEC_PER_DAY) = Inr minLabel"
    and "strcmp (take 4 minLabel) year < 0 \<or> year = take 4 minLabel \<and>
      (hd (strLstNewSplit f ''.'') \<in> set (labels (backup info)) \<or> strcmp minLabel (hd (strLstNewSplit f ''.'')) \<le> 0)"
    and "historyPath @ [year, f] \<in> set (entries s)"
  shows "historyPath @ [year, f] \<in> set (entries (snd (removeExpiredHistory cfg env info s)))"
proof -
  let ?P = "\<lambda>s. historyPath @ [year, f] \<in> set (entries s)"
  have y: "\<not> strcmp year (take 4 minLabel) < 0" using assms(3) strcmp_asym by auto
  have l: "hd (strLstNewSplit f ''.'') \<in> set (strLstSort (labels (backup info)) sortOrderDesc) \<or>
      \<not> strcmp (hd (strLstNewSplit f ''.'')) minLabel < 0" if "year = take 4 minLabel"
    using assms(3) that strcmp_ge_flip [of "hd (strLstNewSplit f ''.'')" minLabel] by auto
  have "keeps ?P (removeExpiredHistory cfg env info)"
    unfolding removeExpiredHistory_def assms(1,2) option.case Let_def storageListDefault_def
    by (intro keeps_intros keeps_option keeps_liftP_bind) (use assms(2) keeps_historyYears [OF y l] in auto)
  then show ?thesis using assms(4) by (rule keepsD)
qed

theorem removeExpiredHistory_keeps_witness:
  "historyPath @ [''2019'', ''20191003-105320F.manifest.gz''] \<in> set (entries (snd
     (removeExpiredHistory (sampleConfig\<lparr>retentionHistory := Some 1\<rparr>) sampleEnv sampleInfo
       (sampleExpire\<lparr>entries := [historyPath @ [''2019'', ''20191003-105320F.manifest.gz'']]\<rparr>))))"
  by (rule removeExpiredHistory_keeps [where minLabel = "''20191003-105320F''" and days = 1])
    (simp_all add: sampleEnv_def SEC_PER_DAY_def backupLabelFormat_def strLstNewSplit.simps)




end
