(* ===== verification/Pack.thy ===== *)
theory Pack
  imports Program StringType
begin

text \<open>
  The pack format of src/common/type/pack.c: fields with increasing ids, a tag byte with the type, the
  id delta and small values, base-128 integers, strings, and nested arrays and objects. A pack is
  written to a buffer or through a buffer to an io, and read from either. The tag stack is kept
  with its top first; it is empty after the end of the pack, when the C pointer to its top is
  null. Sizes are natural numbers, ids 32-bit and values 64-bit words.
\<close>

section \<open>Types\<close>

definition PACK_UINT64_SIZE_MAX :: nat where
  "PACK_UINT64_SIZE_MAX = 10"

definition PACK_EXTRA_MIN :: nat where
  "PACK_EXTRA_MIN = 128"

abbreviation (input) "pckTypeMapUnknown \<equiv> 0 :: u32"
abbreviation (input) "pckTypeMapArray \<equiv> 1 :: u32"
abbreviation (input) "pckTypeMapBool \<equiv> 2 :: u32"
abbreviation (input) "pckTypeMapI32 \<equiv> 3 :: u32"
abbreviation (input) "pckTypeMapI64 \<equiv> 4 :: u32"
abbreviation (input) "pckTypeMapObj \<equiv> 5 :: u32"
abbreviation (input) "pckTypeMapPtr \<equiv> 6 :: u32"
abbreviation (input) "pckTypeMapStr \<equiv> 7 :: u32"
abbreviation (input) "pckTypeMapU32 \<equiv> 8 :: u32"
abbreviation (input) "pckTypeMapU64 \<equiv> 9 :: u32"
abbreviation (input) "pckTypeMapStrId \<equiv> 10 :: u32"
abbreviation (input) "pckTypeMapTime \<equiv> 15 :: u32"
abbreviation (input) "pckTypeMapBin \<equiv> 16 :: u32"
abbreviation (input) "pckTypeMapPack \<equiv> 17 :: u32"
abbreviation (input) "pckTypeMapMode \<equiv> 18 :: u32"

datatype PackType =
    pckTypeArray | pckTypeBin | pckTypeBool | pckTypeI32 | pckTypeI64 | pckTypeObj | pckTypeMode | pckTypePack
  | pckTypePtr | pckTypeStr | pckTypeStrId | pckTypeTime | pckTypeU32 | pckTypeU64

text \<open>A position of the table without a type has \<^term>\<open>None\<close>.\<close>

record PackTypeMapData =
  type :: "PackType option"
  valueSingleBit :: bool
  valueMultiBit :: bool
  hasSize :: bool

definition packTypeMapData :: "PackTypeMapData list" where
  "packTypeMapData =
     (let none = \<lparr>type = None, valueSingleBit = False, valueMultiBit = False, hasSize = False\<rparr>;
          container = (\<lambda>t. none\<lparr>type := Some t\<rparr>);
          single = (\<lambda>t. none\<lparr>type := Some t, valueSingleBit := True\<rparr>);
          multi = (\<lambda>t. none\<lparr>type := Some t, valueMultiBit := True\<rparr>);
          sized = (\<lambda>t. none\<lparr>type := Some t, valueSingleBit := True, hasSize := True\<rparr>)
      in [none, container pckTypeArray, single pckTypeBool, multi pckTypeI32, multi pckTypeI64, container pckTypeObj,
          multi pckTypePtr, sized pckTypeStr, multi pckTypeU32, multi pckTypeU64, multi pckTypeStrId,
          none, none, none, none,
          multi pckTypeTime, sized pckTypeBin, (container pckTypePack)\<lparr>hasSize := True\<rparr>, multi pckTypeMode])"

text \<open>An index outside the table reads memory that is not part of it.\<close>

definition mapDataAt :: "u32 \<Rightarrow> PackTypeMapData result" where
  "mapDataAt typeMap =
     (if unat typeMap < length packTypeMapData then Inr (packTypeMapData ! unat typeMap) else Inl UndefinedBehavior)"

record PackTagStack =
  typeMap :: u32
  idLast :: u32
  nullTotal :: u32

record PackRead =
  readIo :: "byte list option"
  buffer :: "byte list"
  bufSizeAlloc :: nat
  bufferPos :: nat
  bufferUsed :: nat
  tagNextId :: u32
  tagNextTypeMap :: u32
  tagNextValue :: u64
  tagStack :: "PackTagStack list"

record PackWrite =
  writeIo :: "byte list option"
  bufferW :: "byte list"
  bufSizeAllocW :: nat
  tagStackW :: "PackTagStack list"

definition UINT_MAX :: u32 where
  "UINT_MAX = - 1"

section \<open>Zigzag encoding\<close>

definition cvtInt32ToZigZag :: "u32 \<Rightarrow> u32" where
  "cvtInt32ToZigZag value = push_bit 1 value XOR signed_drop_bit 31 value"

definition cvtInt32FromZigZag :: "u32 \<Rightarrow> u32" where
  "cvtInt32FromZigZag value = drop_bit 1 value XOR (NOT (value AND 1) + 1)"

definition cvtInt64ToZigZag :: "u64 \<Rightarrow> u64" where
  "cvtInt64ToZigZag value = push_bit 1 value XOR signed_drop_bit 63 value"

definition cvtInt64FromZigZag :: "u64 \<Rightarrow> u64" where
  "cvtInt64FromZigZag value = drop_bit 1 value XOR (NOT (value AND 1) + 1)"

section \<open>Reading bytes\<close>

definition containerTag :: "u32 \<Rightarrow> PackTagStack" where
  "containerTag t = \<lparr>typeMap = t, idLast = 0, nullTotal = 0\<rparr>"

definition pckReadNewInternal :: PackRead where
  "pckReadNewInternal = \<lparr>readIo = None, buffer = [], bufSizeAlloc = 0, bufferPos = 0, bufferUsed = 0, tagNextId = 0,
     tagNextTypeMap = pckTypeMapUnknown, tagNextValue = 0, tagStack = [containerTag pckTypeMapObj]\<rparr>"

definition pckReadNew :: "nat \<Rightarrow> byte list \<Rightarrow> PackRead" where
  "pckReadNew ioBufferSize io = pckReadNewInternal\<lparr>readIo := Some io, bufSizeAlloc := ioBufferSize\<rparr>"

definition pckReadNewBuf :: "byte list option \<Rightarrow> PackRead option" where
  "pckReadNewBuf buf = map_option (\<lambda>b. pckReadNewInternal\<lparr>buffer := b, bufferUsed := length b\<rparr>) buf"

text \<open>
  Reading from the io until the buffer is full up to its limit; \<^term>\<open>None\<close> when the io ends before,
  since the loop of ioReadSmall has no other end.
\<close>

definition ioReadSmall :: "nat \<Rightarrow> byte list \<Rightarrow> (byte list \<times> byte list) option" where
  "ioReadSmall limit io = (if length io < limit then None else Some (take limit io, drop limit io))"

definition pckReadBuffer :: "nat \<Rightarrow> (PackRead, nat) prog" where
  "pckReadBuffer sz = (\<lambda>this.
     let remaining = bufferUsed this - bufferPos this
     in if remaining < sz then
          (case readIo this of
             Some io \<Rightarrow>
               if remaining \<noteq> 0 then (Inl AssertError, this)
               else
                 (case ioReadSmall (if sz < bufSizeAlloc this then sz else bufSizeAlloc this) io of
                    None \<Rightarrow> (Inl NoReturn, this)
                  | Some (bytes, io') \<Rightarrow>
                      (let this' = this\<lparr>readIo := Some io', buffer := bytes, bufferPos := 0, bufferUsed := length bytes\<rparr>
                       in if length bytes < 1 then (Inl FormatError, this')
                          else (Inr (if length bytes < sz then length bytes else sz), this')))
           | None \<Rightarrow>
               if remaining < 1 then (Inl FormatError, this) else (Inr remaining, this))
        else (Inr sz, this))"

text \<open>The next byte, which is then processed.\<close>

definition pckReadByte :: "(PackRead, byte) prog" where
  "pckReadByte =
     bindP (pckReadBuffer 1) (\<lambda>_.
     bindP (getP (\<lambda>this. buffer this ! bufferPos this)) (\<lambda>byte.
     bindP (modifyP (\<lambda>this. this\<lparr>bufferPos := bufferPos this + 1\<rparr>)) (\<lambda>_.
     retP byte)))"

text \<open>The loop over the bytes of a base-128 integer, with the number of bytes that may follow.\<close>

fun pckReadU64Loop :: "nat \<Rightarrow> nat \<Rightarrow> u64 \<Rightarrow> (PackRead, u64) prog" where
  "pckReadU64Loop 0 bufferIdx result = throwP FormatError"
| "pckReadU64Loop (Suc n) bufferIdx result =
     bindP pckReadByte (\<lambda>byte.
     let result' = result OR push_bit (7 * bufferIdx) (ucast (byte AND 0x7F))
     in if byte < 0x80 then retP result' else pckReadU64Loop n (bufferIdx + 1) result')"

definition pckReadU64Internal :: "(PackRead, u64) prog" where
  "pckReadU64Internal = pckReadU64Loop PACK_UINT64_SIZE_MAX 0 0"

text \<open>Reading or skipping data in chunks.\<close>

function pckReadChunks :: "nat \<Rightarrow> (PackRead, byte list) prog" where
  "pckReadChunks sz =
     (if sz = 0 then retP []
      else
        bindP (pckReadBuffer sz) (\<lambda>sizeRead.
        if sizeRead = 0 then throwP NoReturn
        else
          bindP (getP (\<lambda>this. take sizeRead (drop (bufferPos this) (buffer this)))) (\<lambda>bytes.
          bindP (modifyP (\<lambda>this. this\<lparr>bufferPos := bufferPos this + sizeRead\<rparr>)) (\<lambda>_.
          bindP (pckReadChunks (sz - sizeRead)) (\<lambda>rest. retP (bytes @ rest))))))"
  by pat_completeness auto
termination by (relation "measure id") auto

declare pckReadChunks.simps [simp del]

section \<open>Reading tags\<close>

definition tagTop :: "(PackRead, PackTagStack) prog" where
  "tagTop = (\<lambda>this. case tagStack this of [] \<Rightarrow> (Inl UndefinedBehavior, this) | topTag # _ \<Rightarrow> (Inr topTag, this))"

definition setIdLast :: "u32 \<Rightarrow> (PackRead, unit) prog" where
  "setIdLast lastId = (\<lambda>this. case tagStack this of
     [] \<Rightarrow> (Inl UndefinedBehavior, this)
   | topTag # st \<Rightarrow> (Inr (), this\<lparr>tagStack := topTag\<lparr>idLast := lastId\<rparr> # st\<rparr>))"

text \<open>The high order bits of an id delta, when the tag says that they follow.\<close>

definition tagIdHigh :: "bool \<Rightarrow> nat \<Rightarrow> (PackRead, u32) prog" where
  "tagIdHigh follows shift =
     (if follows then bindP pckReadU64Internal (\<lambda>high. retP (push_bit shift (ucast high))) else retP 0)"

text \<open>The id delta and the value of a tag, by the kind of its type.\<close>

definition pckReadTagValue :: "PackTypeMapData \<Rightarrow> u32 \<Rightarrow> (PackRead, u32 \<times> u64) prog" where
  "pckReadTagValue data tag =
     (if valueMultiBit data then
        (if tag AND 0x8 \<noteq> 0 then
           bindP (tagIdHigh (tag AND 0x4 \<noteq> 0) 2) (\<lambda>high.
           bindP pckReadU64Internal (\<lambda>value. retP ((tag AND 0x3) OR high, value)))
         else
           bindP (tagIdHigh (tag AND 0x2 \<noteq> 0) 1) (\<lambda>high.
           retP ((tag AND 0x1) OR high, ucast (drop_bit 2 tag AND 0x3))))
      else if valueSingleBit data then
        bindP (tagIdHigh (tag AND 0x4 \<noteq> 0) 2) (\<lambda>high.
        retP ((tag AND 0x3) OR high, ucast (drop_bit 3 tag AND 0x1)))
      else
        bindP (tagIdHigh (tag AND 0x8 \<noteq> 0) 3) (\<lambda>high.
        retP ((tag AND 0x7) OR high, 0)))"

definition pckReadTagNext :: "(PackRead, bool) prog" where
  "pckReadTagNext =
     bindP pckReadByte (\<lambda>byte.
     let tag = ucast byte :: u32
     in if tag = 0 then
          bindP (modifyP (\<lambda>this. this\<lparr>tagNextId := UINT_MAX\<rparr>)) (\<lambda>_. retP False)
        else
          bindP (if drop_bit 4 tag = 0xF
                 then bindP pckReadU64Internal (\<lambda>t. retP (ucast t + 0xF)) else retP (drop_bit 4 tag)) (\<lambda>t.
          bindP (modifyP (\<lambda>this. this\<lparr>tagNextTypeMap := t\<rparr>)) (\<lambda>_.
          bindP (liftP (ASSERT (unat t < length packTypeMapData \<and> type (packTypeMapData ! unat t) \<noteq> None))) (\<lambda>_.
          bindP (pckReadTagValue (packTypeMapData ! unat t) tag) (\<lambda>(tagId, value).
          bindP tagTop (\<lambda>topTag.
          bindP (modifyP (\<lambda>this. this\<lparr>tagNextId := tagId + (idLast topTag + 1), tagNextValue := value\<rparr>)) (\<lambda>_.
          retP True)))))))"

text \<open>The data of a field that is skipped.\<close>

definition pckReadSkip :: "(PackRead, unit) prog" where
  "pckReadSkip =
     bindP (getP tagNextTypeMap) (\<lambda>t.
     bindP (liftP (mapDataAt t)) (\<lambda>data.
     bindP (getP tagNextValue) (\<lambda>value.
     whenP (hasSize data \<and> value \<noteq> 0)
       (bindP pckReadU64Internal (\<lambda>sizeExpected. bindP (pckReadChunks (unat sizeExpected)) (\<lambda>_. retP ()))))))"

text \<open>
  The search for an id. Every turn but the first reads at least the byte of a tag, so that two turns
  more than there are bytes left are never needed.
\<close>

fun pckReadTagLoop :: "nat \<Rightarrow> u32 \<Rightarrow> u32 \<Rightarrow> bool \<Rightarrow> (PackRead, u64) prog" where
  "pckReadTagLoop 0 id' typeMap' peek = throwP NoReturn"
| "pckReadTagLoop (Suc fuel) id' typeMap' peek =
     bindP (getP tagNextId) (\<lambda>nextId0.
     bindP (if nextId0 = 0 then bindP pckReadTagNext (\<lambda>_. retP ()) else retP ()) (\<lambda>_.
     bindP (getP tagNextId) (\<lambda>nextId.
     if id' < nextId then getP tagNextValue
     else if id' = nextId then
       (if peek then getP tagNextValue
        else
          bindP (getP tagNextTypeMap) (\<lambda>t.
          if t \<noteq> typeMap' then throwP FormatError
          else
            bindP (setIdLast nextId) (\<lambda>_.
            bindP (modifyP (\<lambda>this. this\<lparr>tagNextId := 0\<rparr>)) (\<lambda>_.
            getP tagNextValue))))
     else
       bindP pckReadSkip (\<lambda>_.
       bindP (setIdLast nextId) (\<lambda>_.
       bindP (modifyP (\<lambda>this. this\<lparr>tagNextId := 0\<rparr>)) (\<lambda>_.
       pckReadTagLoop fuel id' typeMap' peek))))))"

text \<open>The bytes that are left.\<close>

definition unread :: "PackRead \<Rightarrow> byte list" where
  "unread this = drop (bufferPos this) (take (bufferUsed this) (buffer this)) @ (case readIo this of None \<Rightarrow> [] | Some io \<Rightarrow> io)"

text \<open>The result is the value and the id, which is the next one when none was given.\<close>

definition pckReadTag :: "u32 \<Rightarrow> u32 \<Rightarrow> bool \<Rightarrow> (PackRead, u64 \<times> u32) prog" where
  "pckReadTag id0 typeMap' peek =
     bindP (liftP (ASSERT (peek \<and> typeMap' = pckTypeMapUnknown \<or> \<not> peek \<and> typeMap' \<noteq> pckTypeMapUnknown))) (\<lambda>_.
     bindP tagTop (\<lambda>topTag.
     if id0 \<noteq> 0 \<and> id0 \<le> idLast topTag then throwP FormatError
     else
       (let id' = (if id0 = 0 then idLast topTag + 1 else id0)
        in bindP (getP (\<lambda>this. length (unread this) + 2)) (\<lambda>fuel.
           bindP (pckReadTagLoop fuel id' typeMap' peek) (\<lambda>value. retP (value, id'))))))"

section \<open>Reading fields\<close>

definition pckReadNext :: "(PackRead, bool) prog" where
  "pckReadNext = pckReadTagNext"

definition pckReadId :: "(PackRead, u32) prog" where
  "pckReadId = getP tagNextId"

definition pckReadNullInternal :: "u32 \<Rightarrow> (PackRead, bool \<times> u32) prog" where
  "pckReadNullInternal id0 =
     bindP (pckReadTag id0 pckTypeMapUnknown True) (\<lambda>(_, id').
     bindP (getP tagNextId) (\<lambda>nextId.
     if id' < nextId then bindP (setIdLast id') (\<lambda>_. retP (True, id'))
     else retP (False, id')))"

definition pckReadNull :: "u32 \<Rightarrow> (PackRead, bool) prog" where
  "pckReadNull id0 = bindP (pckReadNullInternal id0) (\<lambda>(result, _). retP result)"

definition pckReadType :: "(PackRead, PackType option) prog" where
  "pckReadType = bindP (getP tagNextTypeMap) (\<lambda>t. bindP (liftP (mapDataAt t)) (\<lambda>data. retP (type data)))"

definition pckReadArrayBegin :: "u32 \<Rightarrow> (PackRead, unit) prog" where
  "pckReadArrayBegin id0 =
     bindP (pckReadTag id0 pckTypeMapArray False) (\<lambda>_.
     modifyP (\<lambda>this. this\<lparr>tagStack := containerTag pckTypeMapArray # tagStack this\<rparr>))"

definition pckReadArrayEnd :: "(PackRead, unit) prog" where
  "pckReadArrayEnd =
     bindP (getP tagStack) (\<lambda>stack.
     bindP tagTop (\<lambda>topTag.
     if length stack = 1 \<or> typeMap topTag \<noteq> pckTypeMapArray then throwP FormatError
     else
       bindP (pckReadTag (UINT_MAX - 1) pckTypeMapUnknown True) (\<lambda>_.
       modifyP (\<lambda>this. this\<lparr>tagStack := tl (tagStack this), tagNextId := 0\<rparr>))))"

definition pckReadObjBegin :: "u32 \<Rightarrow> (PackRead, unit) prog" where
  "pckReadObjBegin id0 =
     bindP (pckReadTag id0 pckTypeMapObj False) (\<lambda>_.
     modifyP (\<lambda>this. this\<lparr>tagStack := containerTag pckTypeMapObj # tagStack this\<rparr>))"

definition pckReadObjEnd :: "(PackRead, unit) prog" where
  "pckReadObjEnd =
     bindP (getP tagStack) (\<lambda>stack.
     bindP (liftP (case stack of [] \<Rightarrow> Inl AssertError | topTag # _ \<Rightarrow> Inr topTag)) (\<lambda>topTag.
     if length stack = 1 \<or> typeMap topTag \<noteq> pckTypeMapObj then throwP FormatError
     else
       bindP (pckReadTag (UINT_MAX - 1) pckTypeMapUnknown True) (\<lambda>_.
       modifyP (\<lambda>this. this\<lparr>tagStack := tl (tagStack this), tagNextId := 0\<rparr>))))"

definition pckReadBin :: "u32 \<Rightarrow> (PackRead, byte list option) prog" where
  "pckReadBin id0 =
     bindP (pckReadNullInternal id0) (\<lambda>(null, id').
     if null then retP None
     else
       bindP (pckReadTag id' pckTypeMapBin False) (\<lambda>(value, _).
       if value \<noteq> 0 then
         bindP pckReadU64Internal (\<lambda>sz. bindP (pckReadChunks (unat sz)) (\<lambda>bytes. retP (Some bytes)))
       else retP (Some [])))"

text \<open>A field whose value is in its tag, converted to its type, or the default.\<close>

definition pckReadValue :: "u32 \<Rightarrow> (u64 \<Rightarrow> 'a) \<Rightarrow> u32 \<Rightarrow> 'a \<Rightarrow> (PackRead, 'a) prog" where
  "pckReadValue typeMap' convert id0 defaultValue =
     bindP (pckReadNullInternal id0) (\<lambda>(null, id').
     if null then retP defaultValue
     else bindP (pckReadTag id' typeMap' False) (\<lambda>(value, _). retP (convert value)))"

definition pckReadBool :: "u32 \<Rightarrow> bool \<Rightarrow> (PackRead, bool) prog" where
  "pckReadBool = pckReadValue pckTypeMapBool (\<lambda>value. value \<noteq> 0)"

definition pckReadI32 :: "u32 \<Rightarrow> u32 \<Rightarrow> (PackRead, u32) prog" where
  "pckReadI32 = pckReadValue pckTypeMapI32 (\<lambda>value. cvtInt32FromZigZag (ucast value))"

definition pckReadI64 :: "u32 \<Rightarrow> u64 \<Rightarrow> (PackRead, u64) prog" where
  "pckReadI64 = pckReadValue pckTypeMapI64 cvtInt64FromZigZag"

definition pckReadMode :: "u32 \<Rightarrow> u32 \<Rightarrow> (PackRead, u32) prog" where
  "pckReadMode = pckReadValue pckTypeMapMode ucast"

definition pckReadPackBuf :: "u32 \<Rightarrow> (PackRead, byte list option) prog" where
  "pckReadPackBuf id0 =
     bindP (pckReadNullInternal id0) (\<lambda>(null, id').
     if null then retP None
     else
       bindP (pckReadTag id' pckTypeMapPack False) (\<lambda>_.
       bindP pckReadU64Internal (\<lambda>sz. bindP (pckReadChunks (unat sz)) (\<lambda>bytes. retP (Some bytes)))))"

definition pckReadPack :: "u32 \<Rightarrow> (PackRead, PackRead option) prog" where
  "pckReadPack id0 = bindP (pckReadPackBuf id0) (\<lambda>buf. retP (pckReadNewBuf buf))"

text \<open>A null pointer is the value 0.\<close>

definition pckReadPtr :: "u32 \<Rightarrow> (PackRead, u64) prog" where
  "pckReadPtr id0 = pckReadValue pckTypeMapPtr id id0 0"

definition STRING_SIZE_MAX :: int where
  "STRING_SIZE_MAX = 1073741824"

text \<open>
  A string grows chunk by chunk up to its maximum size. The bytes of a string are those of its
  characters.
\<close>

definition bytesOf :: "string \<Rightarrow> byte list" where
  "bytesOf s = map (\<lambda>c. word_of_nat (chr_code c)) s"

definition stringOf :: "byte list \<Rightarrow> string" where
  "stringOf bs = map (\<lambda>b. char_of (unat b)) bs"

definition pckReadStr :: "u32 \<Rightarrow> string option \<Rightarrow> (PackRead, string option) prog" where
  "pckReadStr id0 defaultValue =
     bindP (pckReadNullInternal id0) (\<lambda>(null, id').
     if null then retP defaultValue
     else
       bindP (pckReadTag id' pckTypeMapStr False) (\<lambda>(value, _).
       if value \<noteq> 0 then
         bindP pckReadU64Internal (\<lambda>sizeExpected.
         bindP (pckReadChunks (unat sizeExpected)) (\<lambda>bytes.
         if int (length bytes) > STRING_SIZE_MAX then throwP AssertError else retP (Some (stringOf bytes))))
       else retP (Some [])))"

definition pckReadStrId :: "u32 \<Rightarrow> u64 \<Rightarrow> (PackRead, u64) prog" where
  "pckReadStrId = pckReadValue pckTypeMapStrId id"

text \<open>The strings up to the end of the array. Every turn reads a field, so the bytes that are left bound their number.\<close>

fun pckReadStrLstLoop :: "nat \<Rightarrow> (PackRead, string option list) prog" where
  "pckReadStrLstLoop 0 = throwP NoReturn"
| "pckReadStrLstLoop (Suc fuel) =
     bindP (pckReadNull 0) (\<lambda>null.
     if null then retP []
     else bindP (pckReadStr 0 None) (\<lambda>s. bindP (pckReadStrLstLoop fuel) (\<lambda>rest. retP (s # rest))))"

definition pckReadStrLst :: "u32 \<Rightarrow> (PackRead, string option list option) prog" where
  "pckReadStrLst id0 =
     bindP (pckReadNullInternal id0) (\<lambda>(null, id').
     if null then retP None
     else
       bindP (pckReadArrayBegin id') (\<lambda>_.
       bindP (getP (\<lambda>this. length (unread this) + 2)) (\<lambda>fuel.
       bindP (pckReadStrLstLoop fuel) (\<lambda>result.
       bindP pckReadArrayEnd (\<lambda>_. retP (Some result))))))"

definition pckReadTime :: "u32 \<Rightarrow> u64 \<Rightarrow> (PackRead, u64) prog" where
  "pckReadTime = pckReadValue pckTypeMapTime cvtInt64FromZigZag"

definition pckReadU32 :: "u32 \<Rightarrow> u32 \<Rightarrow> (PackRead, u32) prog" where
  "pckReadU32 = pckReadValue pckTypeMapU32 ucast"

definition pckReadU64 :: "u32 \<Rightarrow> u64 \<Rightarrow> (PackRead, u64) prog" where
  "pckReadU64 = pckReadValue pckTypeMapU64 id"

text \<open>The pointer to the top of the stack stays the same while the containers are ended.\<close>

fun pckReadEndLoop :: "PackTagStack list \<Rightarrow> (PackRead, unit) prog" where
  "pckReadEndLoop [] = retP ()"
| "pckReadEndLoop (_ # st) =
     bindP (pckReadTag (UINT_MAX - 1) pckTypeMapUnknown True) (\<lambda>_. pckReadEndLoop st)"

definition pckReadEnd :: "(PackRead, unit) prog" where
  "pckReadEnd =
     bindP (getP tagStack) (\<lambda>stack.
     bindP (pckReadEndLoop stack) (\<lambda>_.
     modifyP (\<lambda>this. this\<lparr>tagStack := []\<rparr>)))"

section \<open>Writing bytes\<close>

definition pckWriteNewInternal :: PackWrite where
  "pckWriteNewInternal = \<lparr>writeIo = None, bufferW = [], bufSizeAllocW = 0, tagStackW = [containerTag pckTypeMapObj]\<rparr>"

definition pckWriteNew :: "nat \<Rightarrow> PackWrite" where
  "pckWriteNew ioBufferSize = pckWriteNewInternal\<lparr>writeIo := Some [], bufSizeAllocW := ioBufferSize\<rparr>"

definition pckWriteNewBuf :: "nat \<Rightarrow> byte list \<Rightarrow> PackWrite" where
  "pckWriteNewBuf sizeAlloc buf = pckWriteNewInternal\<lparr>bufferW := buf, bufSizeAllocW := sizeAlloc\<rparr>"

definition ioWrite :: "byte list \<Rightarrow> (PackWrite, unit) prog" where
  "ioWrite bytes = modifyP (\<lambda>this. this\<lparr>writeIo := map_option (\<lambda>out. out @ bytes) (writeIo this)\<rparr>)"

definition bufCatW :: "byte list \<Rightarrow> (PackWrite, unit) prog" where
  "bufCatW bytes = modifyP (\<lambda>this. this\<lparr>bufferW := bufferW this @ bytes\<rparr>)"

definition bufRemainsW :: "PackWrite \<Rightarrow> nat" where
  "bufRemainsW this = bufSizeAllocW this - length (bufferW this)"

definition pckWriteBuffer :: "byte list \<Rightarrow> (PackWrite, unit) prog" where
  "pckWriteBuffer bytes =
     bindP (getP writeIo) (\<lambda>io.
     bindP (getP bufRemainsW) (\<lambda>remains.
     if io = None then
       bindP (whenP (remains < length bytes)
         (modifyP (\<lambda>this. this\<lparr>bufSizeAllocW := bufSizeAllocW this + length bytes + PACK_EXTRA_MIN\<rparr>))) (\<lambda>_.
       bufCatW bytes)
     else if remains \<ge> length bytes then bufCatW bytes
     else
       bindP (getP bufferW) (\<lambda>buf.
       bindP (whenP (buf \<noteq> []) (bindP (ioWrite buf) (\<lambda>_. modifyP (\<lambda>this. this\<lparr>bufferW := []\<rparr>)))) (\<lambda>_.
       bindP (getP bufRemainsW) (\<lambda>remains'.
       if remains' \<ge> length bytes then bufCatW bytes else ioWrite bytes)))))"

text \<open>The base-128 encoding. The buffer of the C function has ten bytes, which are enough.\<close>

function varint :: "u64 \<Rightarrow> byte list" where
  "varint value = (if value \<ge> 0x80 then (ucast value OR 0x80) # varint (drop_bit 7 value) else [ucast value])"
  by pat_completeness auto
termination
proof (relation "measure unat")
  show "\<And>value. (0x80 :: u64) \<le> value \<Longrightarrow> (drop_bit 7 value, value) \<in> measure unat"
    by (simp add: unat_drop_bit_eq drop_bit_nat_def word_le_nat_alt)
qed simp

declare varint.simps [simp del]

definition pckWriteU64Internal :: "u64 \<Rightarrow> (PackWrite, unit) prog" where
  "pckWriteU64Internal value = pckWriteBuffer (varint value)"

section \<open>Writing tags\<close>

definition tagTopW :: "(PackWrite, PackTagStack) prog" where
  "tagTopW = (\<lambda>this. case tagStackW this of [] \<Rightarrow> (Inl UndefinedBehavior, this) | topTag # _ \<Rightarrow> (Inr topTag, this))"

definition setTopW :: "(PackTagStack \<Rightarrow> PackTagStack) \<Rightarrow> (PackWrite, unit) prog" where
  "setTopW f = (\<lambda>this. case tagStackW this of
     [] \<Rightarrow> (Inl UndefinedBehavior, this)
   | topTag # st \<Rightarrow> (Inr (), this\<lparr>tagStackW := f topTag # st\<rparr>))"

text \<open>The low order bits of the tag, and what is left of the id delta and of the value.\<close>

definition tagLow :: "PackTypeMapData \<Rightarrow> u32 \<Rightarrow> u64 \<Rightarrow> (u64 \<times> u32 \<times> u64) result" where
  "tagLow data tagId value =
     (if valueMultiBit data then
        (if value < 2 then
           (let tagId' = drop_bit 1 tagId
            in Inr (push_bit 2 (value AND 1) OR ucast (tagId AND 1) OR (if tagId' > 0 then 0x2 else 0), tagId', drop_bit 1 value))
         else
           (let tagId' = drop_bit 2 tagId
            in Inr (0x8 OR ucast (tagId AND 3) OR (if tagId' > 0 then 0x4 else 0), tagId', value)))
      else if valueSingleBit data then
        (let tagId' = drop_bit 2 tagId
         in Inr (push_bit 3 (value AND 1) OR ucast (tagId AND 3) OR (if tagId' > 0 then 0x4 else 0), tagId', drop_bit 1 value))
      else
        bindE (ASSERT (value = 0)) (\<lambda>_.
        let tagId' = drop_bit 3 tagId
        in Inr (ucast (tagId AND 7) OR (if tagId' > 0 then 0x8 else 0), tagId', value)))"

definition pckWriteTag :: "u32 \<Rightarrow> u32 \<Rightarrow> u64 \<Rightarrow> (PackWrite, unit) prog" where
  "pckWriteTag typeMap' id0 value0 =
     bindP tagTopW (\<lambda>topTag.
     bindP (liftP (ASSERT (id0 = 0 \<or> id0 > idLast topTag))) (\<lambda>_.
     let id' = (if id0 = 0 then idLast topTag + nullTotal topTag + 1 else id0)
     in bindP (setTopW (\<lambda>t. t\<lparr>nullTotal := 0\<rparr>)) (\<lambda>_.
        bindP (liftP (mapDataAt typeMap')) (\<lambda>data.
        bindP (liftP (tagLow data (id' - idLast topTag - 1) value0)) (\<lambda>(low, tagId, value).
        bindP (pckWriteBuffer [ucast ((if typeMap' \<ge> 0xF then 0xF0 else ucast (push_bit 4 typeMap')) OR low)]) (\<lambda>_.
        bindP (whenP (typeMap' \<ge> 0xF) (pckWriteU64Internal (ucast (typeMap' - 0xF)))) (\<lambda>_.
        bindP (whenP (tagId > 0) (pckWriteU64Internal (ucast tagId))) (\<lambda>_.
        bindP (whenP (value > 0) (pckWriteU64Internal value)) (\<lambda>_.
        setTopW (\<lambda>t. t\<lparr>idLast := id'\<rparr>))))))))))"

section \<open>Writing fields\<close>

definition pckWriteNull :: "(PackWrite, unit) prog" where
  "pckWriteNull = setTopW (\<lambda>t. t\<lparr>nullTotal := nullTotal t + 1\<rparr>)"

definition pckWriteDefaultNull :: "bool \<Rightarrow> bool \<Rightarrow> (PackWrite, bool) prog" where
  "pckWriteDefaultNull defaultWrite defaultEqual =
     (if \<not> defaultWrite \<and> defaultEqual then bindP (setTopW (\<lambda>t. t\<lparr>nullTotal := nullTotal t + 1\<rparr>)) (\<lambda>_. retP True)
      else retP False)"

definition pckWriteBegin :: "u32 \<Rightarrow> u32 \<Rightarrow> (PackWrite, unit) prog" where
  "pckWriteBegin typeMap' id0 =
     bindP (pckWriteTag typeMap' id0 0) (\<lambda>_.
     modifyP (\<lambda>this. this\<lparr>tagStackW := containerTag typeMap' # tagStackW this\<rparr>))"

text \<open>The end of a container; the assertion on the last tag reads the stack.\<close>

definition pckWriteEndOf :: "u32 \<Rightarrow> (PackWrite, unit) prog" where
  "pckWriteEndOf typeMap' =
     bindP (getP tagStackW) (\<lambda>stack.
     bindP (liftP (ASSERT (length stack \<noteq> 1 \<and> (case stack of [] \<Rightarrow> False | t # _ \<Rightarrow> typeMap t = typeMap')))) (\<lambda>_.
     bindP (pckWriteU64Internal 0) (\<lambda>_.
     modifyP (\<lambda>this. this\<lparr>tagStackW := tl (tagStackW this)\<rparr>))))"

definition pckWriteArrayBegin :: "u32 \<Rightarrow> (PackWrite, unit) prog" where
  "pckWriteArrayBegin = pckWriteBegin pckTypeMapArray"

definition pckWriteArrayEnd :: "(PackWrite, unit) prog" where
  "pckWriteArrayEnd = pckWriteEndOf pckTypeMapArray"

definition pckWriteObjBegin :: "u32 \<Rightarrow> (PackWrite, unit) prog" where
  "pckWriteObjBegin = pckWriteBegin pckTypeMapObj"

definition pckWriteObjEnd :: "(PackWrite, unit) prog" where
  "pckWriteObjEnd = pckWriteEndOf pckTypeMapObj"

definition pckWriteBin :: "byte list option \<Rightarrow> u32 \<Rightarrow> (PackWrite, unit) prog" where
  "pckWriteBin value id0 =
     bindP (pckWriteDefaultNull False (value = None)) (\<lambda>null.
     case value of
       Some bytes \<Rightarrow> whenP (\<not> null)
         (bindP (pckWriteTag pckTypeMapBin id0 (if bytes \<noteq> [] then 1 else 0)) (\<lambda>_.
          whenP (bytes \<noteq> []) (bindP (pckWriteU64Internal (word_of_nat (length bytes))) (\<lambda>_. pckWriteBuffer bytes))))
     | None \<Rightarrow> retP ())"

text \<open>A field whose value is in its tag.\<close>

definition pckWriteValue :: "u32 \<Rightarrow> ('a \<Rightarrow> u64) \<Rightarrow> 'a \<Rightarrow> u32 \<Rightarrow> bool \<Rightarrow> 'a \<Rightarrow> (PackWrite, unit) prog" where
  "pckWriteValue typeMap' convert value id0 defaultWrite defaultValue =
     bindP (pckWriteDefaultNull defaultWrite (value = defaultValue)) (\<lambda>null.
     whenP (\<not> null) (pckWriteTag typeMap' id0 (convert value)))"

definition pckWriteBool :: "bool \<Rightarrow> u32 \<Rightarrow> bool \<Rightarrow> bool \<Rightarrow> (PackWrite, unit) prog" where
  "pckWriteBool = pckWriteValue pckTypeMapBool of_bool"

definition pckWriteI32 :: "u32 \<Rightarrow> u32 \<Rightarrow> bool \<Rightarrow> u32 \<Rightarrow> (PackWrite, unit) prog" where
  "pckWriteI32 = pckWriteValue pckTypeMapI32 (\<lambda>v. ucast (cvtInt32ToZigZag v))"

definition pckWriteI64 :: "u64 \<Rightarrow> u32 \<Rightarrow> bool \<Rightarrow> u64 \<Rightarrow> (PackWrite, unit) prog" where
  "pckWriteI64 = pckWriteValue pckTypeMapI64 cvtInt64ToZigZag"

definition pckWriteMode :: "u32 \<Rightarrow> u32 \<Rightarrow> bool \<Rightarrow> u32 \<Rightarrow> (PackWrite, unit) prog" where
  "pckWriteMode = pckWriteValue pckTypeMapMode ucast"

text \<open>The bytes of a pack that was ended.\<close>

definition pckWriteBuf :: "PackWrite \<Rightarrow> byte list result" where
  "pckWriteBuf this = bindE (ASSERT (tagStackW this = [])) (\<lambda>_. Inr (bufferW this))"

definition pckWritePack :: "PackWrite option \<Rightarrow> u32 \<Rightarrow> (PackWrite, unit) prog" where
  "pckWritePack value id0 =
     bindP (pckWriteDefaultNull False (value = None)) (\<lambda>null.
     case value of
       Some pack \<Rightarrow> whenP (\<not> null)
         (bindP (pckWriteTag pckTypeMapPack id0 0) (\<lambda>_.
          bindP (liftP (pckWriteBuf pack)) (\<lambda>bytes.
          bindP (pckWriteU64Internal (word_of_nat (length bytes))) (\<lambda>_. pckWriteBuffer bytes))))
     | None \<Rightarrow> retP ())"

definition pckWritePtr :: "u64 \<Rightarrow> u32 \<Rightarrow> bool \<Rightarrow> (PackWrite, unit) prog" where
  "pckWritePtr value id0 defaultWrite = pckWriteValue pckTypeMapPtr id value id0 defaultWrite 0"

definition pckWriteStr :: "string option \<Rightarrow> u32 \<Rightarrow> bool \<Rightarrow> string option \<Rightarrow> (PackWrite, unit) prog" where
  "pckWriteStr value id0 defaultWrite defaultValue =
     bindP (pckWriteDefaultNull defaultWrite (strEq value defaultValue)) (\<lambda>null.
     whenP (\<not> null)
       (case value of
          None \<Rightarrow> throwP AssertError
        | Some s \<Rightarrow>
            bindP (pckWriteTag pckTypeMapStr id0 (if length s > 0 then 1 else 0)) (\<lambda>_.
            whenP (length s > 0)
              (bindP (pckWriteU64Internal (word_of_nat (length s))) (\<lambda>_. pckWriteBuffer (bytesOf s))))))"

definition pckWriteStrId :: "u64 \<Rightarrow> u32 \<Rightarrow> bool \<Rightarrow> u64 \<Rightarrow> (PackWrite, unit) prog" where
  "pckWriteStrId = pckWriteValue pckTypeMapStrId id"

definition pckWriteStrLst :: "string option list option \<Rightarrow> u32 \<Rightarrow> (PackWrite, unit) prog" where
  "pckWriteStrLst value id0 =
     bindP (pckWriteDefaultNull False (value = None)) (\<lambda>null.
     case value of
       Some strings \<Rightarrow> whenP (\<not> null)
         (bindP (pckWriteArrayBegin id0) (\<lambda>_.
          bindP (forP strings (\<lambda>s. pckWriteStr s 0 False None)) (\<lambda>_.
          pckWriteArrayEnd)))
     | None \<Rightarrow> retP ())"

definition pckWriteTime :: "u64 \<Rightarrow> u32 \<Rightarrow> bool \<Rightarrow> u64 \<Rightarrow> (PackWrite, unit) prog" where
  "pckWriteTime = pckWriteValue pckTypeMapTime cvtInt64ToZigZag"

definition pckWriteU32 :: "u32 \<Rightarrow> u32 \<Rightarrow> bool \<Rightarrow> u32 \<Rightarrow> (PackWrite, unit) prog" where
  "pckWriteU32 = pckWriteValue pckTypeMapU32 ucast"

definition pckWriteU64 :: "u64 \<Rightarrow> u32 \<Rightarrow> bool \<Rightarrow> u64 \<Rightarrow> (PackWrite, unit) prog" where
  "pckWriteU64 = pckWriteValue pckTypeMapU64 id"

definition pckWriteEnd :: "(PackWrite, unit) prog" where
  "pckWriteEnd =
     bindP (getP tagStackW) (\<lambda>stack.
     bindP (liftP (ASSERT (length stack = 1))) (\<lambda>_.
     bindP (pckWriteU64Internal 0) (\<lambda>_.
     bindP (modifyP (\<lambda>this. this\<lparr>tagStackW := []\<rparr>)) (\<lambda>_.
     bindP (getP writeIo) (\<lambda>io.
     bindP (getP bufferW) (\<lambda>buf.
     if io \<noteq> None then whenP (buf \<noteq> []) (ioWrite buf)
     else modifyP (\<lambda>this. this\<lparr>bufSizeAllocW := length (bufferW this)\<rparr>)))))))"

end
