(* ===== verification/PackRoundtrip.thy ===== *)
theory PackRoundtrip
  imports Pack
begin

text \<open>
  What is written to a pack is read back. The assertions \<open>rd\<close> and \<open>wr\<close> describe a reader by the bytes
  that are left and a writer by the bytes that came out, whether they go through an io and its
  buffer or not, so the lemmas on bytes, integers, tags and fields hold for both ways.
\<close>

section \<open>Readers by what is left\<close>

definition good :: "PackRead \<Rightarrow> bool" where
  "good r \<longleftrightarrow> bufferPos r \<le> bufferUsed r \<and> bufferUsed r \<le> length (buffer r) \<and>
     (readIo r \<noteq> None \<longrightarrow> bufferPos r = bufferUsed r \<and> 0 < bufSizeAlloc r)"

definition core :: "PackRead \<Rightarrow> u32 \<times> u32 \<times> u64 \<times> PackTagStack list" where
  "core r = (tagNextId r, tagNextTypeMap r, tagNextValue r, tagStack r)"

definition rd :: "byte list \<Rightarrow> u32 \<times> u32 \<times> u64 \<times> PackTagStack list \<Rightarrow> PackRead \<Rightarrow> bool" where
  "rd bs c r \<longleftrightarrow> good r \<and> unread r = bs \<and> core r = c"

text \<open>Enough bytes are left: the io does not run out.\<close>

lemma pckReadBuffer_ok:
  assumes "good r" "0 < n" "n \<le> length (unread r)"
  obtains k r' where "pckReadBuffer n r = (Inr k, r')" "0 < k" "k \<le> n"
    "bufferPos r' + k \<le> bufferUsed r'" "bufferUsed r' \<le> length (buffer r')"
    "unread r' = unread r" "core r' = core r"
    "readIo r' \<noteq> None \<longrightarrow> bufferPos r' + k = bufferUsed r' \<and> 0 < bufSizeAlloc r'"
proof (cases "readIo r")
  case None
  then have l: "length (unread r) = bufferUsed r - bufferPos r"
    using assms(1) by (simp add: unread_def good_def)
  then show ?thesis using that [of n r] assms None by (auto simp: pckReadBuffer_def good_def)
next
  case (Some io)
  then have u: "bufferPos r = bufferUsed r" "unread r = io" "0 < bufSizeAlloc r"
    using assms(1) by (auto simp: unread_def good_def)
  define l where "l = (if n < bufSizeAlloc r then n else bufSizeAlloc r)"
  have l: "0 < l" "l \<le> n" "l \<le> length io" using assms(2,3) u by (auto simp: l_def)
  let ?r = "r\<lparr>readIo := Some (drop l io), buffer := take l io, bufferPos := 0, bufferUsed := l\<rparr>"
  have "pckReadBuffer n r = (Inr l, ?r)"
    using Some u l assms(2) by (auto simp: pckReadBuffer_def ioReadSmall_def Let_def min_def simp flip: l_def)
  then show ?thesis using that [of l ?r] l u by (simp add: unread_def core_def)
qed

lemma advance:
  assumes "bufferPos r + k \<le> bufferUsed r" "bufferUsed r \<le> length (buffer r)"
    and "readIo r \<noteq> None \<longrightarrow> bufferPos r + k = bufferUsed r \<and> 0 < bufSizeAlloc r"
  shows "good (r\<lparr>bufferPos := bufferPos r + k\<rparr>)" "core (r\<lparr>bufferPos := bufferPos r + k\<rparr>) = core r"
    "take k (drop (bufferPos r) (buffer r)) = take k (unread r)"
    "unread (r\<lparr>bufferPos := bufferPos r + k\<rparr>) = drop k (unread r)"
proof -
  show "good (r\<lparr>bufferPos := bufferPos r + k\<rparr>)" "core (r\<lparr>bufferPos := bufferPos r + k\<rparr>) = core r"
    using assms by (auto simp: good_def core_def)
  show "take k (drop (bufferPos r) (buffer r)) = take k (unread r)"
    using assms(1,2) by (simp add: unread_def drop_take le_diff_conv2 min_absorb1)
  show "unread (r\<lparr>bufferPos := bufferPos r + k\<rparr>) = drop k (unread r)"
    using assms(1,2) by (simp add: unread_def add.commute)
qed

lemma yields_byte: "yields (rd (b # bs) c) pckReadByte b (rd bs c)"
proof (rule yieldsI)
  fix r assume r: "rd (b # bs) c r"
  then have g: "good r" "(0::nat) < 1" "1 \<le> length (unread r)" by (auto simp: rd_def)
  obtain k r' where k: "pckReadBuffer 1 r = (Inr k, r')" "0 < k" "k \<le> 1"
    "bufferPos r' + k \<le> bufferUsed r'" "bufferUsed r' \<le> length (buffer r')" "unread r' = unread r" "core r' = core r"
    "readIo r' \<noteq> None \<longrightarrow> bufferPos r' + k = bufferUsed r' \<and> 0 < bufSizeAlloc r'"
    by (rule pckReadBuffer_ok [OF g])
  then have 1: "k = 1" by simp
  note adv = advance [OF k(4,5,8)]
  have "buffer r' ! bufferPos r' = b"
    using adv(3) k(4,5,6) r 1 by (auto simp: rd_def take_Suc hd_drop_conv_nth)
  then show "\<exists>s'. pckReadByte r = (Inr b, s') \<and> rd bs c s'"
    using adv(1,2,4) k(1,6,7) r 1 by (auto simp: pckReadByte_def run_simps rd_def)
qed

lemma yields_chunks: "yields (rd (bs @ tail) c) (pckReadChunks (length bs)) bs (rd tail c)"
proof (induction bs rule: length_induct)
  case (1 bs)
  show ?case
  proof (cases "bs = []")
    case True
    then show ?thesis by (simp add: pckReadChunks.simps yields_ret)
  next
    case False
    show ?thesis
    proof (rule yieldsI)
      fix r assume r: "rd (bs @ tail) c r"
      then have g: "good r" "0 < length bs" "length bs \<le> length (unread r)" using False by (auto simp: rd_def)
      obtain k r' where k: "pckReadBuffer (length bs) r = (Inr k, r')" "0 < k" "k \<le> length bs"
        "bufferPos r' + k \<le> bufferUsed r'" "bufferUsed r' \<le> length (buffer r')" "unread r' = unread r" "core r' = core r"
        "readIo r' \<noteq> None \<longrightarrow> bufferPos r' + k = bufferUsed r' \<and> 0 < bufSizeAlloc r'"
        by (rule pckReadBuffer_ok [OF g])
      note adv = advance [OF k(4,5,8)]
      let ?r = "r'\<lparr>bufferPos := bufferPos r' + k\<rparr>"
      have "rd (drop k bs @ tail) c ?r" using adv(1,2,4) k(3,6,7) r by (simp add: rd_def)
      moreover have "yields (rd (drop k bs @ tail) c) (pckReadChunks (length (drop k bs))) (drop k bs) (rd tail c)"
        using 1 k(2) False by (metis length_drop diff_less length_greater_0_conv)
      ultimately obtain s' where "pckReadChunks (length bs - k) ?r = (Inr (drop k bs), s')" "rd tail c s'"
        by (auto dest: yieldsD)
      moreover have "take k (drop (bufferPos r') (buffer r')) = take k bs" using adv(3) k(3,6) r by (simp add: rd_def)
      ultimately show "\<exists>s'. pckReadChunks (length bs) r = (Inr bs, s') \<and> rd tail c s'"
        using False k(1,2) by (subst pckReadChunks.simps) (simp add: run_simps)
    qed
  qed
qed

section \<open>Base-128 integers\<close>

lemma varint_group:
  "push_bit (7 * i) (ucast ((ucast (v::u64) :: byte) AND 0x7F)) OR push_bit (7 * (i + 1)) (drop_bit 7 v) = push_bit (7 * i) v"
proof (rule bit_word_eqI)
  fix n assume "n < LENGTH(64)"
  have "(ucast v :: byte) AND 0x7F = take_bit 7 (ucast v)" by (simp add: take_bit_eq_mask mask_eq_exp_minus_1)
  moreover have "7 * i \<le> n \<Longrightarrow> n - 7 * i < 7 \<or> 7 * (i + 1) \<le> n \<and> 7 + (n - 7 * (i + 1)) = n - 7 * i" by auto
  ultimately show "bit (push_bit (7 * i) (ucast ((ucast v :: byte) AND 0x7F)) OR push_bit (7 * (i + 1)) (drop_bit 7 v)) n =
      bit (push_bit (7 * i) v) n"
    using \<open>n < LENGTH(64)\<close>
    by (auto simp: bit_or_iff bit_push_bit_iff bit_drop_bit_eq bit_take_bit_iff bit_ucast_iff)
qed

lemma ucast_or_80: "((ucast (v::u64) :: byte) OR 0x80) AND 0x7F = ucast v AND 0x7F" "\<not> ((ucast v :: byte) OR 0x80) < 0x80"
proof -
  show "((ucast v :: byte) OR 0x80) AND 0x7F = ucast v AND 0x7F"
    by (simp add: bit.conj_disj_distrib2)
  have "(0x80 :: byte) \<le> (ucast v :: byte) OR 0x80" by (rule le_word_or1)
  then show "\<not> ((ucast v :: byte) OR 0x80) < 0x80" by simp
qed

lemma unat_drop_bit_7: "unat (drop_bit 7 (v::u64)) = unat v div 128"
  by (simp add: unat_drop_bit_eq drop_bit_nat_def)

lemma yields_varint_loop:
  "0 < n \<Longrightarrow> unat v < 2 ^ (7 * n) \<Longrightarrow>
   yields (rd (varint v @ tail) c) (pckReadU64Loop n i acc) (acc OR push_bit (7 * i) v) (rd tail c)"
proof (induction v arbitrary: n i acc rule: varint.induct)
  case (1 v)
  obtain m where n: "n = Suc m" using 1(2) by (cases n) auto
  show ?case
  proof (cases "v \<ge> 0x80")
    case True
    then have "\<not> unat v < 128" by (simp add: word_le_nat_alt)
    then have "0 < m" using 1(3) n by (cases m) auto
    moreover have "unat (drop_bit 7 v) < 2 ^ (7 * m)"
      using 1(3) n by (simp add: unat_drop_bit_7 less_mult_imp_div_less mult.commute power_add)
    ultimately have "yields (rd (varint (drop_bit 7 v) @ tail) c)
        (pckReadU64Loop m (i + 1) (acc OR push_bit (7 * i) (ucast ((ucast v :: byte) AND 0x7F))))
        ((acc OR push_bit (7 * i) (ucast ((ucast v :: byte) AND 0x7F))) OR push_bit (7 * (i + 1)) (drop_bit 7 v)) (rd tail c)"
      by (rule 1(1) [OF True])
    then have "yields (rd (varint (drop_bit 7 v) @ tail) c)
        (pckReadU64Loop m (i + 1) (acc OR push_bit (7 * i) (ucast ((ucast v :: byte) AND 0x7F))))
        (acc OR push_bit (7 * i) v) (rd tail c)"
      by (simp only: or.assoc varint_group)
    then show ?thesis
      unfolding n pckReadU64Loop.simps varint.simps [of v] if_P [OF True] append_Cons
      by (intro yields_bind [OF yields_byte]) (simp add: ucast_or_80 Let_def)
  next
    case False
    then have lt: "unat v < 128" by (simp add: word_le_nat_alt not_le)
    then have "drop_bit 7 v = 0" by (simp add: unat_drop_bit_7 word_unat_eq_iff)
    then have "push_bit (7 * i) (ucast ((ucast v :: byte) AND 0x7F)) = push_bit (7 * i) v"
      using varint_group [of i v] by simp
    moreover have "(ucast v :: byte) < 0x80"
      using lt by (simp add: word_less_nat_alt unsigned_ucast_eq take_bit_nat_eq_self)
    ultimately show ?thesis
      unfolding n pckReadU64Loop.simps varint.simps [of v] if_not_P [OF False] append_Cons append_Nil
      by (intro yields_bind [OF yields_byte]) (simp add: Let_def yields_ret)
  qed
qed

lemma yields_varint: "yields (rd (varint v @ tail) c) pckReadU64Internal v (rd tail c)"
proof -
  have "unat v < 2 ^ 64" using unsigned_less [where ?'a = nat, of v] by simp
  then have "unat v < 2 ^ (7 * 10)" by simp
  then show ?thesis
    using yields_varint_loop [of 10 v tail c 0 0] by (simp add: pckReadU64Internal_def PACK_UINT64_SIZE_MAX_def)
qed

text \<open>Ten bytes, the size of the buffer, are enough.\<close>

lemma varint_length: "unat v < 2 ^ (7 * n) \<Longrightarrow> 0 < n \<Longrightarrow> length (varint v) \<le> n"
proof (induction v arbitrary: n rule: varint.induct)
  case (1 v)
  obtain m where n: "n = Suc m" using 1(3) by (cases n) auto
  show ?case
  proof (cases "v \<ge> 0x80")
    case True
    then have "\<not> unat v < 128" by (simp add: word_le_nat_alt)
    then have "0 < m" using 1(2) n by (cases m) auto
    moreover have "unat (drop_bit 7 v) < 2 ^ (7 * m)"
      using 1(2) n by (simp add: unat_drop_bit_7 less_mult_imp_div_less mult.commute power_add)
    ultimately show ?thesis using 1(1) [OF True] True n by (simp add: varint.simps [of v])
  qed (simp add: varint.simps [of v] n)
qed

section \<open>Tags\<close>

text \<open>The kinds of types with the values their tags can hold.\<close>

definition tagValid :: "u32 \<Rightarrow> u64 \<Rightarrow> bool" where
  "tagValid t v \<longleftrightarrow> unat t < length packTypeMapData \<and> type (packTypeMapData ! unat t) \<noteq> None \<and>
     (\<not> valueMultiBit (packTypeMapData ! unat t) \<longrightarrow> v < (if valueSingleBit (packTypeMapData ! unat t) then 2 else 1))"

definition optVarint :: "u64 \<Rightarrow> byte list" where
  "optVarint v = (if v > 0 then varint v else [])"

definition tagByte :: "u32 \<Rightarrow> u64 \<Rightarrow> byte" where
  "tagByte t low = ucast ((if t \<ge> 0xF then 0xF0 else ucast (push_bit 4 t)) OR low)"

definition tagBytes :: "u32 \<Rightarrow> u32 \<Rightarrow> u64 \<Rightarrow> byte list" where
  "tagBytes t tagId v = (case tagLow (packTypeMapData ! unat t) tagId v of
     Inl _ \<Rightarrow> []
   | Inr (low, tagId', v') \<Rightarrow>
       tagByte t low # (if t \<ge> 0xF then varint (ucast (t - 0xF)) else []) @ optVarint (ucast tagId') @ optVarint v')"

lemma bit_below_16: "unat (x :: 'a::len word) < 16 \<Longrightarrow> bit x n \<Longrightarrow> n < 4"
proof -
  assume "unat x < 16" "bit x n"
  then have "bit (unat x) n" "unat x < 2 ^ 4" by (simp_all add: bit_simps bit_imp_le_length)
  then show "n < 4" by (metis bit_nat_bounded)
qed

lemma tagByte_bits:
  assumes "unat (t :: u32) < 16" "unat low < 16"
  shows "bit (ucast (ucast (ucast (push_bit 4 t) OR low :: u64) :: byte) :: u32) n \<longleftrightarrow> (if n < 4 then bit low n else bit t (n - 4))"
  using bit_below_16 [OF assms(1), of "n - 4"] bit_below_16 [OF assms(2), of n]
  by (auto simp: bit_ucast_iff bit_or_iff bit_push_bit_iff)

lemma tagByte_head:
  "tagByte t low = ucast (ucast (push_bit 4 (if t \<ge> 0xF then 0xF else t)) OR low :: u64)"
  by (simp add: tagByte_def)

lemma tagByte_read:
  assumes "unat low < 16" "t \<noteq> 0"
  defines "tag \<equiv> ucast (tagByte t low) :: u32"
  shows "drop_bit 4 tag = (if t \<ge> 0xF then 0xF else t)" "tag \<noteq> 0"
    "unat m < 16 \<Longrightarrow> tag AND m = ucast (low AND ucast m)"
proof -
  let ?t = "if t \<ge> 0xF then 0xF else t"
  have t: "unat ?t < 16" "?t \<noteq> 0" using assms(2) by (auto simp: word_le_nat_alt)
  note bits = tagByte_bits [OF t(1) assms(1), folded tagByte_head tag_def]
  show d: "drop_bit 4 tag = ?t"
    by (rule bit_word_eqI) (simp only: bit_drop_bit_eq o_def bits, simp)
  show "tag \<noteq> 0" using d t(2) by auto
  show "tag AND m = ucast (low AND ucast m)" if "unat m < 16"
    by (rule bit_word_eqI) (use bit_below_16 [OF that] in \<open>auto simp: bit_and_iff bits bit_ucast_iff\<close>)
qed

lemma ucast_up_down [simp]: "(ucast (ucast (d::u32) :: u64) :: u32) = d"
  by (rule bit_word_eqI) (simp add: bit_ucast_iff)

lemma ucast_up_0 [simp]: "(ucast (d::u32) :: u64) = 0 \<longleftrightarrow> d = 0"
  using ucast_up_down [of d] by fastforce

lemma yields_high:
  "yields (rd (optVarint (ucast (d :: u32)) @ tail) c) (tagIdHigh (d > 0) k) (push_bit k d) (rd tail c)"
proof (cases "d > 0")
  case True
  then have "(ucast d :: u64) > 0" by (simp add: word_gt_0)
  then show ?thesis
    unfolding tagIdHigh_def optVarint_def
    using True by (auto intro!: yields_bind [OF yields_varint] simp: yields_ret)
qed (simp add: tagIdHigh_def optVarint_def yields_ret word_gt_0)

lemma yields_high_ret:
  "(q OR push_bit k d, v) = z \<Longrightarrow>
   yields (rd (optVarint (ucast d) @ tail) c) (bindP (tagIdHigh (d > 0) k) (\<lambda>high. retP (q OR high, v))) z (rd tail c)"
  by (rule yields_bind [OF yields_high]) (simp add: yields_ret)

lemma split_low: "(x AND mask k) OR push_bit k (drop_bit k x) = (x :: u32)"
proof (rule bit_word_eqI)
  fix n
  show "bit ((x AND mask k) OR push_bit k (drop_bit k x)) n = bit x n" if "n < LENGTH(32)"
    using that by (cases "n < k") (auto simp: bit_or_iff bit_and_iff bit_mask_iff bit_push_bit_iff bit_drop_bit_eq)
qed

text \<open>The low bits of a tag, by the kind of its type, are four bits from which the reader takes the parts again.\<close>

lemma and_cases:
  "(x :: u32) AND 1 = 0 \<or> x AND 1 = 1"
  "x AND 3 = 0 \<or> x AND 3 = 1 \<or> x AND 3 = 2 \<or> x AND 3 = 3"
  "x AND 7 = 0 \<or> x AND 7 = 1 \<or> x AND 7 = 2 \<or> x AND 7 = 3 \<or> x AND 7 = 4 \<or> x AND 7 = 5 \<or> x AND 7 = 6 \<or> x AND 7 = 7"
proof -
  have "unat (x AND 1) < 2" "unat (x AND 3) < 4" "unat (x AND 7) < 8"
    using word_and_le1 [of x 1] word_and_le1 [of x 3] word_and_le1 [of x 7] by (auto simp: word_le_nat_alt)
  then show "x AND 1 = 0 \<or> x AND 1 = 1"
    "x AND 3 = 0 \<or> x AND 3 = 1 \<or> x AND 3 = 2 \<or> x AND 3 = 3"
    "x AND 7 = 0 \<or> x AND 7 = 1 \<or> x AND 7 = 2 \<or> x AND 7 = 3 \<or> x AND 7 = 4 \<or> x AND 7 = 5 \<or> x AND 7 = 6 \<or> x AND 7 = 7"
    by (auto simp: word_unat_eq_iff)
qed

lemma less_2_cases: "(v :: u64) < 2 \<Longrightarrow> v = 0 \<or> v = 1"
  by (auto simp: word_less_nat_alt word_unat_eq_iff)

lemma drop_and: "drop_bit 2 (x :: u32) AND 3 = drop_bit 2 (x AND 12)" "drop_bit 3 x AND 1 = drop_bit 3 (x AND 8)"
  by (simp_all add: drop_bit_and)

lemma split_low_eqs:
  "(x :: u32) AND 1 OR push_bit 1 (drop_bit 1 x) = x" "x AND 3 OR push_bit 2 (drop_bit 2 x) = x" "x AND 7 OR push_bit 3 (drop_bit 3 x) = x"
  using split_low [of x 1] split_low [of x 2] split_low [of x 3] by (simp_all add: mask_eq_exp_minus_1)

text \<open>The bits of the tag in each of the four layouts.\<close>

lemma low_small:
  fixes tag q :: u32
  assumes "q = 0 \<or> q = 1" "v = 0 \<or> v = 1" and low: "low = push_bit 2 (v AND 1) OR ucast q OR (if w then 0x2 else 0 :: u64)"
  shows "unat low < 16" and "(\<And>m. unat m < 16 \<Longrightarrow> tag AND m = ucast (low AND ucast m)) \<Longrightarrow>
    tag AND 0x8 = 0 \<and> (tag AND 0x2 \<noteq> 0 \<longleftrightarrow> w) \<and> tag AND 0x1 = q \<and> ucast (drop_bit 2 tag AND 0x3) = v"
proof -
  show "unat low < 16" unfolding low using assms(1,2) by (cases w; elim disjE; simp)
  assume e: "\<And>m. unat m < 16 \<Longrightarrow> tag AND m = ucast (low AND ucast m)"
  have "tag AND 0x8 = ucast (low AND ucast (0x8 :: u32))" "tag AND 0x2 = ucast (low AND ucast (0x2 :: u32))"
    "tag AND 0x1 = ucast (low AND ucast (0x1 :: u32))" "tag AND 0xC = ucast (low AND ucast (0xC :: u32))"
    by (rule e, simp)+
  then show "tag AND 0x8 = 0 \<and> (tag AND 0x2 \<noteq> 0 \<longleftrightarrow> w) \<and> tag AND 0x1 = q \<and> ucast (drop_bit 2 tag AND 0x3) = v"
    unfolding drop_and low using assms(1,2) by (cases w; elim disjE; simp)
qed

lemma low_large:
  fixes tag q :: u32
  assumes "q = 0 \<or> q = 1 \<or> q = 2 \<or> q = 3" and low: "low = 0x8 OR ucast q OR (if w then 0x4 else 0 :: u64)"
  shows "unat low < 16" and "(\<And>m. unat m < 16 \<Longrightarrow> tag AND m = ucast (low AND ucast m)) \<Longrightarrow>
    tag AND 0x8 \<noteq> 0 \<and> (tag AND 0x4 \<noteq> 0 \<longleftrightarrow> w) \<and> tag AND 0x3 = q"
proof -
  show "unat low < 16" unfolding low using assms(1) by (cases w; elim disjE; simp)
  assume e: "\<And>m. unat m < 16 \<Longrightarrow> tag AND m = ucast (low AND ucast m)"
  have "tag AND 0x8 = ucast (low AND ucast (0x8 :: u32))" "tag AND 0x4 = ucast (low AND ucast (0x4 :: u32))"
    "tag AND 0x3 = ucast (low AND ucast (0x3 :: u32))"
    by (rule e, simp)+
  then show "tag AND 0x8 \<noteq> 0 \<and> (tag AND 0x4 \<noteq> 0 \<longleftrightarrow> w) \<and> tag AND 0x3 = q"
    unfolding low using assms(1) by (cases w; elim disjE; simp)
qed

lemma low_single:
  fixes tag q :: u32
  assumes "q = 0 \<or> q = 1 \<or> q = 2 \<or> q = 3" "v = 0 \<or> v = 1" and low: "low = push_bit 3 (v AND 1) OR ucast q OR (if w then 0x4 else 0 :: u64)"
  shows "unat low < 16" and "(\<And>m. unat m < 16 \<Longrightarrow> tag AND m = ucast (low AND ucast m)) \<Longrightarrow>
    (tag AND 0x4 \<noteq> 0 \<longleftrightarrow> w) \<and> tag AND 0x3 = q \<and> ucast (drop_bit 3 tag AND 0x1) = v"
proof -
  show "unat low < 16" unfolding low using assms(1,2) by (cases w; elim disjE; simp)
  assume e: "\<And>m. unat m < 16 \<Longrightarrow> tag AND m = ucast (low AND ucast m)"
  have "tag AND 0x8 = ucast (low AND ucast (0x8 :: u32))" "tag AND 0x4 = ucast (low AND ucast (0x4 :: u32))"
    "tag AND 0x3 = ucast (low AND ucast (0x3 :: u32))"
    by (rule e, simp)+
  then show "(tag AND 0x4 \<noteq> 0 \<longleftrightarrow> w) \<and> tag AND 0x3 = q \<and> ucast (drop_bit 3 tag AND 0x1) = v"
    unfolding drop_and low using assms(1,2) by (cases w; elim disjE; simp)
qed

lemma low_container:
  fixes tag q :: u32
  assumes "q = 0 \<or> q = 1 \<or> q = 2 \<or> q = 3 \<or> q = 4 \<or> q = 5 \<or> q = 6 \<or> q = 7" and low: "low = ucast q OR (if w then 0x8 else 0 :: u64)"
  shows "unat low < 16" and "(\<And>m. unat m < 16 \<Longrightarrow> tag AND m = ucast (low AND ucast m)) \<Longrightarrow> (tag AND 0x8 \<noteq> 0 \<longleftrightarrow> w) \<and> tag AND 0x7 = q"
proof -
  show "unat low < 16" unfolding low using assms(1) by (cases w; elim disjE; simp)
  assume e: "\<And>m. unat m < 16 \<Longrightarrow> tag AND m = ucast (low AND ucast m)"
  have "tag AND 0x8 = ucast (low AND ucast (0x8 :: u32))" "tag AND 0x7 = ucast (low AND ucast (0x7 :: u32))"
    by (rule e, simp)+
  then show "(tag AND 0x8 \<noteq> 0 \<longleftrightarrow> w) \<and> tag AND 0x7 = q"
    unfolding low using assms(1) by (cases w; elim disjE; simp)
qed

lemma yields_tagValue:
  assumes "tagValid t v" "tagLow (packTypeMapData ! unat t) tagId v = Inr (low, tagId', v')" "t \<noteq> 0"
  shows "unat low < 16" and
    "yields (rd (optVarint (ucast tagId') @ optVarint v' @ tail) c)
      (pckReadTagValue (packTypeMapData ! unat t) (ucast (tagByte t low))) (tagId, v) (rd tail c)"
proof -
  let ?d = "packTypeMapData ! unat t"
  let ?tag = "ucast (tagByte t low) :: u32"
  consider (small) "valueMultiBit ?d" "v < 2" | (large) "valueMultiBit ?d" "\<not> v < 2"
    | (single) "\<not> valueMultiBit ?d" "valueSingleBit ?d" "v < 2" | (container) "\<not> valueMultiBit ?d" "\<not> valueSingleBit ?d" "v = 0"
    using assms(1) unfolding tagValid_def by (auto split: if_splits)
  then have "unat low < 16 \<and> yields (rd (optVarint (ucast tagId') @ optVarint v' @ tail) c)
      (pckReadTagValue ?d ?tag) (tagId, v) (rd tail c)"
  proof cases
    case small
    then have l: "low = push_bit 2 (v AND 1) OR ucast (tagId AND 1) OR (if drop_bit 1 tagId > 0 then 0x2 else 0)"
      "tagId' = drop_bit 1 tagId" "v' = 0"
      using assms(2) less_2_cases [OF small(2)] by (auto simp: tagLow_def Let_def)
    note low = low_small [OF and_cases(1) less_2_cases [OF small(2)] l(1)]
    note lt = low(1)
    note rd = tagByte_read(3) [OF lt assms(3)]
    have "?tag AND 0x8 = 0" "?tag AND 0x2 \<noteq> 0 \<longleftrightarrow> drop_bit 1 tagId > 0" "?tag AND 0x1 = tagId AND 1" "ucast (drop_bit 2 ?tag AND 0x3) = v"
      using low(2) [OF rd] by blast+
    then have "pckReadTagValue ?d ?tag = bindP (tagIdHigh (drop_bit 1 tagId > 0) 1) (\<lambda>high. retP ((tagId AND 1) OR high, v))"
      unfolding pckReadTagValue_def if_P [OF small(1)] by (simp only: simp_thms if_False)
    then show ?thesis
      using lt
      by (simp only: l(2,3) optVarint_def [of 0] less_irrefl if_False append_Nil simp_thms split_low_eqs yields_high_ret)
  next
    case large
    then have l: "low = 0x8 OR ucast (tagId AND 3) OR (if drop_bit 2 tagId > 0 then 0x4 else 0)" "tagId' = drop_bit 2 tagId" "v' = v"
      using assms(2) by (auto simp: tagLow_def Let_def)
    note low = low_large [OF and_cases(2) l(1)]
    note lt = low(1)
    note rd = tagByte_read(3) [OF lt assms(3)]
    have "?tag AND 0x8 \<noteq> 0" "?tag AND 0x4 \<noteq> 0 \<longleftrightarrow> drop_bit 2 tagId > 0" "?tag AND 0x3 = tagId AND 3"
      using low(2) [OF rd] by blast+
    then have "pckReadTagValue ?d ?tag = bindP (tagIdHigh (drop_bit 2 tagId > 0) 2) (\<lambda>high.
        bindP pckReadU64Internal (\<lambda>value. retP ((tagId AND 3) OR high, value)))"
      unfolding pckReadTagValue_def if_P [OF large(1)] by (simp only: simp_thms if_True)
    moreover have "optVarint v = varint v" using large(2) by (auto simp: optVarint_def word_gt_0)
    moreover have "yields (rd (varint v @ tail) c) (bindP pckReadU64Internal (\<lambda>value. retP ((tagId AND 3) OR push_bit 2 (drop_bit 2 tagId), value)))
        (tagId, v) (rd tail c)"
      by (rule yields_bind [OF yields_varint]) (simp only: split_low_eqs yields_ret)
    ultimately show ?thesis
      using lt by (simp only: l(2,3) simp_thms yields_bind [OF yields_high])
  next
    case single
    then have l: "low = push_bit 3 (v AND 1) OR ucast (tagId AND 3) OR (if drop_bit 2 tagId > 0 then 0x4 else 0)"
      "tagId' = drop_bit 2 tagId" "v' = 0"
      using assms(2) less_2_cases [OF single(3)] by (auto simp: tagLow_def Let_def)
    note low = low_single [OF and_cases(2) less_2_cases [OF single(3)] l(1)]
    note lt = low(1)
    note rd = tagByte_read(3) [OF lt assms(3)]
    have "?tag AND 0x4 \<noteq> 0 \<longleftrightarrow> drop_bit 2 tagId > 0" "?tag AND 0x3 = tagId AND 3" "ucast (drop_bit 3 ?tag AND 0x1) = v"
      using low(2) [OF rd] by blast+
    then have "pckReadTagValue ?d ?tag = bindP (tagIdHigh (drop_bit 2 tagId > 0) 2) (\<lambda>high. retP ((tagId AND 3) OR high, v))"
      unfolding pckReadTagValue_def if_not_P [OF single(1)] if_P [OF single(2)] by (simp only:)
    then show ?thesis
      using lt
      by (simp only: l(2,3) optVarint_def [of 0] less_irrefl if_False append_Nil simp_thms split_low_eqs yields_high_ret)
  next
    case container
    then have l: "low = ucast (tagId AND 7) OR (if drop_bit 3 tagId > 0 then 0x8 else 0)" "tagId' = drop_bit 3 tagId" "v' = 0"
      using assms(2) by (auto simp: tagLow_def Let_def)
    note low = low_container [OF and_cases(3) l(1)]
    note lt = low(1)
    note rd = tagByte_read(3) [OF lt assms(3)]
    have "?tag AND 0x8 \<noteq> 0 \<longleftrightarrow> drop_bit 3 tagId > 0" "?tag AND 0x7 = tagId AND 7"
      using low(2) [OF rd] by blast+
    then have "pckReadTagValue ?d ?tag = bindP (tagIdHigh (drop_bit 3 tagId > 0) 3) (\<lambda>high. retP ((tagId AND 7) OR high, 0))"
      unfolding pckReadTagValue_def if_not_P [OF container(1)] if_not_P [OF container(2)] by (simp only:)
    then show ?thesis
      using lt container(3)
      by (simp only: l(2,3) optVarint_def [of 0] less_irrefl if_False append_Nil simp_thms split_low_eqs yields_high_ret)
  qed
  then show "unat low < 16" "yields (rd (optVarint (ucast tagId') @ optVarint v' @ tail) c)
      (pckReadTagValue ?d ?tag) (tagId, v) (rd tail c)" by blast+
qed

lemma tagValid_nonzero: "tagValid t v \<Longrightarrow> t \<noteq> 0"
  by (auto simp: tagValid_def packTypeMapData_def Let_def)

lemma tagLow_ok: "tagValid t v \<Longrightarrow> \<exists>low tagId' v'. tagLow (packTypeMapData ! unat t) tagId v = Inr (low, tagId', v')"
  by (auto simp: tagValid_def tagLow_def Let_def split: if_splits)

lemma rd_update:
  "rd bs (n, t, v, st) r \<Longrightarrow> rd bs (n, t', v, st) (r\<lparr>tagNextTypeMap := t'\<rparr>)"
  "rd bs (n, t, v, st) r \<Longrightarrow> rd bs (n', t, v', st) (r\<lparr>tagNextId := n', tagNextValue := v'\<rparr>)"
  "rd bs (n, t, v, st) r \<Longrightarrow> rd bs (n', t, v, st) (r\<lparr>tagNextId := n'\<rparr>)"
  "rd bs (n, t, v, st) r \<Longrightarrow> rd bs (n, t, v, st') (r\<lparr>tagStack := st'\<rparr>)"
  by (auto simp: rd_def good_def core_def unread_def)

lemma rd_core: "rd bs (n, t, v, st) r \<Longrightarrow> tagNextId r = n \<and> tagNextTypeMap r = t \<and> tagNextValue r = v \<and> tagStack r = st \<and> unread r = bs"
  by (auto simp: rd_def core_def)

lemma yields_update:
  "yields (rd bs (n, t, v, st)) (modifyP (\<lambda>r. r\<lparr>tagNextTypeMap := t'\<rparr>)) () (rd bs (n, t', v, st))"
  "yields (rd bs (n, t, v, st)) (modifyP (\<lambda>r. r\<lparr>tagNextId := n', tagNextValue := v'\<rparr>)) () (rd bs (n', t, v', st))"
  "yields (rd bs (n, t, v, st)) (modifyP (\<lambda>r. r\<lparr>tagNextId := n'\<rparr>)) () (rd bs (n', t, v, st))"
  by (rule yields_modify, erule rd_update)+

lemma yields_tagTop: "yields (rd bs (n, t, v, topTag # st)) tagTop topTag (rd bs (n, t, v, topTag # st))"
  by (rule yieldsI, frule rd_core) (simp add: tagTop_def)

lemma yields_setIdLast: "yields (rd bs (n, t, v, topTag # st)) (setIdLast i) () (rd bs (n, t, v, topTag\<lparr>idLast := i\<rparr> # st))"
  by (rule yieldsI, frule rd_core) (simp add: setIdLast_def rd_update(4))

lemma yields_tagNext:
  assumes "tagValid t v"
  shows "yields (rd (tagBytes t tagId v @ tail) (n0, t0, v0, topTag # st)) pckReadTagNext True
    (rd tail (tagId + (idLast topTag + 1), t, v, topTag # st))"
proof -
  note nz = tagValid_nonzero [OF assms]
  obtain low tagId' v' where l: "tagLow (packTypeMapData ! unat t) tagId v = Inr (low, tagId', v')"
    using tagLow_ok [OF assms] by blast
  note val = yields_tagValue [OF assms l nz]
  note tag = tagByte_read [OF val(1) nz]
  have tmap: "yields (rd ((if t \<ge> 0xF then varint (ucast (t - 0xF)) else []) @ bs) c)
      (if drop_bit 4 (ucast (tagByte t low) :: u32) = 0xF
       then bindP pckReadU64Internal (\<lambda>t. retP (ucast t + 0xF)) else retP (drop_bit 4 (ucast (tagByte t low)))) t (rd bs c)" for bs c
  proof (cases "t \<ge> 0xF")
    case True
    have "yields (rd (varint (ucast (t - 0xF)) @ bs) c) (bindP pckReadU64Internal (\<lambda>t. retP (ucast t + 0xF))) t (rd bs c)"
      by (rule yields_bind [OF yields_varint]) (simp add: yields_ret)
    then show ?thesis using True by (simp add: tag(1))
  next
    case False
    then show ?thesis using yields_ret by (auto simp: tag(1))
  qed
  have chk: "ASSERT (unat t < length packTypeMapData \<and> type (packTypeMapData ! unat t) \<noteq> None) = Inr ()"
    using assms by (simp add: tagValid_def)
  show ?thesis
    unfolding tagBytes_def l sum.case prod.case append_Cons append_assoc pckReadTagNext_def Let_def
    apply (rule yields_bind [OF yields_byte])
    apply (simp only: tag(2) if_False)
    apply (rule yields_bind [OF tmap])
    apply (rule yields_bind [OF yields_update(1)])
    apply (rule yields_bind [OF yields_lift, OF chk])
    apply (rule yields_bind [OF val(2)])
    apply (simp only: prod.case)
    apply (rule yields_bind [OF yields_tagTop])
    apply (rule yields_bind [OF yields_update(2)])
    by (rule yields_ret)
qed

lemma yields_tagEnd:
  "yields (rd (0 # tail) (n0, t0, v0, st)) pckReadTagNext False (rd tail (UINT_MAX, t0, v0, st))"
  unfolding pckReadTagNext_def Let_def
  apply (rule yields_bind [OF yields_byte])
  apply (simp only: ucast_0 if_True refl)
  apply (rule yields_bind [OF yields_update(3)])
  by (rule yields_ret)

section \<open>Zigzag\<close>

lemma neg_and_1: "NOT ((x :: 'a::len word) AND 1) + 1 = (if bit x 0 then - 1 else 0)"
  by (simp add: bit_0 and_one_eq odd_iff_mod_2_eq_one flip: minus_eq_not_plus_1)

lemma zigzag_word:
  fixes x :: "'a::len word"
  assumes k: "LENGTH('a) = Suc k"
  defines "z \<equiv> push_bit 1 x XOR signed_drop_bit k x"
  shows "drop_bit 1 z XOR (NOT (z AND 1) + 1) = x"
proof -
  have z: "bit z n \<longleftrightarrow> (if n = 0 then bit x k else bit x (n - 1) \<noteq> bit x k)" if "n \<le> k" for n
    using that unfolding z_def bit_xor_iff bit_push_bit_iff bit_signed_drop_bit_iff by (auto simp: k)
  show ?thesis
    unfolding neg_and_1
  proof (rule bit_word_eqI)
    fix n assume "n < LENGTH('a)"
    then have n: "n < k \<or> n = k" by (auto simp: k)
    have "bit (drop_bit 1 z) n \<longleftrightarrow> n < k \<and> bit x n \<noteq> bit x k"
      unfolding bit_drop_bit_eq o_def using n z [of "1 + n"] bit_imp_le_length [of z "1 + n"] by (auto simp: k)
    then show "bit (drop_bit 1 z XOR (if bit z 0 then - 1 else 0)) n = bit x n"
      unfolding bit_xor_iff using n z [of 0] \<open>n < LENGTH('a)\<close> by auto
  qed
qed

lemma zigzag32: "cvtInt32FromZigZag (cvtInt32ToZigZag x) = x"
  unfolding cvtInt32FromZigZag_def cvtInt32ToZigZag_def by (rule zigzag_word) simp

lemma zigzag64: "cvtInt64FromZigZag (cvtInt64ToZigZag x) = x"
  unfolding cvtInt64FromZigZag_def cvtInt64ToZigZag_def by (rule zigzag_word) simp

section \<open>Writers by what came out\<close>

definition wr :: "byte list \<Rightarrow> PackTagStack list \<Rightarrow> PackWrite \<Rightarrow> bool" where
  "wr out st w \<longleftrightarrow> (case writeIo w of None \<Rightarrow> [] | Some io \<Rightarrow> io) @ bufferW w = out \<and> tagStackW w = st"

lemma yields_writeBuffer: "yields (wr out st) (pckWriteBuffer bs) () (wr (out @ bs) st)"
  by (rule yieldsI)
    (auto simp: pckWriteBuffer_def run_simps wr_def bufCatW_def ioWrite_def split: option.splits)

lemma yields_writeVarint: "yields (wr out st) (pckWriteU64Internal v) () (wr (out @ varint v) st)"
  unfolding pckWriteU64Internal_def by (rule yields_writeBuffer)

lemma yields_writeOpt: "yields (wr out st) (whenP (v > 0) (pckWriteU64Internal v)) () (wr (out @ optVarint v) st)"
  by (rule yields_when) (simp_all add: optVarint_def yields_writeVarint)

lemma yields_setTop: "yields (wr out (topTag # st)) (setTopW f) () (wr out (f topTag # st))"
  by (rule yieldsI) (simp add: setTopW_def wr_def)

lemma yields_tagTopW: "yields (wr out (topTag # st)) tagTopW topTag (wr out (topTag # st))"
  by (rule yieldsI) (simp add: tagTopW_def wr_def)

lemma yields_writeTag:
  assumes "tagValid t v"
  shows "yields (wr out (topTag # st)) (pckWriteTag t 0 v) ()
    (wr (out @ tagBytes t (nullTotal topTag) v) (topTag\<lparr>nullTotal := 0, idLast := idLast topTag + nullTotal topTag + 1\<rparr> # st))"
proof -
  obtain low tagId' v' where l: "tagLow (packTypeMapData ! unat t) (nullTotal topTag) v = Inr (low, tagId', v')"
    using tagLow_ok [OF assms] by blast
  have d: "mapDataAt t = Inr (packTypeMapData ! unat t)" using assms by (simp add: mapDataAt_def tagValid_def)
  have l': "tagLow (packTypeMapData ! unat t) (idLast topTag + nullTotal topTag + 1 - idLast topTag - 1) v = Inr (low, tagId', v')"
    using l by simp
  have big: "yields (wr out' st') (whenP (t \<ge> 0xF) (pckWriteU64Internal (ucast (t - 0xF)))) ()
      (wr (out' @ (if t \<ge> 0xF then varint (ucast (t - 0xF)) else [])) st')" for out' st'
    by (rule yields_when) (simp_all add: yields_writeVarint)
  have idh: "yields (wr out' st') (whenP (tagId' > 0) (pckWriteU64Internal (ucast tagId'))) () (wr (out' @ optVarint (ucast tagId')) st')"
    for out' st' by (rule yields_when) (simp_all add: optVarint_def yields_writeVarint word_gt_0)
  show ?thesis
    unfolding pckWriteTag_def Let_def
    apply (rule yields_bind [OF yields_tagTopW])
    apply (rule yields_bind [OF yields_lift], simp)
    apply (rule yields_bind [OF yields_setTop])
    apply (rule yields_bind [OF yields_lift, OF d])
    apply (simp only: if_True refl)
    apply (rule yields_bind [OF yields_lift, OF l'])
    apply (simp only: prod.case)
    apply (rule yields_bind [OF yields_writeBuffer])
    apply (rule yields_bind [OF big])
    apply (rule yields_bind [OF idh])
    apply (rule yields_bind [OF yields_writeOpt])
    apply (rule yields_post [OF yields_setTop])
    by (simp add: tagBytes_def l tagByte_def)
qed

end
