(* ===== verification/PackFields.thy ===== *)
theory PackFields
  imports PackRoundtrip
begin

text \<open>
  Whole packs: nested fields written one after the other, with null fields and defaults that are not
  stored, and read again in the same order. A field is written with the next id, as the callers
  of pack.c do, and a value equal to its default is left out.
\<close>

section \<open>Fields\<close>

datatype PackField =
    PackNull | PackBool bool | PackI32 u32 | PackI64 u64 | PackMode u32 | PackPtr u64 | PackStr string | PackStrId u64
  | PackTime u64 | PackU32 u32 | PackU64 u64 | PackBin "byte list" | PackBuf "byte list"
  | PackArray "PackField list" | PackObj "PackField list" | PackStrNull
  | PackBufNull | PackU32Stored u32

text \<open>Writing a field with the functions of pack.c.\<close>

fun writeField :: "PackField \<Rightarrow> (PackWrite, unit) prog"
  and writeFields :: "PackField list \<Rightarrow> (PackWrite, unit) prog" where
  "writeField PackNull = pckWriteNull"
| "writeField (PackBool x) = pckWriteBool x 0 False False"
| "writeField (PackI32 x) = pckWriteI32 x 0 False 0"
| "writeField (PackI64 x) = pckWriteI64 x 0 False 0"
| "writeField (PackMode x) = pckWriteMode x 0 False 0"
| "writeField (PackPtr x) = pckWritePtr x 0 False"
| "writeField (PackStr x) = pckWriteStr (Some x) 0 False None"
| "writeField (PackStrId x) = pckWriteStrId x 0 False 0"
| "writeField (PackTime x) = pckWriteTime x 0 False 0"
| "writeField (PackU32 x) = pckWriteU32 x 0 False 0"
| "writeField (PackU64 x) = pckWriteU64 x 0 False 0"
| "writeField (PackBin x) = pckWriteBin (Some x) 0"
| "writeField (PackBuf x) = pckWritePack (Some (pckWriteNewInternal\<lparr>bufferW := x, tagStackW := []\<rparr>)) 0"
| "writeField (PackArray fs) = bindP (pckWriteArrayBegin 0) (\<lambda>_. bindP (writeFields fs) (\<lambda>_. pckWriteArrayEnd))"
| "writeField (PackObj fs) = bindP (pckWriteObjBegin 0) (\<lambda>_. bindP (writeFields fs) (\<lambda>_. pckWriteObjEnd))"
| "writeField PackStrNull = pckWriteStr None 0 False None"
| "writeField PackBufNull = pckWritePack None 0"
| "writeField (PackU32Stored x) = pckWriteU32 x 0 True 0"
| "writeFields [] = retP ()"
| "writeFields (f # fs) = bindP (writeField f) (\<lambda>_. writeFields fs)"

text \<open>Reading a field of the same type; only the constructors of the argument are used.\<close>

definition present :: "('a \<Rightarrow> PackField) \<Rightarrow> 'a option \<Rightarrow> (PackRead, PackField) prog" where
  "present f x = (case x of None \<Rightarrow> throwP FormatError | Some y \<Rightarrow> retP (f y))"

fun readField :: "PackField \<Rightarrow> (PackRead, PackField) prog"
  and readFields :: "PackField list \<Rightarrow> (PackRead, PackField list) prog" where
  "readField PackNull = bindP (pckReadNull 0) (\<lambda>null. if null then retP PackNull else throwP FormatError)"
| "readField (PackBool _) = bindP (pckReadBool 0 False) (\<lambda>x. retP (PackBool x))"
| "readField (PackI32 _) = bindP (pckReadI32 0 0) (\<lambda>x. retP (PackI32 x))"
| "readField (PackI64 _) = bindP (pckReadI64 0 0) (\<lambda>x. retP (PackI64 x))"
| "readField (PackMode _) = bindP (pckReadMode 0 0) (\<lambda>x. retP (PackMode x))"
| "readField (PackPtr _) = bindP (pckReadPtr 0) (\<lambda>x. retP (PackPtr x))"
| "readField (PackStr _) = bindP (pckReadStr 0 None) (present PackStr)"
| "readField (PackStrId _) = bindP (pckReadStrId 0 0) (\<lambda>x. retP (PackStrId x))"
| "readField (PackTime _) = bindP (pckReadTime 0 0) (\<lambda>x. retP (PackTime x))"
| "readField (PackU32 _) = bindP (pckReadU32 0 0) (\<lambda>x. retP (PackU32 x))"
| "readField (PackU64 _) = bindP (pckReadU64 0 0) (\<lambda>x. retP (PackU64 x))"
| "readField (PackBin _) = bindP (pckReadBin 0) (present PackBin)"
| "readField (PackBuf _) = bindP (pckReadPackBuf 0) (present PackBuf)"
| "readField (PackArray fs) = bindP (pckReadArrayBegin 0) (\<lambda>_. bindP (readFields fs) (\<lambda>fs'. bindP pckReadArrayEnd (\<lambda>_. retP (PackArray fs'))))"
| "readField (PackObj fs) = bindP (pckReadObjBegin 0) (\<lambda>_. bindP (readFields fs) (\<lambda>fs'. bindP pckReadObjEnd (\<lambda>_. retP (PackObj fs'))))"
| "readField PackStrNull = bindP (pckReadStr 0 None) (\<lambda>x. if x = None then retP PackStrNull else throwP FormatError)"
| "readField PackBufNull = bindP (pckReadPackBuf 0) (\<lambda>x. if x = None then retP PackBufNull else throwP FormatError)"
| "readField (PackU32Stored _) = bindP (pckReadU32 0 0) (\<lambda>x. retP (PackU32Stored x))"
| "readFields [] = retP []"
| "readFields (f # fs) = bindP (readField f) (\<lambda>x. bindP (readFields fs) (\<lambda>xs. retP (x # xs)))"

text \<open>The sizes the format allows.\<close>

fun fieldOk :: "PackField \<Rightarrow> bool" where
  "fieldOk (PackStr s) \<longleftrightarrow> int (length s) \<le> STRING_SIZE_MAX"
| "fieldOk (PackBin b) \<longleftrightarrow> length b < 2 ^ 64"
| "fieldOk (PackBuf b) \<longleftrightarrow> length b < 2 ^ 64"
| "fieldOk (PackArray fs) \<longleftrightarrow> length fs < 2 ^ 32 - 2 \<and> (\<forall>f \<in> set fs. fieldOk f)"
| "fieldOk (PackObj fs) \<longleftrightarrow> length fs < 2 ^ 32 - 2 \<and> (\<forall>f \<in> set fs. fieldOk f)"
| "fieldOk _ \<longleftrightarrow> True"

section \<open>The bytes of fields\<close>

definition valueTag :: "u32 \<Rightarrow> u64 \<Rightarrow> (u32 \<times> u64) option" where
  "valueTag t v = (if v = 0 then None else Some (t, v))"

fun fieldTag :: "PackField \<Rightarrow> (u32 \<times> u64) option" where
  "fieldTag PackNull = None"
| "fieldTag (PackBool x) = valueTag 2 (of_bool x)"
| "fieldTag (PackI32 x) = valueTag 3 (ucast (cvtInt32ToZigZag x))"
| "fieldTag (PackI64 x) = valueTag 4 (cvtInt64ToZigZag x)"
| "fieldTag (PackMode x) = valueTag 18 (ucast x)"
| "fieldTag (PackPtr x) = valueTag 6 x"
| "fieldTag (PackStr x) = Some (7, if x = [] then 0 else 1)"
| "fieldTag (PackStrId x) = valueTag 10 x"
| "fieldTag (PackTime x) = valueTag 15 (cvtInt64ToZigZag x)"
| "fieldTag (PackU32 x) = valueTag 8 (ucast x)"
| "fieldTag (PackU64 x) = valueTag 9 x"
| "fieldTag (PackBin x) = Some (16, if x = [] then 0 else 1)"
| "fieldTag (PackBuf x) = Some (17, 0)"
| "fieldTag (PackArray fs) = Some (1, 0)"
| "fieldTag (PackObj fs) = Some (5, 0)"
| "fieldTag PackStrNull = None"
| "fieldTag PackBufNull = None"
| "fieldTag (PackU32Stored x) = Some (8, ucast x)"

definition sizedBytes :: "byte list \<Rightarrow> byte list" where
  "sizedBytes bs = varint (word_of_nat (length bs)) @ bs"

fun fieldData :: "PackField \<Rightarrow> byte list"
  and encFields :: "nat \<Rightarrow> PackField list \<Rightarrow> byte list" where
  "fieldData (PackStr x) = (if x = [] then [] else sizedBytes (bytesOf x))"
| "fieldData (PackBin x) = (if x = [] then [] else sizedBytes x)"
| "fieldData (PackBuf x) = sizedBytes x"
| "fieldData (PackArray fs) = encFields 0 fs @ [0]"
| "fieldData (PackObj fs) = encFields 0 fs @ [0]"
| "fieldData _ = []"
| "encFields n [] = []"
| "encFields n (f # fs) = (case fieldTag f of
     None \<Rightarrow> encFields (Suc n) fs
   | Some (t, v) \<Rightarrow> tagBytes t (word_of_nat n) v @ fieldData f @ encFields 0 fs)"

lemma tagValid_all:
  "tagValid 1 0" "tagValid 5 0" "tagValid 17 0" "v < 2 \<Longrightarrow> tagValid 2 v" "v < 2 \<Longrightarrow> tagValid 7 v" "v < 2 \<Longrightarrow> tagValid 16 v"
  "tagValid 3 v" "tagValid 4 v" "tagValid 6 v" "tagValid 8 v" "tagValid 9 v" "tagValid 10 v" "tagValid 15 v" "tagValid 18 v"
  by (simp_all add: tagValid_def packTypeMapData_def Let_def)

lemma fieldTag_valid: "fieldTag f = Some (t, v) \<Longrightarrow> tagValid t v"
  by (cases f) (auto simp: valueTag_def split: if_splits intro!: tagValid_all)

section \<open>Writing fields\<close>

definition tagAt :: "u32 \<Rightarrow> nat \<Rightarrow> nat \<Rightarrow> PackTagStack" where
  "tagAt tm l n = \<lparr>typeMap = tm, idLast = word_of_nat l, nullTotal = word_of_nat n\<rparr>"

text \<open>The writer after a field: a null is only counted.\<close>

definition written :: "byte list \<Rightarrow> u32 \<Rightarrow> nat \<Rightarrow> nat \<Rightarrow> PackTagStack list \<Rightarrow> (u32 \<times> u64) option \<Rightarrow> byte list \<Rightarrow> PackWrite \<Rightarrow> bool" where
  "written out tm l n st tag data = (case tag of
     None \<Rightarrow> wr out (tagAt tm l (Suc n) # st)
   | Some (t, v) \<Rightarrow> wr (out @ tagBytes t (word_of_nat n) v @ data) (tagAt tm (l + n + 1) 0 # st))"

lemma yields_null: "yields (wr out (tagAt tm l n # st)) (setTopW (\<lambda>t. t\<lparr>nullTotal := nullTotal t + 1\<rparr>)) () (wr out (tagAt tm l (Suc n) # st))"
  using yields_setTop [of out "tagAt tm l n" st "\<lambda>t. t\<lparr>nullTotal := nullTotal t + 1\<rparr>"] by (simp add: tagAt_def add.commute)

lemma yields_tagAt:
  assumes "tagValid t v"
  shows "yields (wr out (tagAt tm l n # st)) (pckWriteTag t 0 v) () (wr (out @ tagBytes t (word_of_nat n) v) (tagAt tm (l + n + 1) 0 # st))"
  using yields_writeTag [OF assms, of out "tagAt tm l n" st] by (simp add: tagAt_def add.commute add.left_commute)

lemma yields_defaultNull:
  "yields (wr out (tagAt tm l n # st)) (pckWriteDefaultNull False True) True (wr out (tagAt tm l (Suc n) # st))"
  "yields P (pckWriteDefaultNull False False) False P"
  unfolding pckWriteDefaultNull_def simp_thms if_True if_False
  by (rule yields_bind [OF yields_null yields_ret], rule yields_ret)

lemma yields_writeValue:
  assumes "tagValid t (convert x)" "convert x = 0 \<longleftrightarrow> x = d"
  shows "yields (wr out (tagAt tm l n # st)) (pckWriteValue t convert x 0 False d) ()
    (written out tm l n st (valueTag t (convert x)) [])"
proof (cases "x = d")
  case True
  then have e: "(x = d) = True" by simp
  have "yields (wr out (tagAt tm l n # st)) (pckWriteValue t convert x 0 False d) () (wr out (tagAt tm l (Suc n) # st))"
    unfolding pckWriteValue_def e by (rule yields_bind [OF yields_defaultNull(1)]) (simp add: whenP_def yields_ret)
  then show ?thesis using assms(2) True by (simp add: written_def valueTag_def)
next
  case False
  then have e: "(x = d) = False" by simp
  have "yields (wr out (tagAt tm l n # st)) (pckWriteValue t convert x 0 False d) ()
      (wr (out @ tagBytes t (word_of_nat n) (convert x)) (tagAt tm (l + n + 1) 0 # st))"
    unfolding pckWriteValue_def e by (rule yields_bind [OF yields_defaultNull(2)]) (simp only: whenP_def simp_thms if_True yields_tagAt [OF assms(1)])
  then show ?thesis using assms(2) False by (simp add: written_def valueTag_def)
qed

lemma yields_writeValue_id:
  "tagValid t x \<Longrightarrow> yields (wr out (tagAt tm l n # st)) (pckWriteValue t id x 0 False 0) () (written out tm l n st (valueTag t x) [])"
  using yields_writeValue [of t id x 0] by simp

lemma yields_writeBool:
  "yields (wr out (tagAt tm l n # st)) (pckWriteValue 2 of_bool x 0 False False) () (written out tm l n st (valueTag 2 (of_bool x)) [])"
  by (rule yields_writeValue) (cases x; simp add: tagValid_all)+

lemma zigzag_0: "cvtInt32ToZigZag x = 0 \<longleftrightarrow> x = 0" "cvtInt64ToZigZag y = 0 \<longleftrightarrow> y = 0"
proof -
  have "cvtInt32ToZigZag 0 = 0" "cvtInt64ToZigZag 0 = 0" by (simp_all add: cvtInt32ToZigZag_def cvtInt64ToZigZag_def)
  then show "cvtInt32ToZigZag x = 0 \<longleftrightarrow> x = 0" "cvtInt64ToZigZag y = 0 \<longleftrightarrow> y = 0"
    using zigzag32 zigzag64 by metis+
qed

lemma yields_writeSized: "yields (wr out st) (bindP (pckWriteU64Internal (word_of_nat (length bs))) (\<lambda>_. pckWriteBuffer bs)) ()
    (wr (out @ sizedBytes bs) st)"
  unfolding sizedBytes_def append_assoc [symmetric] by (rule yields_bind [OF yields_writeVarint yields_writeBuffer])

lemma yields_writeContainer:
  assumes "tagValid t 0" "\<And>out st. \<exists>l' n'. yields (wr out (tagAt t 0 0 # st)) m () (wr (out @ bs) (tagAt t l' n' # st))"
    "tag0 = tagAt tm l n"
  shows "yields (wr out (tag0 # st)) (bindP (pckWriteBegin t 0) (\<lambda>_. bindP m (\<lambda>_. pckWriteEndOf t))) ()
    (wr (out @ tagBytes t (word_of_nat n) 0 @ bs @ [0]) (tagAt tm (l + n + 1) 0 # st))"
proof -
  let ?st = "tagAt tm (l + n + 1) 0 # st"
  have start: "yields (wr out (tagAt tm l n # st)) (pckWriteBegin t 0) () (wr (out @ tagBytes t (word_of_nat n) 0) (tagAt t 0 0 # ?st))"
    unfolding pckWriteBegin_def
    by (rule yields_bind [OF yields_tagAt [OF assms(1)] yields_modify]) (simp add: wr_def containerTag_def tagAt_def)
  obtain l' n' where body: "yields (wr (out @ tagBytes t (word_of_nat n) 0) (tagAt t 0 0 # ?st)) m ()
      (wr ((out @ tagBytes t (word_of_nat n) 0) @ bs) (tagAt t l' n' # ?st))"
    using assms(2) by blast
  have fin: "yields (wr out' (tagAt t l' n' # ?st)) (pckWriteEndOf t) () (wr (out' @ [0]) ?st)" for out'
    unfolding pckWriteEndOf_def
    apply (rule yields_bind [OF yields_get [of _ tagStackW "tagAt t l' n' # ?st"]], simp add: wr_def)
    apply (rule yields_bind [OF yields_lift], simp add: tagAt_def)
    apply (rule yields_bind [OF yields_writeVarint])
    by (rule yields_modify) (simp add: wr_def varint.simps)
  show ?thesis
    unfolding assms(3) using yields_bind [OF start yields_bind [OF body fin]] by simp
qed

lemma yields_writeBytes:
  assumes "tagValid t (if bs = [] then 0 else 1)"
  shows "yields (wr out (tagAt tm l n # st))
    (bindP (pckWriteTag t 0 (if bs = [] then 0 else 1)) (\<lambda>_.
       whenP (bs \<noteq> []) (bindP (pckWriteU64Internal (word_of_nat (length bs))) (\<lambda>_. pckWriteBuffer bs)))) ()
    (wr (out @ tagBytes t (word_of_nat n) (if bs = [] then 0 else 1) @ (if bs = [] then [] else sizedBytes bs)) (tagAt tm (l + n + 1) 0 # st))"
proof (rule yields_bind [OF yields_tagAt [OF assms]], rule yields_when)
  show "yields (wr (out @ tagBytes t (word_of_nat n) (if bs = [] then 0 else 1)) (tagAt tm (l + n + 1) 0 # st))
    (bindP (pckWriteU64Internal (word_of_nat (length bs))) (\<lambda>_. pckWriteBuffer bs)) ()
    (wr (out @ tagBytes t (word_of_nat n) (if bs = [] then 0 else 1) @ (if bs = [] then [] else sizedBytes bs)) (tagAt tm (l + n + 1) 0 # st))"
    if "bs \<noteq> []"
    using that yields_writeSized [of "out @ tagBytes t (word_of_nat n) 1" _ bs] by simp
qed simp

lemma yields_writeStr: "yields (wr out (tagAt tm l n # st)) (pckWriteStr (Some s) 0 False None) ()
    (written out tm l n st (Some (7, if s = [] then 0 else 1)) (if s = [] then [] else sizedBytes (bytesOf s)))"
proof -
  have v: "tagValid 7 (if bytesOf s = [] then 0 else 1)" by (rule tagValid_all) simp
  have e: "bytesOf s = [] \<longleftrightarrow> s = []" "length (bytesOf s) = length s" by (simp_all add: bytesOf_def)
  show ?thesis
    unfolding pckWriteStr_def strEq_def written_def option.case prod.case
    by (rule yields_bind, simp, rule yields_defaultNull(2))
      (cases "s = []"; use yields_writeBytes [OF v, of out tm l n st] in \<open>simp add: whenP_def e(2) e(1) [unfolded bytesOf_def] bytesOf_def\<close>)
qed

lemma yields_writeStrNull: "yields (wr out (tagAt tm l n # st)) (pckWriteStr None 0 False None) () (wr out (tagAt tm l (Suc n) # st))"
  unfolding pckWriteStr_def strEq_def
  by (rule yields_bind, simp, rule yields_defaultNull(1)) (simp add: whenP_def yields_ret)

lemma yields_writePackNull: "yields (wr out (tagAt tm l n # st)) (pckWritePack None 0) () (wr out (tagAt tm l (Suc n) # st))"
  unfolding pckWritePack_def option.case
  by (rule yields_bind, simp, rule yields_defaultNull(1)) (simp add: yields_ret)

lemma yields_writeStored: "yields (wr out (tagAt tm l n # st)) (pckWriteU32 x 0 True 0) () (written out tm l n st (Some (8, ucast x)) [])"
proof -
  have "yields (wr out (tagAt tm l n # st)) (bindP (retP False) (\<lambda>null. whenP (\<not> null) (pckWriteTag 8 0 (ucast x)))) ()
      (wr (out @ tagBytes 8 (word_of_nat n) (ucast x)) (tagAt tm (l + n + 1) 0 # st))"
    by (rule yields_bind [OF yields_ret]) (simp only: whenP_def simp_thms if_True yields_tagAt [OF tagValid_all(10)])
  then show ?thesis by (simp add: pckWriteU32_def pckWriteValue_def pckWriteDefaultNull_def written_def)
qed

lemma yields_writeBin: "yields (wr out (tagAt tm l n # st)) (pckWriteBin (Some bs) 0) ()
    (written out tm l n st (Some (16, if bs = [] then 0 else 1)) (if bs = [] then [] else sizedBytes bs))"
proof -
  have v: "tagValid 16 (if bs = [] then 0 else 1)" by (rule tagValid_all) simp
  show ?thesis
    unfolding pckWriteBin_def written_def option.case prod.case
    by (rule yields_bind, simp, rule yields_defaultNull(2))
      (cases "bs = []"; use yields_writeBytes [OF v, of out tm l n st] in \<open>simp add: whenP_def\<close>)
qed

lemma yields_writePack: "yields (wr out (tagAt tm l n # st)) (pckWritePack (Some (pckWriteNewInternal\<lparr>bufferW := bs, tagStackW := []\<rparr>)) 0) ()
    (written out tm l n st (Some (17, 0)) (sizedBytes bs))"
proof -
  have b: "pckWriteBuf (pckWriteNewInternal\<lparr>bufferW := bs, tagStackW := []\<rparr>) = Inr bs" by (simp add: pckWriteBuf_def)
  show ?thesis
    unfolding pckWritePack_def written_def option.case prod.case append_assoc [symmetric]
    apply (rule yields_bind, simp, rule yields_defaultNull(2))
    apply (simp only: whenP_def simp_thms if_True)
    apply (rule yields_bind [OF yields_tagAt [OF tagValid_all(3)]])
    by (rule yields_bind [OF yields_lift [OF b] yields_writeSized])
qed

lemma yields_writeField:
  "yields (wr out (tagAt tm l n # st)) (writeField f) () (written out tm l n st (fieldTag f) (fieldData f))"
  "\<exists>l' n'. yields (wr out (tagAt tm l n # st)) (writeFields fs) () (wr (out @ encFields n fs) (tagAt tm l' n' # st))"
proof (induction f and fs arbitrary: out tm l n st and out tm l n st rule: writeField_writeFields.induct)
  case (2 x)
  show ?case using yields_writeBool by (simp only: writeField.simps fieldTag.simps fieldData.simps pckWriteBool_def)
next
  case (14 fs)
  have "\<exists>l' n'. yields (wr out (tagAt 1 0 0 # st)) (writeFields fs) () (wr (out @ encFields 0 fs) (tagAt 1 l' n' # st))" for out st
    by (rule 14)
  then show ?case
    using yields_writeContainer [OF tagValid_all(1), of "writeFields fs" "encFields 0 fs"]
    by (simp add: written_def pckWriteArrayBegin_def pckWriteArrayEnd_def)
next
  case (15 fs)
  have "\<exists>l' n'. yields (wr out (tagAt 5 0 0 # st)) (writeFields fs) () (wr (out @ encFields 0 fs) (tagAt 5 l' n' # st))" for out st
    by (rule 15)
  then show ?case
    using yields_writeContainer [OF tagValid_all(2), of "writeFields fs" "encFields 0 fs"]
    by (simp add: written_def pckWriteObjBegin_def pckWriteObjEnd_def)
next
  case 19
  then show ?case using yields_ret [of "wr out (tagAt tm l n # st)" "()"] by auto
next
  case (20 f fs)
  show ?case
  proof (cases "fieldTag f")
    case None
    then have "yields (wr out (tagAt tm l n # st)) (writeField f) () (wr out (tagAt tm l (Suc n) # st))"
      using 20(1) [of out tm l n st] by (simp add: written_def)
    moreover obtain l' n' where "yields (wr out (tagAt tm l (Suc n) # st)) (writeFields fs) () (wr (out @ encFields (Suc n) fs) (tagAt tm l' n' # st))"
      using 20(2) by blast
    ultimately show ?thesis using None by (auto intro: yields_bind)
  next
    case (Some a)
    then obtain t v where a: "fieldTag f = Some (t, v)" by (cases a) auto
    let ?out = "out @ tagBytes t (word_of_nat n) v @ fieldData f"
    have "yields (wr out (tagAt tm l n # st)) (writeField f) () (wr ?out (tagAt tm (l + n + 1) 0 # st))"
      using 20(1) [of out tm l n st] a by (simp add: written_def)
    moreover obtain l' n' where "yields (wr ?out (tagAt tm (l + n + 1) 0 # st)) (writeFields fs) () (wr (?out @ encFields 0 fs) (tagAt tm l' n' # st))"
      using 20(2) by blast
    ultimately show ?thesis using a by (auto intro: yields_bind)
  qed
qed (auto simp: pckWriteNull_def written_def [of _ _ _ _ _ None] yields_null yields_writeStr yields_writeStrNull yields_writePackNull yields_writeStored yields_writeBin yields_writePack
    pckWriteBool_def pckWriteI32_def pckWriteI64_def pckWriteMode_def pckWritePtr_def pckWriteStrId_def pckWriteTime_def pckWriteU32_def pckWriteU64_def
    zigzag_0 yields_writeStored [unfolded pckWriteU32_def] intro!: yields_writeValue_id yields_writeValue tagValid_all)

section \<open>Reading fields\<close>

text \<open>
  What comes next in a container: a tag with its id, type, value and the bytes after it, or the end.
  The reader may have looked at it already, since a null field is only noticed by the id of the
  next tag. \<open>ready tm l k it st\<close>: the last field that was read has id \<open>k\<close>, the last that is stored
  has id \<open>l\<close>, and \<open>it\<close> comes next.
\<close>

datatype item = Tag nat u32 u64 "byte list" | End "byte list"

fun itemId :: "item \<Rightarrow> nat" where
  "itemId (Tag i t v rest) = i"
| "itemId (End rest) = 2 ^ 32 - 1"

fun itemOk :: "nat \<Rightarrow> item \<Rightarrow> bool" where
  "itemOk l (Tag i t v rest) \<longleftrightarrow> tagValid t v \<and> l < i \<and> i < 2 ^ 32 - 1"
| "itemOk l (End rest) \<longleftrightarrow> l < 2 ^ 32 - 1"

fun itemBytes :: "nat \<Rightarrow> item \<Rightarrow> byte list" where
  "itemBytes l (Tag i t v rest) = tagBytes t (word_of_nat (i - l - 1)) v @ rest"
| "itemBytes l (End rest) = 0 # rest"

definition peeked :: "u32 \<Rightarrow> nat \<Rightarrow> item \<Rightarrow> PackTagStack list \<Rightarrow> PackRead \<Rightarrow> bool" where
  "peeked tm k it st r = (case it of
     Tag i t v rest \<Rightarrow> rd rest (word_of_nat i, t, v, tagAt tm k 0 # st) r
   | End rest \<Rightarrow> \<exists>t v. rd rest (UINT_MAX, t, v, tagAt tm k 0 # st) r)"

definition ready :: "u32 \<Rightarrow> nat \<Rightarrow> nat \<Rightarrow> item \<Rightarrow> PackTagStack list \<Rightarrow> PackRead \<Rightarrow> bool" where
  "ready tm l k it st r \<longleftrightarrow> itemOk l it \<and> k < itemId it \<and>
     (k = l \<and> (\<exists>t v. rd (itemBytes l it) (0, t, v, tagAt tm l 0 # st) r) \<or> peeked tm k it st r)"

lemma word_of_nat_less32: "i < 2 ^ 32 \<Longrightarrow> j < 2 ^ 32 \<Longrightarrow> (word_of_nat i :: u32) < word_of_nat j \<longleftrightarrow> i < j"
  by (simp add: word_less_nat_alt unat_of_nat)

lemma word_of_nat_eq32: "i < 2 ^ 32 \<Longrightarrow> j < 2 ^ 32 \<Longrightarrow> (word_of_nat i :: u32) = word_of_nat j \<longleftrightarrow> i = j"
  by (simp add: word_unat_eq_iff unat_of_nat)

lemma UINT_MAX_nat: "UINT_MAX = word_of_nat (2 ^ 32 - 1)"
  by (simp add: UINT_MAX_def)

lemma peeked_tags:
  "peeked tm k it st r \<Longrightarrow> tagNextId r = word_of_nat (itemId it) \<and> tagStack r = tagAt tm k 0 # st"
  by (cases it) (auto simp: peeked_def UINT_MAX_nat dest: rd_core)

lemma itemOk_bound: "itemOk l it \<Longrightarrow> itemId it < 2 ^ 32 \<and> itemId it \<noteq> 0"
  by (cases it) auto

lemma ready_peek:
  assumes "ready tm l k it st r"
  obtains r' where "peeked tm k it st r'" "tagStack r = tagAt tm k 0 # st"
    "\<And>m :: (PackRead, 'a) prog. bindP (getP tagNextId) (\<lambda>i. bindP (if i = 0 then bindP pckReadTagNext (\<lambda>_. retP ()) else retP ()) (\<lambda>_. m)) r = m r'"
proof (cases "peeked tm k it st r")
  case True
  have ok: "itemId it < 2 ^ 32 \<and> itemId it \<noteq> 0" using assms itemOk_bound by (auto simp: ready_def)
  then have "word_of_nat (itemId it) \<noteq> (0 :: u32)" using word_of_nat_eq32 [of "itemId it" 0] by simp
  then show ?thesis using that [of r] True peeked_tags [OF True] by (simp add: run_simps)
next
  case False
  then obtain t v where kl: "k = l" and r: "rd (itemBytes l it) (0, t, v, tagAt tm l 0 # st) r" and ok: "itemOk l it"
    using assms by (auto simp: ready_def)
  have "\<exists>b r'. pckReadTagNext r = (Inr b, r') \<and> peeked tm k it st r'"
  proof (cases it)
    case (Tag i t' v' rest)
    have "word_of_nat (i - l - 1) + (word_of_nat l + 1) = (word_of_nat ((i - l - 1) + (l + 1)) :: u32)"
      by (simp only: of_nat_add of_nat_1)
    then have "word_of_nat (i - l - 1) + (idLast (tagAt tm l 0) + 1) = (word_of_nat i :: u32)"
      using ok Tag by (simp add: tagAt_def)
    then show ?thesis
      using yieldsD [OF yields_tagNext [of t' v' "word_of_nat (i - l - 1)" rest 0 t v "tagAt tm l 0" st]] ok r Tag kl
      by (fastforce simp: peeked_def)
  next
    case (End rest)
    then show ?thesis using yieldsD [OF yields_tagEnd] r kl by (fastforce simp: peeked_def)
  qed
  then obtain b r' where "pckReadTagNext r = (Inr b, r')" "peeked tm k it st r'" by blast
  then show ?thesis using that [of r'] rd_core [OF r] kl by (simp add: run_simps)
qed

declare pckReadTagLoop.simps [simp del]

text \<open>A field that is null.\<close>

lemma next_id: "word_of_nat k + 1 = (word_of_nat (Suc k) :: u32)"
  by (simp add: add.commute)

lemma yields_readNull:
  assumes "Suc k < itemId it"
  shows "yields (ready tm l k it st) (pckReadNullInternal 0) (True, word_of_nat (Suc k)) (ready tm l (Suc k) it st)"
proof (rule yieldsI)
  fix r assume r: "ready tm l k it st r"
  then have ok: "itemOk l it" "itemId it < 2 ^ 32" using itemOk_bound by (auto simp: ready_def)
  obtain r' where p: "peeked tm k it st r'" "tagStack r = tagAt tm k 0 # st"
    and run: "\<And>m :: (PackRead, u64) prog. bindP (getP tagNextId) (\<lambda>i. bindP (if i = 0 then bindP pckReadTagNext (\<lambda>_. retP ()) else retP ()) (\<lambda>_. m)) r = m r'"
    using ready_peek [OF r, where ?'a = u64] by blast
  note tags = peeked_tags [OF p(1)]
  have lt: "(word_of_nat (Suc k) :: u32) < tagNextId r'" using assms ok(2) tags word_of_nat_less32 [of "Suc k" "itemId it"] by simp
  have loop: "pckReadTagLoop (Suc fuel) (word_of_nat (Suc k)) 0 True r = (Inr (tagNextValue r'), r')" for fuel
    unfolding pckReadTagLoop.simps run using lt by (simp add: run_simps)
  have "pckReadTag 0 0 True r = (Inr (tagNextValue r', word_of_nat (Suc k)), r')"
    using loop p(2) by (simp add: pckReadTag_def run_simps tagTop_def tagAt_def add.commute Let_def)
  then have "pckReadNullInternal 0 r = (Inr (True, word_of_nat (Suc k)), r'\<lparr>tagStack := tagAt tm (Suc k) 0 # st\<rparr>)"
    using lt tags by (simp add: pckReadNullInternal_def run_simps setIdLast_def tagAt_def)
  moreover have "peeked tm (Suc k) it st (r'\<lparr>tagStack := tagAt tm (Suc k) 0 # st\<rparr>)"
    using p(1) by (auto simp: peeked_def intro: rd_update split: item.splits)
  ultimately show "\<exists>s'. pckReadNullInternal 0 r = (Inr (True, word_of_nat (Suc k)), s') \<and> ready tm l (Suc k) it st s'"
    using assms ok by (auto simp: ready_def)
qed

text \<open>A field that is stored: looking at its tag, and reading it.\<close>

lemma yields_readNotNull:
  "yields (ready tm l k (Tag (Suc k) t v rest) st) (pckReadNullInternal 0) (False, word_of_nat (Suc k))
     (ready tm l k (Tag (Suc k) t v rest) st)"
proof (rule yieldsI)
  fix r assume r: "ready tm l k (Tag (Suc k) t v rest) st r"
  obtain r' where p: "peeked tm k (Tag (Suc k) t v rest) st r'" "tagStack r = tagAt tm k 0 # st"
    and run: "\<And>m :: (PackRead, u64) prog. bindP (getP tagNextId) (\<lambda>i. bindP (if i = 0 then bindP pckReadTagNext (\<lambda>_. retP ()) else retP ()) (\<lambda>_. m)) r = m r'"
    using ready_peek [OF r, where ?'a = u64] by blast
  note tags = peeked_tags [OF p(1)]
  have loop: "pckReadTagLoop (Suc fuel) (word_of_nat (Suc k)) 0 True r = (Inr (tagNextValue r'), r')" for fuel
    unfolding pckReadTagLoop.simps run using tags by (simp add: run_simps)
  have "pckReadTag 0 0 True r = (Inr (tagNextValue r', word_of_nat (Suc k)), r')"
    using loop p(2) by (simp add: pckReadTag_def run_simps tagTop_def tagAt_def add.commute Let_def)
  then have "pckReadNullInternal 0 r = (Inr (False, word_of_nat (Suc k)), r')"
    using tags by (simp add: pckReadNullInternal_def run_simps)
  then show "\<exists>s'. pckReadNullInternal 0 r = (Inr (False, word_of_nat (Suc k)), s') \<and> ready tm l k (Tag (Suc k) t v rest) st s'"
    using p(1) r by (simp add: ready_def)
qed

lemma yields_readTag:
  assumes "ids = 0 \<or> ids = word_of_nat (Suc k)" "t \<noteq> 0" "Suc k < 2 ^ 32 - 1"
  shows "yields (ready tm l k (Tag (Suc k) t v rest) st) (pckReadTag ids t False) (v, word_of_nat (Suc k))
     (rd rest (0, t, v, tagAt tm (Suc k) 0 # st))"
proof (rule yieldsI)
  fix r assume r: "ready tm l k (Tag (Suc k) t v rest) st r"
  obtain r' where p: "peeked tm k (Tag (Suc k) t v rest) st r'" "tagStack r = tagAt tm k 0 # st"
    and run: "\<And>m :: (PackRead, u64) prog. bindP (getP tagNextId) (\<lambda>i. bindP (if i = 0 then bindP pckReadTagNext (\<lambda>_. retP ()) else retP ()) (\<lambda>_. m)) r = m r'"
    using ready_peek [OF r, where ?'a = u64] by blast
  have rd: "rd rest (word_of_nat (Suc k), t, v, tagAt tm k 0 # st) r'" using p(1) by (simp add: peeked_def)
  note c = rd_core [OF rd]
  let ?r = "r'\<lparr>tagStack := tagAt tm (Suc k) 0 # st, tagNextId := 0\<rparr>"
  have loop: "pckReadTagLoop (Suc fuel) (word_of_nat (Suc k)) t False r = (Inr v, ?r)" for fuel
    unfolding pckReadTagLoop.simps run using c by (simp add: run_simps setIdLast_def tagAt_def)
  have nz: "(word_of_nat (Suc k) :: u32) \<noteq> 0" "\<not> (word_of_nat (Suc k) :: u32) \<le> word_of_nat k"
    using assms(3) word_of_nat_eq32 [of "Suc k" 0] word_of_nat_less32 [of k "Suc k"] by (simp_all add: not_le)
  have "pckReadTag ids t False r = (Inr (v, word_of_nat (Suc k)), ?r)"
    using loop p(2) assms(1,2) nz by (auto simp: pckReadTag_def run_simps tagTop_def tagAt_def add.commute Let_def)
  moreover have "rd rest (0, t, v, tagAt tm (Suc k) 0 # st) ?r" by (rule rd_update(3) [OF rd_update(4) [OF rd]])
  ultimately show "\<exists>s'. pckReadTag ids t False r = (Inr (v, word_of_nat (Suc k)), s') \<and> rd rest (0, t, v, tagAt tm (Suc k) 0 # st) s'"
    by blast
qed

text \<open>Between fields that are stored.\<close>

definition at :: "u32 \<Rightarrow> nat \<Rightarrow> byte list \<Rightarrow> PackTagStack list \<Rightarrow> PackRead \<Rightarrow> bool" where
  "at tm k bs st r \<longleftrightarrow> (\<exists>t v. rd bs (0, t, v, tagAt tm k 0 # st) r)"

lemma yields_at: "(\<And>t v. yields (rd bs (0, t, v, tagAt tm k 0 # st)) m x (at tm k bs' st)) \<Longrightarrow> yields (at tm k bs st) m x (at tm k bs' st)"
  unfolding yields_def at_def by blast

lemma yields_atTag:
  assumes "ids = 0 \<or> ids = word_of_nat (Suc k)" "t \<noteq> 0" "Suc k < 2 ^ 32 - 1"
  shows "yields (ready tm l k (Tag (Suc k) t v rest) st) (pckReadTag ids t False) (v, word_of_nat (Suc k)) (at tm (Suc k) rest st)"
  by (rule yields_post [OF yields_readTag [OF assms]]) (auto simp: at_def)

lemma yields_atSized:
  assumes "length bs < 2 ^ 64" and that: "yields (at tm k tail st) (f bs) x Q"
  shows "yields (at tm k (sizedBytes bs @ tail) st) (bindP pckReadU64Internal (\<lambda>sz. bindP (pckReadChunks (unat sz)) f)) x Q"
proof -
  have "unat (word_of_nat (length bs) :: u64) = length bs" using assms(1) by (simp add: unat_of_nat)
  then have chunks: "yields (rd (bs @ tail) (0, t, v, tagAt tm k 0 # st)) (pckReadChunks (unat (word_of_nat (length bs) :: u64))) bs (at tm k tail st)"
    for t v using yields_post [OF yields_chunks [of bs tail "(0, t, v, tagAt tm k 0 # st)"], of "at tm k tail st"] by (auto simp: at_def)
  have "yields (rd (varint (word_of_nat (length bs)) @ bs @ tail) (0, t, v, tagAt tm k 0 # st))
      (bindP pckReadU64Internal (\<lambda>sz. bindP (pckReadChunks (unat sz)) f)) x Q" for t v
    by (rule yields_bind [OF yields_varint], rule yields_bind [OF chunks], rule that)
  then show ?thesis unfolding sizedBytes_def yields_def at_def append_assoc by blast
qed

lemma yields_readStored:
  assumes "tagValid t v" "Suc k < 2 ^ 32 - 1" "convert v = x"
  shows "yields (ready tm l k (Tag (Suc k) t v rest) st) (pckReadValue t convert 0 d) x (at tm (Suc k) rest st)"
  unfolding pckReadValue_def
  apply (rule yields_bind [OF yields_readNotNull])
  apply (simp only: prod.case if_False)
  apply (rule yields_bind [OF yields_atTag [OF _ tagValid_nonzero [OF assms(1)] assms(2)]], simp)
  by (simp add: assms(3) yields_ret)

lemma yields_readValue:
  assumes "tagValid t (convert' x)" "convert (convert' x) = x" "convert' x = 0 \<longleftrightarrow> x = d" "Suc k < 2 ^ 32 - 1"
  shows "valueTag t (convert' x) = None \<Longrightarrow> Suc k < itemId it \<Longrightarrow>
      yields (ready tm l k it st) (pckReadValue t convert 0 d) x (ready tm l (Suc k) it st)"
    and "valueTag t (convert' x) = Some (t', v) \<Longrightarrow>
      yields (ready tm l k (Tag (Suc k) t' v rest) st) (pckReadValue t convert 0 d) x (at tm (Suc k) rest st)"
proof -
  show "yields (ready tm l k it st) (pckReadValue t convert 0 d) x (ready tm l (Suc k) it st)"
    if "valueTag t (convert' x) = None" "Suc k < itemId it"
    unfolding pckReadValue_def using assms(3) that
    by (intro yields_bind [OF yields_readNull]) (auto simp: valueTag_def yields_ret split: if_splits)
  show "yields (ready tm l k (Tag (Suc k) t' v rest) st) (pckReadValue t convert 0 d) x (at tm (Suc k) rest st)"
    if "valueTag t (convert' x) = Some (t', v)"
    using that yields_readStored [where convert = convert, OF assms(1,4,2)] by (auto simp: valueTag_def split: if_splits)
qed

fun nextItem :: "nat \<Rightarrow> PackField list \<Rightarrow> byte list \<Rightarrow> item" where
  "nextItem k [] tail = End tail"
| "nextItem k (f # fs) tail = (case fieldTag f of
     None \<Rightarrow> nextItem (Suc k) fs tail
   | Some (t, v) \<Rightarrow> Tag (Suc k) t v (fieldData f @ encFields 0 fs @ 0 # tail))"

lemma nextItem_bytes: "itemBytes l (nextItem (l + n) fs tail) = encFields n fs @ 0 # tail"
proof (induction fs arbitrary: n)
  case (Cons f fs)
  then show ?case using Cons.IH [of "Suc n"] by (auto split: option.splits)
qed simp

lemma nextItem_ok: "k + length fs < 2 ^ 32 - 1 \<Longrightarrow> l \<le> k \<Longrightarrow> itemOk l (nextItem k fs tail) \<and> k < itemId (nextItem k fs tail)"
proof (induction fs arbitrary: k)
  case (Cons f fs)
  show ?case using Cons.IH [of "Suc k"] Cons.prems by (auto split: option.splits dest: fieldTag_valid)
qed simp

lemma at_ready:
  "at tm k (encFields 0 fs @ 0 # tail) st r \<Longrightarrow> k + length fs < 2 ^ 32 - 1 \<Longrightarrow> ready tm k k (nextItem k fs tail) st r"
  using nextItem_ok [of k fs k tail] nextItem_bytes [of k 0 fs tail] by (auto simp: ready_def at_def)

lemma stringOf_bytesOf [simp]: "stringOf (bytesOf s) = s" "length (bytesOf s) = length s" "bytesOf s = [] \<longleftrightarrow> s = []"
proof -
  have "unat (word_of_nat (chr_code c) :: byte) = chr_code c" for c by (simp add: unat_of_nat)
  then show "stringOf (bytesOf s) = s" by (simp add: stringOf_def bytesOf_def o_def map_idI)
qed (simp_all add: bytesOf_def)

lemma yields_readStr:
  assumes "int (length s) \<le> STRING_SIZE_MAX" "Suc k < 2 ^ 32 - 1"
  shows "yields (ready tm l k (Tag (Suc k) 7 (if s = [] then 0 else 1) ((if s = [] then [] else sizedBytes (bytesOf s)) @ rest)) st)
    (pckReadStr 0 None) (Some s) (at tm (Suc k) rest st)"
proof -
  have "length (bytesOf s) < 2 ^ 64" using assms(1) by (simp add: STRING_SIZE_MAX_def)
  then have sized: "yields (at tm (Suc k) (sizedBytes (bytesOf s) @ rest) st)
      (bindP pckReadU64Internal (\<lambda>sz. bindP (pckReadChunks (unat sz)) (\<lambda>bytes.
         if int (length bytes) > STRING_SIZE_MAX then throwP AssertError else retP (Some (stringOf bytes))))) (Some s) (at tm (Suc k) rest st)"
    using assms(1) by (intro yields_atSized) (simp_all add: yields_ret)
  show ?thesis
    unfolding pckReadStr_def
    apply (rule yields_bind [OF yields_readNotNull])
    apply (simp only: prod.case if_False)
    apply (rule yields_bind [OF yields_atTag [OF _ _ assms(2)]], simp, simp)
    using sized by (cases "s = []") (simp_all add: yields_ret)
qed

lemma yields_readBin:
  assumes "length bs < 2 ^ 64" "Suc k < 2 ^ 32 - 1"
  shows "yields (ready tm l k (Tag (Suc k) 16 (if bs = [] then 0 else 1) ((if bs = [] then [] else sizedBytes bs) @ rest)) st)
    (pckReadBin 0) (Some bs) (at tm (Suc k) rest st)"
proof -
  have sized: "yields (at tm (Suc k) (sizedBytes bs @ rest) st)
      (bindP pckReadU64Internal (\<lambda>sz. bindP (pckReadChunks (unat sz)) (\<lambda>bytes. retP (Some bytes)))) (Some bs) (at tm (Suc k) rest st)"
    by (rule yields_atSized [OF assms(1) yields_ret])
  show ?thesis
    unfolding pckReadBin_def
    apply (rule yields_bind [OF yields_readNotNull])
    apply (simp only: prod.case if_False)
    apply (rule yields_bind [OF yields_atTag [OF _ _ assms(2)]], simp, simp)
    using sized by (cases "bs = []") (simp_all add: yields_ret)
qed

lemma yields_readPackBuf:
  assumes "length bs < 2 ^ 64" "Suc k < 2 ^ 32 - 1"
  shows "yields (ready tm l k (Tag (Suc k) 17 0 (sizedBytes bs @ rest)) st) (pckReadPackBuf 0) (Some bs) (at tm (Suc k) rest st)"
  unfolding pckReadPackBuf_def
  apply (rule yields_bind [OF yields_readNotNull])
  apply (simp only: prod.case if_False)
  apply (rule yields_bind [OF yields_atTag [OF _ _ assms(2)]], simp, simp)
  by (rule yields_atSized [OF assms(1) yields_ret])

text \<open>The end of a container.\<close>

lemma readEndTag:
  assumes r: "ready tm l k (End tail) st r" and "k < 2 ^ 32 - 2"
  shows "\<exists>v r'. pckReadTag (UINT_MAX - 1) 0 True r = (Inr (v, UINT_MAX - 1), r') \<and> peeked tm k (End tail) st r'"
proof -
  obtain r' where p: "peeked tm k (End tail) st r'" "tagStack r = tagAt tm k 0 # st"
    and run: "\<And>m :: (PackRead, u64) prog. bindP (getP tagNextId) (\<lambda>i. bindP (if i = 0 then bindP pckReadTagNext (\<lambda>_. retP ()) else retP ()) (\<lambda>_. m)) r = m r'"
    using ready_peek [OF r, where ?'a = u64] by blast
  have u: "tagNextId r' = UINT_MAX" using p(1) by (auto simp: peeked_def dest: rd_core)
  have m: "UINT_MAX - 1 < UINT_MAX" "UINT_MAX - 1 \<noteq> 0" by (simp_all add: UINT_MAX_def)
  have "pckReadTagLoop (Suc fuel) (UINT_MAX - 1) 0 True r = (Inr (tagNextValue r'), r')" for fuel
    unfolding pckReadTagLoop.simps run using u m by (simp add: run_simps)
  moreover have "\<not> UINT_MAX - 1 \<le> (word_of_nat k :: u32)"
    using assms(2) by (simp add: UINT_MAX_def not_le word_less_nat_alt unat_of_nat)
  ultimately show ?thesis
    using p m by (auto simp: pckReadTag_def run_simps tagTop_def tagAt_def Let_def)
qed

lemma yields_containerEnd:
  assumes "n < 2 ^ 32 - 2" "t = 1 \<and> m = pckReadArrayEnd \<or> t = 5 \<and> m = pckReadObjEnd"
  shows "yields (\<lambda>r. \<exists>l. ready t l n (End rest) (tagAt tm k 0 # st) r) m () (at tm k rest st)"
proof (rule yieldsI, elim exE)
  fix r l assume r: "ready t l n (End rest) (tagAt tm k 0 # st) r"
  obtain v r' where e: "pckReadTag (UINT_MAX - 1) 0 True r = (Inr (v, UINT_MAX - 1), r')" "peeked t n (End rest) (tagAt tm k 0 # st) r'"
    using readEndTag [OF r assms(1)] by blast
  have s: "tagStack r = tagAt t n 0 # tagAt tm k 0 # st"
    by (rule ready_peek [OF r]) simp
  have "m r = (Inr (), r'\<lparr>tagStack := tl (tagStack r'), tagNextId := 0\<rparr>)"
    using assms(2) e(1) s by (auto simp: pckReadArrayEnd_def pckReadObjEnd_def run_simps tagTop_def tagAt_def)
  moreover have "at tm k rest st (r'\<lparr>tagStack := tl (tagStack r'), tagNextId := 0\<rparr>)"
    using e(2) rd_update(3) [OF rd_update(4)] by (fastforce simp: peeked_def at_def dest: rd_core)
  ultimately show "\<exists>s'. m r = (Inr (), s') \<and> at tm k rest st s'" by blast
qed

lemma yields_containerBegin:
  assumes "Suc k < 2 ^ 32 - 1" "t = 1 \<and> m = pckReadArrayBegin 0 \<or> t = 5 \<and> m = pckReadObjBegin 0"
  shows "yields (ready tm l k (Tag (Suc k) t 0 bs) st) m () (at t 0 bs (tagAt tm (Suc k) 0 # st))"
proof -
  have "yields (ready tm l k (Tag (Suc k) t 0 bs) st)
      (bindP (pckReadTag 0 t False) (\<lambda>_. modifyP (\<lambda>r. r\<lparr>tagStack := containerTag t # tagStack r\<rparr>))) () (at t 0 bs (tagAt tm (Suc k) 0 # st))"
    apply (rule yields_bind [OF yields_atTag [OF _ _ assms(1)]], simp)
    using assms(2) apply auto [1]
    apply (rule yields_modify)
    using rd_core rd_update(4) by (fastforce simp: at_def containerTag_def tagAt_def)
  then show ?thesis using assms(2) by (auto simp: pckReadArrayBegin_def pckReadObjBegin_def)
qed

lemma yields_container:
  assumes "Suc k < 2 ^ 32 - 1" "length fs < 2 ^ 32 - 2"
    and m: "t = 1 \<and> b = pckReadArrayBegin 0 \<and> e = pckReadArrayEnd \<or> t = 5 \<and> b = pckReadObjBegin 0 \<and> e = pckReadObjEnd"
    and fields: "\<And>tm l k tail st. k + length fs < 2 ^ 32 - 2 \<Longrightarrow>
      yields (ready tm l k (nextItem k fs tail) st) (readFields fs) fs (\<lambda>r. \<exists>l'. ready tm l' (k + length fs) (End tail) st r)"
  shows "yields (ready tm l k (Tag (Suc k) t 0 ((encFields 0 fs @ [0]) @ rest)) st)
    (bindP b (\<lambda>_. bindP (readFields fs) (\<lambda>fs'. bindP e (\<lambda>_. retP (c fs'))))) (c fs) (at tm (Suc k) rest st)"
proof -
  let ?st = "tagAt tm (Suc k) 0 # st"
  have "yields (ready tm l k (Tag (Suc k) t 0 (encFields 0 fs @ 0 # rest)) st) b () (at t 0 (encFields 0 fs @ 0 # rest) ?st)"
    using yields_containerBegin [OF assms(1)] m by blast
  then have start: "yields (ready tm l k (Tag (Suc k) t 0 (encFields 0 fs @ 0 # rest)) st) b () (ready t 0 0 (nextItem 0 fs rest) ?st)"
    by (rule yields_post) (rule at_ready, assumption, use assms(2) in simp)
  have fin: "yields (\<lambda>r. \<exists>l. ready t l (0 + length fs) (End rest) ?st r) e () (at tm (Suc k) rest st)"
    by (rule yields_containerEnd) (use assms(2) m in auto)
  have mid: "yields (ready t 0 0 (nextItem 0 fs rest) ?st) (readFields fs) fs (\<lambda>r. \<exists>l'. ready t l' (0 + length fs) (End rest) ?st r)"
    by (rule fields) (use assms(2) in simp)
  show ?thesis
    unfolding append_assoc append_Cons append_Nil
    by (rule yields_bind [OF start], rule yields_bind [OF mid], rule yields_bind [OF fin], rule yields_ret)
qed

text \<open>All fields.\<close>

lemma yields_readValueField:
  assumes "fieldTag f = valueTag t (convert' x)" "fieldData f = []" "readField f = bindP (pckReadValue t convert 0 d) (\<lambda>y. retP (c y))" "f = c x"
    and "tagValid t (convert' x)" "convert (convert' x) = x" "convert' x = 0 \<longleftrightarrow> x = d" "Suc k < 2 ^ 32 - 1"
  shows "(fieldTag f = None \<longrightarrow> Suc k < itemId it \<longrightarrow> yields (ready tm l k it st) (readField f) f (ready tm l (Suc k) it st)) \<and>
   (\<forall>t v. fieldTag f = Some (t, v) \<longrightarrow>
      yields (ready tm l k (Tag (Suc k) t v (fieldData f @ rest)) st) (readField f) f (at tm (Suc k) rest st))"
proof -
  note val = yields_readValue [where t = t and convert' = convert' and convert = convert, OF assms(5-8)]
  have bind: "yields P (bindP m (\<lambda>y. retP (c y))) (c x) Q" if "yields P m x Q" for P m Q
    by (rule yields_bind [OF that yields_ret])
  show ?thesis
    unfolding assms(1-3) append_Nil using val by (auto simp: assms(4) intro!: bind)
qed

lemma ucast_32_64: "ucast (ucast x :: u64) = (x :: u32)" "(ucast x :: u64) = 0 \<longleftrightarrow> x = 0"
proof -
  show inv: "ucast (ucast y :: u64) = (y :: u32)" for y by (simp add: bit_eq_iff bit_ucast_iff bit_imp_le_length)
  show "(ucast x :: u64) = 0 \<longleftrightarrow> x = 0" using inv [of x] by auto
qed

lemma yields_present: "yields P m (Some x) Q \<Longrightarrow> yields P (bindP m (present c)) (c x) Q"
  by (erule yields_bind) (simp add: present_def yields_ret)

lemma yields_readField:
  "fieldOk f \<Longrightarrow> Suc k < 2 ^ 32 - 1 \<Longrightarrow>
   (fieldTag f = None \<longrightarrow> Suc k < itemId it \<longrightarrow> yields (ready tm l k it st) (readField f) f (ready tm l (Suc k) it st)) \<and>
   (\<forall>t v. fieldTag f = Some (t, v) \<longrightarrow>
      yields (ready tm l k (Tag (Suc k) t v (fieldData f @ rest)) st) (readField f) f (at tm (Suc k) rest st))"
  "\<forall>f \<in> set fs. fieldOk f \<Longrightarrow> k + length (fs @ gs) < 2 ^ 32 - 2 \<Longrightarrow>
   yields (ready tm l k (nextItem k (fs @ gs) tail) st) (readFields fs) fs
     (\<lambda>r. \<exists>l'. ready tm l' (k + length fs) (nextItem (k + length fs) gs tail) st r)"
proof (induction f and fs arbitrary: tm l k it st rest and tm l k gs tail st rule: readField_readFields.induct)
  case 1
  show ?case by (auto simp: pckReadNull_def intro!: yields_bind [OF yields_bind, OF yields_readNull] yields_ret)
next
  case (14 fs)
  have "yields (ready tm l k (nextItem k fs tail) st) (readFields fs) fs (\<lambda>r. \<exists>l'. ready tm l' (k + length fs) (End tail) st r)"
    if "k + length fs < 2 ^ 32 - 2" for tm l k tail st
    using 14(1) [where gs = "[]"] 14(2) that by simp
  then show ?case using 14(2,3) by (auto simp del: append_assoc intro!: yields_container)
next
  case (15 fs)
  have "yields (ready tm l k (nextItem k fs tail) st) (readFields fs) fs (\<lambda>r. \<exists>l'. ready tm l' (k + length fs) (End tail) st r)"
    if "k + length fs < 2 ^ 32 - 2" for tm l k tail st
    using 15(1) [where gs = "[]"] 15(2) that by simp
  then show ?case using 15(2,3) by (auto simp del: append_assoc intro!: yields_container)
next
  case 19
  have "yields (ready tm l k (nextItem k gs tail) st) (retP []) [] (\<lambda>r. \<exists>l'. ready tm l' k (nextItem k gs tail) st r)"
    by (rule yields_post [OF yields_ret]) blast
  then show ?case by simp
next
  case (20 f fs)
  have IH: "yields (ready tm l (Suc k) (nextItem (Suc k) (fs @ gs) tail) st) (readFields fs) fs
      (\<lambda>r. \<exists>l'. ready tm l' (Suc k + length fs) (nextItem (Suc k + length fs) gs tail) st r)" for l
    by (rule 20(2)) (use 20(3,4) in auto)
  show ?case
  proof (cases "fieldTag f")
    case None
    have "Suc k < itemId (nextItem (Suc k) (fs @ gs) tail)" using nextItem_ok [of "Suc k" "fs @ gs" "Suc k" tail] 20(4) by simp
    then have r: "yields (ready tm l k (nextItem (Suc k) (fs @ gs) tail) st) (readField f) f (ready tm l (Suc k) (nextItem (Suc k) (fs @ gs) tail) st)"
      using 20(1) 20(3,4) None by simp
    show ?thesis using yields_bind [OF r yields_bind [OF IH yields_ret]] None by simp
  next
    case (Some a)
    then obtain t v where a: "fieldTag f = Some (t, v)" by (cases a) auto
    have "yields (ready tm l k (nextItem k (f # fs @ gs) tail) st) (readField f) f (at tm (Suc k) (encFields 0 (fs @ gs) @ 0 # tail) st)"
      using 20(1) 20(3,4) a by simp
    then have r: "yields (ready tm l k (nextItem k (f # fs @ gs) tail) st) (readField f) f (ready tm (Suc k) (Suc k) (nextItem (Suc k) (fs @ gs) tail) st)"
      by (rule yields_post) (rule at_ready, assumption, use 20(4) in simp)
    show ?thesis using yields_bind [OF r yields_bind [OF IH yields_ret]] by simp
  qed
next
  case (2 x)
  show ?case
    by (rule yields_readValueField [where t = 2 and c = PackBool and x = x and convert' = "of_bool" and convert = "\<lambda>value. value \<noteq> 0" and d = False])
      (use 2 in \<open>auto simp: pckReadBool_def tagValid_all zigzag_0 ucast_32_64 zigzag32 zigzag64\<close>)
next
  case (3 x)
  show ?case
    by (rule yields_readValueField [where t = 3 and c = PackI32 and x = x and convert' = "\<lambda>v. ucast (cvtInt32ToZigZag v)" and convert = "\<lambda>value. cvtInt32FromZigZag (ucast value)" and d = 0])
      (use 3 in \<open>auto simp: pckReadI32_def tagValid_all zigzag_0 ucast_32_64 zigzag32 zigzag64\<close>)
next
  case (4 x)
  show ?case
    by (rule yields_readValueField [where t = 4 and c = PackI64 and x = x and convert' = "cvtInt64ToZigZag" and convert = cvtInt64FromZigZag and d = 0])
      (use 4 in \<open>auto simp: pckReadI64_def tagValid_all zigzag_0 ucast_32_64 zigzag32 zigzag64\<close>)
next
  case (5 x)
  show ?case
    by (rule yields_readValueField [where t = 18 and c = PackMode and x = x and convert' = "ucast" and convert = ucast and d = 0])
      (use 5 in \<open>auto simp: pckReadMode_def tagValid_all zigzag_0 ucast_32_64 zigzag32 zigzag64\<close>)
next
  case (6 x)
  show ?case
    by (rule yields_readValueField [where t = 6 and c = PackPtr and x = x and convert' = "id" and convert = id and d = 0])
      (use 6 in \<open>auto simp: pckReadPtr_def tagValid_all zigzag_0 ucast_32_64 zigzag32 zigzag64\<close>)
next
  case (8 x)
  show ?case
    by (rule yields_readValueField [where t = 10 and c = PackStrId and x = x and convert' = "id" and convert = id and d = 0])
      (use 8 in \<open>auto simp: pckReadStrId_def tagValid_all zigzag_0 ucast_32_64 zigzag32 zigzag64\<close>)
next
  case (9 x)
  show ?case
    by (rule yields_readValueField [where t = 15 and c = PackTime and x = x and convert' = "cvtInt64ToZigZag" and convert = cvtInt64FromZigZag and d = 0])
      (use 9 in \<open>auto simp: pckReadTime_def tagValid_all zigzag_0 ucast_32_64 zigzag32 zigzag64\<close>)
next
  case (10 x)
  show ?case
    by (rule yields_readValueField [where t = 8 and c = PackU32 and x = x and convert' = "ucast" and convert = ucast and d = 0])
      (use 10 in \<open>auto simp: pckReadU32_def tagValid_all zigzag_0 ucast_32_64 zigzag32 zigzag64\<close>)
next
  case (11 x)
  show ?case
    by (rule yields_readValueField [where t = 9 and c = PackU64 and x = x and convert' = "id" and convert = id and d = 0])
      (use 11 in \<open>auto simp: pckReadU64_def tagValid_all zigzag_0 ucast_32_64 zigzag32 zigzag64\<close>)
next
  case 17
  have "yields (ready tm l k it st) (pckReadPackBuf 0) None (ready tm l (Suc k) it st)" if "Suc k < itemId it"
    unfolding pckReadPackBuf_def by (rule yields_bind [OF yields_readNull [OF that]]) (simp add: yields_ret)
  then show ?case by (auto intro!: yields_bind yields_ret)
next
  case (18 x)
  have "yields (ready tm l k (Tag (Suc k) 8 (ucast x) rest) st) (pckReadU32 0 0) x (at tm (Suc k) rest st)"
    unfolding pckReadU32_def using 18 by (intro yields_readStored) (auto simp: tagValid_all ucast_32_64)
  then show ?case by (auto intro!: yields_bind yields_ret)
next
  case 16
  have "yields (ready tm l k it st) (pckReadStr 0 None) None (ready tm l (Suc k) it st)" if "Suc k < itemId it"
    unfolding pckReadStr_def by (rule yields_bind [OF yields_readNull [OF that]]) (simp add: yields_ret)
  then show ?case by (auto intro!: yields_bind yields_ret)
next
  case (7 x)
  have "yields (ready tm l k (Tag (Suc k) 7 (if x = [] then 0 else 1) (fieldData (PackStr x) @ rest)) st)
      (readField (PackStr x)) (PackStr x) (at tm (Suc k) rest st)"
    using 7 yields_present [OF yields_readStr] by (simp only: fieldOk.simps fieldData.simps readField.simps)
  then show ?case by simp
next
  case (12 x)
  have "yields (ready tm l k (Tag (Suc k) 16 (if x = [] then 0 else 1) (fieldData (PackBin x) @ rest)) st)
      (readField (PackBin x)) (PackBin x) (at tm (Suc k) rest st)"
    using 12 yields_present [OF yields_readBin] by (simp only: fieldOk.simps fieldData.simps readField.simps)
  then show ?case by simp
next
  case (13 x)
  have "yields (ready tm l k (Tag (Suc k) 17 0 (fieldData (PackBuf x) @ rest)) st)
      (readField (PackBuf x)) (PackBuf x) (at tm (Suc k) rest st)"
    using 13 yields_present [OF yields_readPackBuf] by (simp only: fieldOk.simps fieldData.simps readField.simps)
  then show ?case by simp
qed

section \<open>One field after the other\<close>

text \<open>The fields that come next, for readers that read them one by one.\<close>

definition following :: "u32 \<Rightarrow> nat \<Rightarrow> PackField list \<Rightarrow> byte list \<Rightarrow> PackTagStack list \<Rightarrow> PackRead \<Rightarrow> bool" where
  "following tm k fs tail st r \<longleftrightarrow> k + length fs < 2 ^ 32 - 2 \<and> (\<forall>f \<in> set fs. fieldOk f) \<and> (\<exists>l. ready tm l k (nextItem k fs tail) st r)"

lemma yields_unbind: "yields P (bindP m (\<lambda>x. retP (c x))) (c x) Q \<Longrightarrow> (\<And>y. c y = c x \<Longrightarrow> y = x) \<Longrightarrow> yields P m x Q"
  unfolding yields_def run_bind_Inr by (simp add: run_simps) metis

lemma yields_following: "yields (following tm k (f # fs) tail st) (readField f) f (following tm (Suc k) fs tail st)"
proof (rule yieldsI)
  fix r assume r: "following tm k (f # fs) tail st r"
  then obtain l where l: "ready tm l k (nextItem k ([f] @ fs) tail) st r" "k + length ([f] @ fs) < 2 ^ 32 - 2" "\<forall>g \<in> set [f]. fieldOk g"
    by (auto simp: following_def)
  from yieldsD [OF yields_readField(2) [OF l(3,2)] l(1)]
  have "\<exists>s'. readFields [f] r = (Inr [f], s') \<and> (\<exists>l'. ready tm l' (Suc k) (nextItem (Suc k) fs tail) st s')" by simp
  then have "\<exists>s'. readField f r = (Inr f, s') \<and> (\<exists>l'. ready tm l' (Suc k) (nextItem (Suc k) fs tail) st s')"
    by (auto simp: run_simps split: prod.splits sum.splits)
  then show "\<exists>s'. readField f r = (Inr f, s') \<and> following tm (Suc k) fs tail st s'" using r by (auto simp: following_def)
qed

fun strField :: "string option \<Rightarrow> PackField" where
  "strField None = PackStrNull"
| "strField (Some s) = PackStr s"

lemma yields_fields:
  "yields (following tm k (PackBool b # fs) tail st) (pckReadBool 0 False) b (following tm (Suc k) fs tail st)"
  "yields (following tm k (PackI32 i # fs) tail st) (pckReadI32 0 0) i (following tm (Suc k) fs tail st)"
  "yields (following tm k (PackMode m # fs) tail st) (pckReadMode 0 0) m (following tm (Suc k) fs tail st)"
  "yields (following tm k (PackStrId si # fs) tail st) (pckReadStrId 0 0) si (following tm (Suc k) fs tail st)"
  "yields (following tm k (PackTime ti # fs) tail st) (pckReadTime 0 0) ti (following tm (Suc k) fs tail st)"
  "yields (following tm k (PackU32 u # fs) tail st) (pckReadU32 0 0) u (following tm (Suc k) fs tail st)"
  "yields (following tm k (PackU64 v # fs) tail st) (pckReadU64 0 0) v (following tm (Suc k) fs tail st)"
  "yields (following tm k (PackU32Stored w # fs) tail st) (pckReadU32 0 0) w (following tm (Suc k) fs tail st)"
  apply (rule yields_unbind [OF yields_following [where f = "PackBool b", unfolded readField.simps]], simp)
  apply (rule yields_unbind [OF yields_following [where f = "PackI32 i", unfolded readField.simps]], simp)
  apply (rule yields_unbind [OF yields_following [where f = "PackMode m", unfolded readField.simps]], simp)
  apply (rule yields_unbind [OF yields_following [where f = "PackStrId si", unfolded readField.simps]], simp)
  apply (rule yields_unbind [OF yields_following [where f = "PackTime ti", unfolded readField.simps]], simp)
  apply (rule yields_unbind [OF yields_following [where f = "PackU32 u", unfolded readField.simps]], simp)
  apply (rule yields_unbind [OF yields_following [where f = "PackU64 v", unfolded readField.simps]], simp)
  by (rule yields_unbind [OF yields_following [where f = "PackU32Stored w", unfolded readField.simps]], simp)

lemma yields_strField: "yields (following tm k (strField s # fs) tail st) (pckReadStr 0 None) s (following tm (Suc k) fs tail st)"
proof (cases s)
  case None
  have "yields (following tm k (PackStrNull # fs) tail st) (readField PackStrNull) PackStrNull (following tm (Suc k) fs tail st)" by (rule yields_following)
  then show ?thesis using None unfolding yields_def readField.simps run_bind_Inr
    by (fastforce simp: run_simps split: if_splits)
next
  case (Some s')
  have "yields (following tm k (PackStr s' # fs) tail st) (readField (PackStr s')) (PackStr s') (following tm (Suc k) fs tail st)" by (rule yields_following)
  then show ?thesis using Some unfolding yields_def readField.simps run_bind_Inr present_def
    by (fastforce simp: run_simps split: option.splits)
qed

fun bufField :: "byte list option \<Rightarrow> PackField" where
  "bufField None = PackBufNull"
| "bufField (Some b) = PackBuf b"

lemma yields_bufField: "yields (following tm k (bufField b # fs) tail st) (pckReadPackBuf 0) b (following tm (Suc k) fs tail st)"
proof (cases b)
  case None
  have "yields (following tm k (PackBufNull # fs) tail st) (readField PackBufNull) PackBufNull (following tm (Suc k) fs tail st)" by (rule yields_following)
  then show ?thesis using None unfolding yields_def readField.simps run_bind_Inr
    by (fastforce simp: run_simps split: if_splits)
next
  case (Some bs)
  have "yields (following tm k (PackBuf bs # fs) tail st) (readField (PackBuf bs)) (PackBuf bs) (following tm (Suc k) fs tail st)" by (rule yields_following)
  then show ?thesis using Some unfolding yields_def readField.simps run_bind_Inr present_def
    by (fastforce simp: run_simps split: option.splits)
qed

lemma yields_writeFieldAll: "\<exists>l' n'. yields (wr out [tagAt tm l n]) (writeFields fs) () (wr (out @ encFields n fs) [tagAt tm l' n'])"
  by (rule yields_writeField(2))

section \<open>Whole packs\<close>

definition writePack :: "PackField list \<Rightarrow> (PackWrite, unit) prog" where
  "writePack fs = bindP (writeFields fs) (\<lambda>_. pckWriteEnd)"

definition readPack :: "PackField list \<Rightarrow> (PackRead, PackField list) prog" where
  "readPack fs = bindP (readFields fs) (\<lambda>fs'. bindP pckReadEnd (\<lambda>_. retP fs'))"

definition packBytes :: "PackField list \<Rightarrow> byte list" where
  "packBytes fs = encFields 0 fs @ [0]"

lemma yields_writeEnd:
  "yields (wr out [tag]) pckWriteEnd () (\<lambda>w. tagStackW w = [] \<and> (case writeIo w of None \<Rightarrow> bufferW w | Some io \<Rightarrow> io) = out @ [0])"
proof -
  have v: "varint 0 = [0]" by (simp add: varint.simps [of 0])
  have "yields (wr (out @ [0]) [tag]) (modifyP (\<lambda>w. w\<lparr>tagStackW := []\<rparr>)) () (wr (out @ [0]) [])"
    by (rule yields_modify) (auto simp: wr_def split: option.splits)
  moreover have "yields (wr (out @ [0]) []) (bindP (getP writeIo) (\<lambda>io. bindP (getP bufferW) (\<lambda>buf.
      if io \<noteq> None then whenP (buf \<noteq> []) (ioWrite buf) else modifyP (\<lambda>this. this\<lparr>bufSizeAllocW := length (bufferW this)\<rparr>)))) ()
      (\<lambda>w. tagStackW w = [] \<and> (case writeIo w of None \<Rightarrow> bufferW w | Some io \<Rightarrow> io) = out @ [0])"
    by (rule yieldsI) (auto simp: run_simps wr_def ioWrite_def split: option.splits)
  ultimately have fin: "yields (wr (out @ [0]) [tag]) (bindP (modifyP (\<lambda>w. w\<lparr>tagStackW := []\<rparr>)) (\<lambda>_.
      bindP (getP writeIo) (\<lambda>io. bindP (getP bufferW) (\<lambda>buf.
      if io \<noteq> None then whenP (buf \<noteq> []) (ioWrite buf) else modifyP (\<lambda>this. this\<lparr>bufSizeAllocW := length (bufferW this)\<rparr>))))) ()
      (\<lambda>w. tagStackW w = [] \<and> (case writeIo w of None \<Rightarrow> bufferW w | Some io \<Rightarrow> io) = out @ [0])"
    by (rule yields_bind)
  show ?thesis
    unfolding pckWriteEnd_def
    apply (rule yields_bind [OF yields_get [where x = "[tag]"]], simp add: wr_def)
    apply (rule yields_bind [OF yields_lift [where x = "()"]], simp)
    by (rule yields_bind [OF yields_writeVarint [of _ _ 0, unfolded v] fin])
qed

lemma yields_writeWhole:
  "yields (wr [] [containerTag pckTypeMapObj]) (writePack fs) ()
     (\<lambda>w. tagStackW w = [] \<and> (case writeIo w of None \<Rightarrow> bufferW w | Some io \<Rightarrow> io) = packBytes fs)"
proof -
  have e: "containerTag pckTypeMapObj = tagAt pckTypeMapObj 0 0" by (simp add: containerTag_def tagAt_def)
  obtain l n where "yields (wr [] [tagAt pckTypeMapObj 0 0]) (writeFields fs) () (wr ([] @ encFields 0 fs) [tagAt pckTypeMapObj l n])"
    using yields_writeField(2) [of "[]" pckTypeMapObj 0 0 "[]" fs] by blast
  from yields_bind [OF this yields_writeEnd] show ?thesis by (simp add: writePack_def packBytes_def e)
qed

lemma yields_readEnd:
  assumes "n < 2 ^ 32 - 2"
  shows "yields (\<lambda>r. \<exists>l. ready tm l n (End rest) [] r) pckReadEnd () (\<lambda>r. good r \<and> unread r = rest \<and> tagStack r = [])"
proof (rule yieldsI, elim exE)
  fix r l assume r: "ready tm l n (End rest) [] r"
  obtain v r' where e: "pckReadTag (UINT_MAX - 1) 0 True r = (Inr (v, UINT_MAX - 1), r')" "peeked tm n (End rest) [] r'"
    using readEndTag [OF r assms] by blast
  have s: "tagStack r = [tagAt tm n 0]" by (rule ready_peek [OF r]) simp
  have "pckReadEnd r = (Inr (), r'\<lparr>tagStack := []\<rparr>)" using e(1) s by (simp add: pckReadEnd_def run_simps)
  moreover have "good (r'\<lparr>tagStack := []\<rparr>) \<and> unread (r'\<lparr>tagStack := []\<rparr>) = rest"
    using e(2) by (auto simp: peeked_def rd_def good_def unread_def)
  ultimately show "\<exists>s'. pckReadEnd r = (Inr (), s') \<and> good s' \<and> unread s' = rest \<and> tagStack s' = []" by simp
qed

lemma yields_readWhole:
  assumes "\<forall>f \<in> set fs. fieldOk f" "length fs < 2 ^ 32 - 2"
  shows "yields (rd (packBytes fs @ rest) (0, t, v, [containerTag pckTypeMapObj])) (readPack fs) fs
    (\<lambda>r. good r \<and> unread r = rest \<and> tagStack r = [])"
proof -
  have r: "ready pckTypeMapObj 0 0 (nextItem 0 fs rest) [] s" if "rd (packBytes fs @ rest) (0, t, v, [containerTag pckTypeMapObj]) s" for s
    by (rule at_ready) (use that assms(2) in \<open>auto simp: at_def packBytes_def containerTag_def tagAt_def\<close>)
  have "yields (ready pckTypeMapObj 0 0 (nextItem 0 fs rest) []) (readPack fs) fs (\<lambda>r. good r \<and> unread r = rest \<and> tagStack r = [])"
    unfolding readPack_def using assms
    by (auto intro!: yields_bind [OF yields_readField(2) [where gs = "[]", simplified]] yields_bind [OF yields_readEnd] yields_ret)
  then show ?thesis by (rule yields_pre) (rule r)
qed

text \<open>A writer keeps writing to its io, or to its buffer when it has none.\<close>

definition sameIo :: "bool \<Rightarrow> PackWrite \<Rightarrow> bool" where
  "sameIo b w \<longleftrightarrow> (writeIo w = None) = b"

lemma keeps_io:
  "keeps (sameIo b) (pckWriteBuffer bs)" "keeps (sameIo b) (pckWriteU64Internal v)" "keeps (sameIo b) (setTopW f)"
  "keeps (sameIo b) (pckWriteTag t i v)" "keeps (sameIo b) (pckWriteDefaultNull dw e)"
  "keeps (sameIo b) (pckWriteBegin t i)" "keeps (sameIo b) (pckWriteEndOf t)" "keeps (sameIo b) pckWriteEnd"
proof -
  show buf: "keeps (sameIo b) (pckWriteBuffer bs)" for bs
    unfolding pckWriteBuffer_def ioWrite_def bufCatW_def by (intro keeps_intros) (auto simp: sameIo_def)
  show u64: "keeps (sameIo b) (pckWriteU64Internal v)" for v
    unfolding pckWriteU64Internal_def by (rule buf)
  show setT: "keeps (sameIo b) (setTopW f)" for f
    unfolding setTopW_def by (rule keepsI) (auto simp: sameIo_def split: list.splits)
  have tagT: "keeps (sameIo b) tagTopW"
    unfolding tagTopW_def by (rule keepsI) (auto split: list.splits)
  show tag: "keeps (sameIo b) (pckWriteTag t i v)" for t i v
    unfolding pckWriteTag_def Let_def by (intro keeps_intros tagT setT) (auto intro!: keeps_intros buf u64 setT)
  show "keeps (sameIo b) (pckWriteDefaultNull dw e)"
    unfolding pckWriteDefaultNull_def by (intro keeps_intros setT)
  show "keeps (sameIo b) (pckWriteBegin t i)"
    unfolding pckWriteBegin_def by (intro keeps_intros tag) (simp add: sameIo_def)
  show "keeps (sameIo b) (pckWriteEndOf t)"
    unfolding pckWriteEndOf_def by (intro keeps_intros u64) (simp add: sameIo_def)
  show "keeps (sameIo b) pckWriteEnd"
    unfolding pckWriteEnd_def ioWrite_def by (intro keeps_intros u64) (auto simp: sameIo_def)
qed

lemma keeps_writeValue: "keeps (sameIo b) (pckWriteValue t c x i dw d)"
  unfolding pckWriteValue_def by (intro keeps_intros keeps_io)

lemma keeps_writeField: "keeps (sameIo b) (writeField f)" "keeps (sameIo b) (writeFields fs)"
  by (induction f and fs rule: writeField_writeFields.induct)
    (simp_all add: pckWriteNull_def pckWriteBool_def pckWriteI32_def pckWriteI64_def pckWriteMode_def pckWritePtr_def
      pckWriteStrId_def pckWriteTime_def pckWriteU32_def pckWriteU64_def pckWriteStr_def pckWriteBin_def pckWritePack_def
      pckWriteArrayBegin_def pckWriteArrayEnd_def pckWriteObjBegin_def pckWriteObjEnd_def keeps_writeValue
      keeps_intros keeps_io)

lemma writePack_run:
  assumes "wr [] [containerTag pckTypeMapObj] w0"
  obtains w where "writePack fs w0 = (Inr (), w)" "tagStackW w = []" "writeIo w = None \<longleftrightarrow> writeIo w0 = None"
    "(case writeIo w of None \<Rightarrow> bufferW w | Some io \<Rightarrow> io) = packBytes fs"
proof -
  have "keeps (sameIo (writeIo w0 = None)) (writePack fs)"
    unfolding writePack_def by (intro keeps_intros keeps_writeField keeps_io)
  then have "sameIo (writeIo w0 = None) (snd (writePack fs w0))" by (rule keepsD) (simp add: sameIo_def)
  moreover obtain w where "writePack fs w0 = (Inr (), w)" "tagStackW w = []"
      "(case writeIo w of None \<Rightarrow> bufferW w | Some io \<Rightarrow> io) = packBytes fs"
    using yieldsD [OF yields_writeWhole assms] by blast
  ultimately show ?thesis using that by (simp add: sameIo_def)
qed

text \<open>
  C30. What is written to a pack is read back, whether the pack goes through buffers or through an io:
  for any nested fields (nulls and default values included, which are not stored) whose strings and
  numbers of fields are within the limits, writing them and ending the pack succeeds with both kinds of
  writer and gives the same bytes, and reading fields of these types from the bytes gives the fields
  again, with nothing left in the buffer, and from an io in which more bytes follow exactly the bytes of the pack are consumed.
\<close>

theorem pack_roundtrip:
  assumes "\<forall>f \<in> set fs. fieldOk f" "length fs < 2 ^ 32 - 2" "0 < ioBufferSize"
  shows "\<exists>bytes w wio r rio.
    writePack fs (pckWriteNewBuf sizeAlloc []) = (Inr (), w) \<and> pckWriteBuf w = Inr bytes \<and>
    writePack fs (pckWriteNew ioBufferSize) = (Inr (), wio) \<and> writeIo wio = Some bytes \<and>
    readPack fs (the (pckReadNewBuf (Some bytes))) = (Inr fs, r) \<and> unread r = [] \<and>
    readPack fs (pckReadNew ioBufferSize (bytes @ rest)) = (Inr fs, rio) \<and> unread rio = rest"
proof -
  let ?r = "the (pckReadNewBuf (Some (packBytes fs)))"
  let ?rio = "pckReadNew ioBufferSize (packBytes fs @ rest)"
  obtain w where w: "writePack fs (pckWriteNewBuf sizeAlloc []) = (Inr (), w)" "tagStackW w = []" "writeIo w = None"
      "(case writeIo w of None \<Rightarrow> bufferW w | Some io \<Rightarrow> io) = packBytes fs"
    by (rule writePack_run [of "pckWriteNewBuf sizeAlloc []" fs])
      (auto simp: wr_def pckWriteNewBuf_def pckWriteNewInternal_def)
  obtain wio where wio: "writePack fs (pckWriteNew ioBufferSize) = (Inr (), wio)" "writeIo wio \<noteq> None"
      "(case writeIo wio of None \<Rightarrow> bufferW wio | Some io \<Rightarrow> io) = packBytes fs"
    by (rule writePack_run [of "pckWriteNew ioBufferSize" fs]) (auto simp: wr_def pckWriteNew_def pckWriteNewInternal_def)
  have "rd (packBytes fs @ []) (0, pckTypeMapUnknown, 0, [containerTag pckTypeMapObj]) ?r"
    by (simp add: rd_def good_def core_def unread_def pckReadNewBuf_def pckReadNewInternal_def)
  then obtain r where r: "readPack fs ?r = (Inr fs, r)" "unread r = []"
    using yieldsD [OF yields_readWhole [OF assms(1,2)]] by blast
  have "rd (packBytes fs @ rest) (0, pckTypeMapUnknown, 0, [containerTag pckTypeMapObj]) ?rio"
    using assms(3) by (simp add: rd_def good_def core_def unread_def pckReadNew_def pckReadNewInternal_def)
  then obtain rio where "readPack fs ?rio = (Inr fs, rio)" "unread rio = rest"
    using yieldsD [OF yields_readWhole [OF assms(1,2)]] by blast
  with w wio r show ?thesis
    by (intro exI [of _ "packBytes fs"] exI [of _ w] exI [of _ wio] exI [of _ r] exI [of _ rio])
      (auto simp: pckWriteBuf_def)
qed

text \<open>
  The round trip of an object in a pack with a null and a default between its fields, followed in the io by another byte.
\<close>

theorem pack_roundtrip_witness:
  "\<exists>bytes w wio r rio.
    writePack [PackU64 5, PackNull, PackObj [PackBool False, PackI32 (- 7), PackStr ''ab''], PackBin []] (pckWriteNewBuf 0 []) = (Inr (), w) \<and>
    pckWriteBuf w = Inr bytes \<and>
    writePack [PackU64 5, PackNull, PackObj [PackBool False, PackI32 (- 7), PackStr ''ab''], PackBin []] (pckWriteNew 3) = (Inr (), wio) \<and>
    writeIo wio = Some bytes \<and>
    readPack [PackU64 5, PackNull, PackObj [PackBool False, PackI32 (- 7), PackStr ''ab''], PackBin []] (the (pckReadNewBuf (Some bytes))) =
      (Inr [PackU64 5, PackNull, PackObj [PackBool False, PackI32 (- 7), PackStr ''ab''], PackBin []], r) \<and> unread r = [] \<and>
    readPack [PackU64 5, PackNull, PackObj [PackBool False, PackI32 (- 7), PackStr ''ab''], PackBin []] (pckReadNew 3 (bytes @ [9])) =
      (Inr [PackU64 5, PackNull, PackObj [PackBool False, PackI32 (- 7), PackStr ''ab''], PackBin []], rio) \<and> unread rio = [9]"
  by (rule pack_roundtrip) (simp_all add: STRING_SIZE_MAX_def)

end
