(* ===== verification/PackErrors.thy ===== *)
theory PackErrors
  imports PackFields
begin

text \<open>
  What the reader of packs does with fields it does not expect: a field of another type is refused,
  and fields that are skipped on the way to a later id, where nested packs and containers are misread.
\<close>

section \<open>Fields of another type\<close>

lemma readTag_otherType:
  assumes r: "ready tm l k (Tag (Suc k) t v rest) st r" and "t' \<noteq> t" "t' \<noteq> 0" "Suc k < 2 ^ 32 - 1"
  shows "fst (pckReadTag (word_of_nat (Suc k)) t' False r) = Inl FormatError"
proof -
  obtain r' where p: "peeked tm k (Tag (Suc k) t v rest) st r'" "tagStack r = tagAt tm k 0 # st"
    and run: "\<And>m :: (PackRead, u64) prog. bindP (getP tagNextId) (\<lambda>i. bindP (if i = 0 then bindP pckReadTagNext (\<lambda>_. retP ()) else retP ()) (\<lambda>_. m)) r = m r'"
    using ready_peek [OF r, where ?'a = u64] by blast
  have c: "tagNextId r' = word_of_nat (Suc k)" "tagNextTypeMap r' = t" using p(1) by (auto simp: peeked_def dest: rd_core)
  have loop: "pckReadTagLoop (Suc fuel) (word_of_nat (Suc k)) t' False r = (Inl FormatError, r')" for fuel
    unfolding pckReadTagLoop.simps run using c assms(2) by (simp add: run_simps)
  have nz: "(word_of_nat (Suc k) :: u32) \<noteq> 0" "\<not> (word_of_nat (Suc k) :: u32) \<le> word_of_nat k"
    using assms(4) word_of_nat_eq32 [of "Suc k" 0] word_of_nat_less32 [of k "Suc k"] by (simp_all add: not_le)
  show ?thesis
    using loop p(2) nz assms(3) by (simp add: pckReadTag_def run_simps tagTop_def tagAt_def add.commute Let_def)
qed

lemma readValue_otherType:
  assumes r: "ready tm l k (Tag (Suc k) t v rest) st r" and "t' \<noteq> t" "t' \<noteq> 0" "Suc k < 2 ^ 32 - 1"
  shows "fst (pckReadValue t' convert 0 d r) = Inl FormatError"
proof -
  obtain r' where n: "pckReadNullInternal 0 r = (Inr (False, word_of_nat (Suc k)), r')" "ready tm l k (Tag (Suc k) t v rest) st r'"
    using yieldsD [OF yields_readNotNull r] by blast
  obtain s where "pckReadTag (word_of_nat (Suc k)) t' False r' = (Inl FormatError, s)"
    using readTag_otherType [OF n(2) assms(2-4)] by (cases "pckReadTag (word_of_nat (Suc k)) t' False r'") auto
  then show ?thesis using n(1) by (simp add: pckReadValue_def run_simps)
qed



section \<open>Fields that are skipped\<close>

definition readSkip :: "PackField \<Rightarrow> u64 result" where
  "readSkip f = bindE (pckWriteBuf (snd (writePack [f, PackU64 5] (pckWriteNewBuf 0 [])))) (\<lambda>bytes.
     fst (pckReadU64 2 0 (the (pckReadNewBuf (Some bytes)))))"


end
