(* ===== verification/Protocol.thy ===== *)
theory Protocol
  imports PackFields
begin

text \<open>
  The protocol between processes (src/protocol): a client sends a command with its parameters in a pack, the
  server calls the handler of the command, with retries, and the handler answers with data and the end of
  data, or the server reports the error, which the client throws again. Each end reads from one stream
  of bytes and writes to another; every message is a pack of its own, written and read through the
  io buffer. Greetings, logging and sleeping are left out, and flushes too: what is written is delivered.
\<close>

section \<open>Error codes\<close>

text \<open>The codes of the error types of this development, in the order of src/common/error.auto.c.\<close>

definition errorTypeList :: "(ErrorType \<times> nat) list" where
  "errorTypeList = [
    (AssertError, 25), (ChecksumError, 26), (ConfigError, 27), (FileInvalidError, 28), (FormatError, 29),
    (CommandRequiredError, 30), (OptionInvalidError, 31), (OptionInvalidValueError, 32),
    (OptionRequiredError, 37), (ProtocolError, 39), (FileOpenError, 41), (FileReadError, 42),
    (ArchiveMismatchError, 44), (ArchiveDuplicateError, 45), (VersionNotSupportedError, 46),
    (LockAcquireError, 50), (BackupMismatchError, 51), (FileMissingError, 55), (DbMismatchError, 58),
    (FileRemoveError, 60), (PathRemoveError, 61), (StopError, 62), (TermError, 63), (FileWriteError, 64),
    (PathMissingError, 73), (BackupSetInvalidError, 75), (FileCloseError, 79), (ArchiveTimeoutError, 82),
    (FileOwnerError, 88), (MemoryError, 94), (CryptoError, 95), (ParamInvalidError, 96), (FileInfoError, 98), (JsonFormatError, 99),
    (RepoInvalidError, 103), (CommandError, 104), (RuntimeError, 122), (UnhandledError, 124),
    (UnknownError, 125)]"

definition errorTypeCode :: "ErrorType \<Rightarrow> nat" where
  "errorTypeCode e = (case map_of errorTypeList e of Some c \<Rightarrow> c | None \<Rightarrow> 0)"

fun errorTypeSearch :: "(ErrorType \<times> nat) list \<Rightarrow> u32 \<Rightarrow> ErrorType" where
  "errorTypeSearch [] code = UnknownError"
| "errorTypeSearch ((e, c) # es) code = (if of_nat c = code then e else errorTypeSearch es code)"

definition errorTypeFromCode :: "u32 \<Rightarrow> ErrorType" where
  "errorTypeFromCode code = errorTypeSearch errorTypeList code"

section \<open>Messages\<close>

record ProtocolEnd =
  endRead :: "byte list"
  endWrite :: "byte list"

definition protocolMessageTypeData :: u32 where "protocolMessageTypeData = 0"
definition protocolMessageTypeDataEnd :: u32 where "protocolMessageTypeDataEnd = 1"
definition protocolMessageTypeCommand :: u32 where "protocolMessageTypeCommand = 2"
definition protocolMessageTypeError :: u32 where "protocolMessageTypeError = 3"

text \<open>
  A message is written with a pack writer on the stream and read with a pack reader on it, whose buffers have the
  given size. What a reader has in its buffer when it is dropped is lost.
\<close>

definition putMessage :: "nat \<Rightarrow> (PackWrite, 'a) prog \<Rightarrow> ('e ProtocolEnd_scheme, 'a) prog" where
  "putMessage ioBufferSize m = (\<lambda>this. case m (pckWriteNew ioBufferSize) of
     (r, w) \<Rightarrow> (r, this\<lparr>endWrite := endWrite this @ (case writeIo w of None \<Rightarrow> [] | Some out \<Rightarrow> out)\<rparr>))"

definition getMessage :: "nat \<Rightarrow> (PackRead, 'a) prog \<Rightarrow> ('e ProtocolEnd_scheme, 'a) prog" where
  "getMessage ioBufferSize m = (\<lambda>this. case m (pckReadNew ioBufferSize (endRead this)) of
     (r, pack) \<Rightarrow> (r, this\<lparr>endRead := (case readIo pack of None \<Rightarrow> [] | Some io \<Rightarrow> io)\<rparr>))"

definition protocolPackNew :: PackWrite where
  "protocolPackNew = pckWriteNewBuf 1024 []"

text \<open>Ending a pack of data that is sent inside a message.\<close>

definition packEnd :: "PackWrite option \<Rightarrow> PackWrite option result" where
  "packEnd data = (case data of
     None \<Rightarrow> Inr None
   | Some pack \<Rightarrow> (case pckWriteEnd pack of (Inl e, _) \<Rightarrow> Inl e | (Inr _, pack') \<Rightarrow> Inr (Some pack')))"

definition dataPut :: "nat \<Rightarrow> PackWrite option \<Rightarrow> ('e ProtocolEnd_scheme, unit) prog" where
  "dataPut ioBufferSize data =
     bindP (liftP (packEnd data)) (\<lambda>pack.
     putMessage ioBufferSize
       (bindP (pckWriteU32 protocolMessageTypeData 0 True 0) (\<lambda>_.
        bindP (pckWritePack pack 0) (\<lambda>_.
        pckWriteEnd))))"

section \<open>Commands\<close>

record ProtocolCommand =
  command :: u64
  pack :: "PackWrite option"

definition protocolCommandNew :: "u64 \<Rightarrow> ProtocolCommand result" where
  "protocolCommandNew c = bindE (ASSERT (c \<noteq> 0)) (\<lambda>_. Inr \<lparr>command = c, pack = None\<rparr>)"

text \<open>The parameters of a command are written to its pack, which is made when there is none.\<close>

definition protocolCommandParam :: "ProtocolCommand \<Rightarrow> PackWrite" where
  "protocolCommandParam this = (case pack this of None \<Rightarrow> protocolPackNew | Some p \<Rightarrow> p)"

definition protocolCommandPut :: "nat \<Rightarrow> ProtocolCommand \<Rightarrow> ('e ProtocolEnd_scheme, unit) prog" where
  "protocolCommandPut ioBufferSize this =
     putMessage ioBufferSize
       (bindP (pckWriteU32 protocolMessageTypeCommand 0 True 0) (\<lambda>_.
        bindP (pckWriteStrId (command this) 0 False 0) (\<lambda>_.
        bindP (case pack this of
            None \<Rightarrow> retP ()
          | Some p \<Rightarrow> bindP (liftP (packEnd (Some p))) (\<lambda>p'. pckWritePack p' 0)) (\<lambda>_.
        pckWriteEnd))))"

section \<open>The client\<close>

definition protocolClientDataPut :: "nat \<Rightarrow> PackWrite option \<Rightarrow> ('e ProtocolEnd_scheme, unit) prog" where
  "protocolClientDataPut = dataPut"

text \<open>An error message is thrown again. The stack is needed for an assertion or when debug is logged.\<close>

definition protocolClientError :: "bool \<Rightarrow> u32 \<Rightarrow> (PackRead, unit) prog" where
  "protocolClientError logDebug msgType =
     whenP (msgType = protocolMessageTypeError)
       (bindP (pckReadI32 0 0) (\<lambda>code.
        bindP (pckReadStr 0 None) (\<lambda>message.
        bindP (liftP (ASSERT (message \<noteq> None))) (\<lambda>_.
        bindP (pckReadStr 0 None) (\<lambda>stack.
        bindP pckReadEnd (\<lambda>_.
        bindP (liftP (ASSERT ((errorTypeFromCode code = AssertError \<or> logDebug) \<longrightarrow> stack \<noteq> None))) (\<lambda>_.
        throwP (errorTypeFromCode code))))))))"

definition protocolClientDataGet :: "bool \<Rightarrow> nat \<Rightarrow> ('e ProtocolEnd_scheme, PackRead option) prog" where
  "protocolClientDataGet logDebug ioBufferSize =
     getMessage ioBufferSize
       (bindP (pckReadU32 0 0) (\<lambda>msgType.
        bindP (protocolClientError logDebug msgType) (\<lambda>_.
        bindP (liftP (ASSERT (msgType = protocolMessageTypeData))) (\<lambda>_.
        bindP (pckReadPack 0) (\<lambda>r.
        bindP pckReadEnd (\<lambda>_.
        retP r))))))"

definition protocolClientDataEndGet :: "bool \<Rightarrow> nat \<Rightarrow> ('e ProtocolEnd_scheme, unit) prog" where
  "protocolClientDataEndGet logDebug ioBufferSize =
     getMessage ioBufferSize
       (bindP (pckReadU32 0 0) (\<lambda>msgType.
        bindP (protocolClientError logDebug msgType) (\<lambda>_.
        bindP (liftP (ASSERT (msgType = protocolMessageTypeDataEnd))) (\<lambda>_.
        pckReadEnd))))"

definition protocolClientCommandPut :: "nat \<Rightarrow> ProtocolCommand \<Rightarrow> ('e ProtocolEnd_scheme, unit) prog" where
  "protocolClientCommandPut = protocolCommandPut"

text \<open>Reading the answer to a command, the part of protocolClientExecute after the command was put.\<close>

definition clientResponse :: "bool \<Rightarrow> nat \<Rightarrow> bool \<Rightarrow> ('e ProtocolEnd_scheme, PackRead option) prog" where
  "clientResponse logDebug ioBufferSize resultRequired =
     bindP (if resultRequired then protocolClientDataGet logDebug ioBufferSize else retP None) (\<lambda>r.
     bindP (protocolClientDataEndGet logDebug ioBufferSize) (\<lambda>_.
     retP r))"

definition PROTOCOL_COMMAND_EXIT :: u64 where "PROTOCOL_COMMAND_EXIT = 0xa27050"
definition PROTOCOL_COMMAND_NOOP :: u64 where "PROTOCOL_COMMAND_NOOP = 0x83dee0"

section \<open>The server\<close>

text \<open>The server, with the state of its handlers and the flag of the loop.\<close>

record 'h ProtocolServer = ProtocolEnd +
  serverExit :: bool
  handlerData :: 'h

type_synonym 'h handler = "PackRead option \<Rightarrow> ('h ProtocolServer, unit) prog"

text \<open>The message and the stack trace of an error are given by a function.\<close>

definition protocolServerError :: "nat \<Rightarrow> nat \<Rightarrow> string \<Rightarrow> string \<Rightarrow> ('e ProtocolEnd_scheme, unit) prog" where
  "protocolServerError ioBufferSize code message stack =
     bindP (liftP (ASSERT (code \<noteq> 0))) (\<lambda>_.
     putMessage ioBufferSize
       (bindP (pckWriteU32 protocolMessageTypeError 0 False 0) (\<lambda>_.
        bindP (pckWriteI32 (of_nat code) 0 False 0) (\<lambda>_.
        bindP (pckWriteStr (Some message) 0 False None) (\<lambda>_.
        bindP (pckWriteStr (Some stack) 0 False None) (\<lambda>_.
        pckWriteEnd))))))"

definition protocolServerCommandGet :: "nat \<Rightarrow> ('e ProtocolEnd_scheme, u64 \<times> byte list option) prog" where
  "protocolServerCommandGet ioBufferSize =
     getMessage ioBufferSize
       (bindP (pckReadU32 0 0) (\<lambda>msgType.
        bindP (liftP (ASSERT (msgType = protocolMessageTypeCommand))) (\<lambda>_.
        bindP (pckReadStrId 0 0) (\<lambda>cid.
        bindP (pckReadPackBuf 0) (\<lambda>param.
        bindP pckReadEnd (\<lambda>_.
        retP (cid, param)))))))"

definition protocolServerDataGet :: "nat \<Rightarrow> ('e ProtocolEnd_scheme, PackRead option) prog" where
  "protocolServerDataGet ioBufferSize =
     getMessage ioBufferSize
       (bindP (pckReadU32 0 0) (\<lambda>msgType.
        bindP (liftP (ASSERT (msgType = protocolMessageTypeData))) (\<lambda>_.
        bindP (pckReadPack 0) (\<lambda>r.
        bindP pckReadEnd (\<lambda>_.
        retP r)))))"

definition protocolServerDataPut :: "nat \<Rightarrow> PackWrite option \<Rightarrow> ('e ProtocolEnd_scheme, unit) prog" where
  "protocolServerDataPut = dataPut"

definition protocolServerDataEndPut :: "nat \<Rightarrow> ('e ProtocolEnd_scheme, unit) prog" where
  "protocolServerDataEndPut ioBufferSize =
     putMessage ioBufferSize (bindP (pckWriteU32 protocolMessageTypeDataEnd 0 True 0) (\<lambda>_. pckWriteEnd))"

text \<open>The handler is called again after an error as long as retries remain.\<close>

fun handlerLoop :: "('h ProtocolServer, unit) prog \<Rightarrow> nat \<Rightarrow> ('h ProtocolServer, unit) prog \<Rightarrow> ('h ProtocolServer, unit) prog" where
  "handlerLoop keepAlive 0 h = h"
| "handlerLoop keepAlive (Suc retryRemaining) h =
     tryP h (\<lambda>_. bindP keepAlive (\<lambda>_. handlerLoop keepAlive retryRemaining h))"

definition serverTurn :: "('h ProtocolServer, unit) prog \<Rightarrow> (ErrorType \<Rightarrow> string) \<Rightarrow> (ErrorType \<Rightarrow> string) \<Rightarrow> nat \<Rightarrow> nat \<Rightarrow>
    (u64 \<times> 'h handler) list \<Rightarrow> ('h ProtocolServer, unit) prog" where
  "serverTurn keepAlive message stack ioBufferSize retries handlerList =
     tryP
       (bindP (protocolServerCommandGet ioBufferSize) (\<lambda>(cid, param).
        bindP
          (case map_of handlerList cid of
             Some handler \<Rightarrow> handlerLoop keepAlive retries (handler (pckReadNewBuf param))
           | None \<Rightarrow>
               if cid = PROTOCOL_COMMAND_EXIT then modifyP (\<lambda>this. this\<lparr>serverExit := True\<rparr>)
               else if cid = PROTOCOL_COMMAND_NOOP then protocolServerDataEndPut ioBufferSize
               else throwP ProtocolError) (\<lambda>_.
        keepAlive)))
       (\<lambda>e. protocolServerError ioBufferSize (errorTypeCode e) (message e) (stack e))"

text \<open>The loop until the exit command, with fuel for the commands that are read.\<close>

fun protocolServerProcess :: "('h ProtocolServer, unit) prog \<Rightarrow> (ErrorType \<Rightarrow> string) \<Rightarrow> (ErrorType \<Rightarrow> string) \<Rightarrow> nat \<Rightarrow> nat \<Rightarrow>
    (u64 \<times> 'h handler) list \<Rightarrow> nat \<Rightarrow> ('h ProtocolServer, unit) prog" where
  "protocolServerProcess keepAlive message stack ioBufferSize retries handlerList 0 = throwP NoReturn"
| "protocolServerProcess keepAlive message stack ioBufferSize retries handlerList (Suc fuel) =
     bindP (serverTurn keepAlive message stack ioBufferSize retries handlerList) (\<lambda>_.
     bindP (getP serverExit) (\<lambda>exit.
     if exit then retP () else protocolServerProcess keepAlive message stack ioBufferSize retries handlerList fuel))"

end
