(* ===== verification/ProtocolProof.thy ===== *)
theory ProtocolProof
  imports Protocol
begin

text \<open>
  A command and its answer arrive unchanged: what the handler answers is what the client reads, an error of
  the handler is thrown by the client, and in both cases no byte is left in the streams, so the
  next command starts with the next message.
\<close>

section \<open>Readers stay on their io\<close>

definition onIo :: "PackRead \<Rightarrow> bool" where
  "onIo r \<longleftrightarrow> readIo r \<noteq> None"

lemma onIo_update [simp]:
  "onIo (r\<lparr>bufferPos := n\<rparr>) = onIo r" "onIo (r\<lparr>tagNextId := i\<rparr>) = onIo r" "onIo (r\<lparr>tagNextTypeMap := m\<rparr>) = onIo r"
  "onIo (r\<lparr>tagNextValue := v\<rparr>) = onIo r" "onIo (r\<lparr>tagNextId := i, tagNextValue := v\<rparr>) = onIo r" "onIo (r\<lparr>tagStack := st\<rparr>) = onIo r"
  by (simp_all add: onIo_def)

named_theorems onIo_intros "readers that stay on their io"

lemma onIo_buffer [onIo_intros]: "keeps onIo (pckReadBuffer n)"
  unfolding pckReadBuffer_def onIo_def by (rule keepsI) (auto simp: Let_def split: option.splits)

lemma onIo_byte [onIo_intros]: "keeps onIo pckReadByte"
  unfolding pckReadByte_def by (intro keeps_intros onIo_intros) simp

lemma onIo_u64Loop: "keeps onIo (pckReadU64Loop n i r)"
  by (induction n i r rule: pckReadU64Loop.induct) (auto simp: Let_def intro!: keeps_intros onIo_intros)

lemma onIo_u64 [onIo_intros]: "keeps onIo pckReadU64Internal"
  unfolding pckReadU64Internal_def by (rule onIo_u64Loop)

lemma onIo_chunks [onIo_intros]: "keeps onIo (pckReadChunks n)"
proof (induction n rule: pckReadChunks.induct)
  case (1 sz)
  then show ?case by (subst pckReadChunks.simps) (auto intro!: keeps_intros onIo_intros)
qed

lemma onIo_tagTop [onIo_intros]: "keeps onIo tagTop" "keeps onIo (setIdLast i)"
  unfolding tagTop_def setIdLast_def by (rule keepsI, auto split: list.splits)+

lemma onIo_tagValue [onIo_intros]: "keeps onIo (pckReadTagValue d t)"
  unfolding pckReadTagValue_def tagIdHigh_def by (auto intro!: keeps_intros onIo_intros)

lemma onIo_tagNext [onIo_intros]: "keeps onIo pckReadTagNext"
  unfolding pckReadTagNext_def Let_def by (auto intro!: keeps_intros onIo_intros)

lemma onIo_skip [onIo_intros]: "keeps onIo pckReadSkip"
  unfolding pckReadSkip_def by (intro keeps_intros onIo_intros)

lemma onIo_tagLoop [onIo_intros]: "keeps onIo (pckReadTagLoop n i t p)"
  by (induction n i t p rule: pckReadTagLoop.induct) (auto simp: pckReadTagLoop.simps intro!: keeps_intros onIo_intros)

lemma onIo_tag [onIo_intros]: "keeps onIo (pckReadTag i t p)"
  unfolding pckReadTag_def Let_def by (intro keeps_intros onIo_intros)

lemma onIo_null [onIo_intros]: "keeps onIo (pckReadNullInternal i)"
  unfolding pckReadNullInternal_def by (auto intro!: keeps_intros onIo_intros)

lemma onIo_value [onIo_intros]: "keeps onIo (pckReadValue t c i d)"
  unfolding pckReadValue_def by (auto intro!: keeps_intros onIo_intros)

lemma onIo_fields [onIo_intros]:
  "keeps onIo (pckReadU32 i d)" "keeps onIo (pckReadI32 i d)" "keeps onIo (pckReadStrId i d')" "keeps onIo (pckReadStr i d'')"
  "keeps onIo (pckReadPackBuf i)" "keeps onIo (pckReadPack i)" "keeps onIo pckReadEnd"
proof -
  have "keeps onIo (pckReadEndLoop st)" for st
    by (induction st) (auto intro!: keeps_intros onIo_intros)
  then show "keeps onIo pckReadEnd" unfolding pckReadEnd_def by (intro keeps_intros) auto
  show b: "keeps onIo (pckReadPackBuf i)" unfolding pckReadPackBuf_def by (auto intro!: keeps_intros onIo_intros)
  show "keeps onIo (pckReadPack i)" unfolding pckReadPack_def by (intro keeps_intros b)
  show "keeps onIo (pckReadStr i d'')" unfolding pckReadStr_def by (auto intro!: keeps_intros onIo_intros)
  show "keeps onIo (pckReadU32 i d)" "keeps onIo (pckReadI32 i d)" "keeps onIo (pckReadStrId i d')"
    unfolding pckReadU32_def pckReadI32_def pckReadStrId_def by (intro onIo_intros)+
qed

section \<open>Messages\<close>

lemma putMessage_run:
  assumes "m = writePack fs"
  shows "putMessage sz m s = (Inr (), s\<lparr>endWrite := endWrite s @ packBytes fs\<rparr>)"
proof -
  obtain w where "writePack fs (pckWriteNew sz) = (Inr (), w)" "writeIo w \<noteq> None"
      "(case writeIo w of None \<Rightarrow> bufferW w | Some io \<Rightarrow> io) = packBytes fs"
    by (rule writePack_run [of "pckWriteNew sz" fs]) (auto simp: wr_def pckWriteNew_def pckWriteNewInternal_def)
  then show ?thesis by (auto simp: putMessage_def assms)
qed

text \<open>A reader that consumes the message, whether it returns or throws.\<close>

definition consumes :: "PackField list \<Rightarrow> byte list \<Rightarrow> (PackRead, 'a) prog \<Rightarrow> 'a result \<Rightarrow> bool" where
  "consumes fs rest m r \<longleftrightarrow> (\<forall>s. following pckTypeMapObj 0 fs rest [] s \<longrightarrow> (\<exists>s'. m s = (r, s') \<and> good s' \<and> unread s' = rest))"

lemma getMessage_run:
  assumes "consumes fs rest m r" "keeps onIo m" "0 < sz" "\<forall>f \<in> set fs. fieldOk f" "length fs < 2 ^ 32 - 2" "endRead s = packBytes fs @ rest"
  shows "getMessage sz m s = (r, s\<lparr>endRead := rest\<rparr>)"
proof -
  let ?p = "pckReadNew sz (endRead s)"
  have "at pckTypeMapObj 0 (packBytes fs @ rest) [] ?p"
    using assms(3,6) by (simp add: at_def rd_def good_def core_def unread_def tagAt_def containerTag_def pckReadNew_def pckReadNewInternal_def)
  then have "ready pckTypeMapObj 0 0 (nextItem 0 fs rest) [] ?p"
    using at_ready [of pckTypeMapObj 0 fs rest "[]" ?p] assms(5) by (simp add: packBytes_def)
  then have "following pckTypeMapObj 0 fs rest [] ?p" using assms(4,5) by (auto simp: following_def)
  then obtain p' where p': "m ?p = (r, p')" "good p'" "unread p' = rest" using assms(1) unfolding consumes_def by blast
  have "onIo (snd (m ?p))" by (rule keepsD [OF assms(2)]) (simp add: pckReadNew_def onIo_def)
  then obtain io where "readIo p' = Some io" using p'(1) by (auto simp: onIo_def)
  then have "readIo p' = Some rest" using p'(2,3) by (simp add: good_def unread_def)
  then show ?thesis using p'(1) by (simp add: getMessage_def)
qed

lemma consumesI: "yields (following pckTypeMapObj 0 fs rest []) m x (\<lambda>r. good r \<and> unread r = rest \<and> tagStack r = []) \<Longrightarrow> consumes fs rest m (Inr x)"
  unfolding consumes_def yields_def by blast

lemma yields_readEndAll: "yields (following tm k [] rest []) pckReadEnd () (\<lambda>r. good r \<and> unread r = rest \<and> tagStack r = [])"
proof (cases "k < 2 ^ 32 - 2")
  case True
  show ?thesis by (rule yields_pre [OF yields_readEnd [OF True, of tm]]) (auto simp: following_def)
qed (auto simp: yields_def following_def)

lemma yields_endRet: "yields (following tm k [] rest []) (bindP pckReadEnd (\<lambda>_. retP x)) x (\<lambda>r. good r \<and> unread r = rest \<and> tagStack r = [])"
  by (rule yields_bind [OF yields_readEndAll yields_ret])

section \<open>Packs inside messages\<close>

text \<open>A pack of fields that is sent inside a message.\<close>

definition packOf :: "PackField list \<Rightarrow> PackWrite" where
  "packOf fs = snd (writeFields fs protocolPackNew)"

lemma packEnd_packOf: "\<exists>p. packEnd (Some (packOf fs)) = Inr (Some p) \<and> pckWritePack (Some p) 0 = writeField (PackBuf (packBytes fs))"
proof -
  have p: "wr [] [containerTag pckTypeMapObj] protocolPackNew" "writeIo protocolPackNew = None"
    by (auto simp: wr_def protocolPackNew_def pckWriteNewBuf_def pckWriteNewInternal_def)
  obtain w where w: "writePack fs protocolPackNew = (Inr (), w)" "tagStackW w = []" "writeIo w = None"
      "(case writeIo w of None \<Rightarrow> bufferW w | Some io \<Rightarrow> io) = packBytes fs"
    by (rule writePack_run [OF p(1), of fs]) (use p(2) in auto)
  then have "pckWriteEnd (packOf fs) = (Inr (), w)"
    unfolding writePack_def packOf_def by (auto simp: run_simps split: prod.splits sum.splits)
  moreover have "pckWritePack (Some w) 0 = writeField (PackBuf (packBytes fs))"
    using w(2-4) by (simp add: pckWritePack_def pckWriteBuf_def)
  ultimately show ?thesis by (auto simp: packEnd_def)
qed

lemma dataPut_run:
  "dataPut sz (Some (packOf fs)) s = (Inr (), s\<lparr>endWrite := endWrite s @ packBytes [PackU32Stored protocolMessageTypeData, PackBuf (packBytes fs)]\<rparr>)"
proof -
  obtain p where p: "packEnd (Some (packOf fs)) = Inr (Some p)" "pckWritePack (Some p) 0 = writeField (PackBuf (packBytes fs))"
    using packEnd_packOf by blast
  show ?thesis unfolding dataPut_def
    by (simp add: run_simps p) (rule putMessage_run, simp add: writePack_def fun_eq_iff run_simps p split: prod.splits sum.splits)
qed

lemma dataEndPut_run: "protocolServerDataEndPut sz s = (Inr (), s\<lparr>endWrite := endWrite s @ packBytes [PackU32Stored protocolMessageTypeDataEnd]\<rparr>)"
  unfolding protocolServerDataEndPut_def
  by (rule putMessage_run) (simp add: writePack_def fun_eq_iff run_simps split: prod.splits sum.splits)

section \<open>Reading the messages\<close>

definition commandFields :: "u64 \<Rightarrow> byte list option \<Rightarrow> PackField list" where
  "commandFields cid param = [PackU32Stored protocolMessageTypeCommand, PackStrId cid, bufField param]"

definition dataFields :: "byte list option \<Rightarrow> PackField list" where
  "dataFields data = [PackU32Stored protocolMessageTypeData, bufField data]"

definition errorFields :: "nat \<Rightarrow> string \<Rightarrow> string \<Rightarrow> PackField list" where
  "errorFields code message stack = [PackU32 protocolMessageTypeError, PackI32 (of_nat code), strField (Some message), strField (Some stack)]"

lemma packBytes_null: "packBytes [f, g, PackBufNull] = packBytes [f, g]"
  by (simp add: packBytes_def split: option.splits)

lemma protocolCommandPut_run:
  "protocolCommandPut sz \<lparr>command = cid, pack = map_option packOf ps\<rparr> s =
     (Inr (), s\<lparr>endWrite := endWrite s @ packBytes (commandFields cid (map_option packBytes ps))\<rparr>)"
proof (cases ps)
  case None
  have "protocolCommandPut sz \<lparr>command = cid, pack = None\<rparr> s =
      (Inr (), s\<lparr>endWrite := endWrite s @ packBytes [PackU32Stored protocolMessageTypeCommand, PackStrId cid]\<rparr>)"
    unfolding protocolCommandPut_def
    by (rule putMessage_run) (simp add: writePack_def fun_eq_iff run_simps split: prod.splits sum.splits)
  then show ?thesis using None by (simp add: commandFields_def packBytes_null)
next
  case (Some fs)
  obtain p where p: "packEnd (Some (packOf fs)) = Inr (Some p)" "pckWritePack (Some p) 0 = writeField (PackBuf (packBytes fs))"
    using packEnd_packOf by blast
  have "protocolCommandPut sz \<lparr>command = cid, pack = Some (packOf fs)\<rparr> s =
      (Inr (), s\<lparr>endWrite := endWrite s @ packBytes [PackU32Stored protocolMessageTypeCommand, PackStrId cid, PackBuf (packBytes fs)]\<rparr>)"
    unfolding protocolCommandPut_def
    by (rule putMessage_run) (simp add: writePack_def fun_eq_iff run_simps p split: prod.splits sum.splits)
  then show ?thesis using Some by (simp add: commandFields_def)
qed

lemma protocolServerCommandGet_run:
  assumes "0 < sz" "case param of None \<Rightarrow> True | Some b \<Rightarrow> length b < 2 ^ 64" "endRead s = packBytes (commandFields cid param) @ rest"
  shows "protocolServerCommandGet sz s = (Inr (cid, param), s\<lparr>endRead := rest\<rparr>)"
  unfolding protocolServerCommandGet_def
proof (rule getMessage_run [OF _ _ assms(1) _ _ assms(3)])
  show "consumes (commandFields cid param) rest
     (bindP (pckReadU32 0 0) (\<lambda>msgType. bindP (liftP (ASSERT (msgType = protocolMessageTypeCommand))) (\<lambda>_.
      bindP (pckReadStrId 0 0) (\<lambda>cid. bindP (pckReadPackBuf 0) (\<lambda>param. bindP pckReadEnd (\<lambda>_. retP (cid, param))))))) (Inr (cid, param))"
    unfolding commandFields_def
    by (intro consumesI) (rule yields_bind [OF yields_fields(8)], rule yields_bind [OF yields_lift], simp,
      rule yields_bind [OF yields_fields(4)], rule yields_bind [OF yields_bufField], rule yields_endRet)
  show "\<forall>f \<in> set (commandFields cid param). fieldOk f" using assms(2) by (cases param) (auto simp: commandFields_def)
  show "keeps onIo
     (bindP (pckReadU32 0 0) (\<lambda>msgType. bindP (liftP (ASSERT (msgType = protocolMessageTypeCommand))) (\<lambda>_.
      bindP (pckReadStrId 0 0) (\<lambda>cid. bindP (pckReadPackBuf 0) (\<lambda>param. bindP pckReadEnd (\<lambda>_. retP (cid, param)))))))"
    by (intro keeps_intros onIo_intros)
qed (simp add: commandFields_def)

lemma onIo_clientError [onIo_intros]: "keeps onIo (protocolClientError d t)"
  unfolding protocolClientError_def by (intro keeps_intros onIo_intros)

lemma yields_noError: "msgType \<noteq> protocolMessageTypeError \<Longrightarrow> yields P (protocolClientError d msgType) () P"
  by (simp add: protocolClientError_def whenP_def yields_ret)

lemma protocolClientDataGet_run:
  assumes "0 < sz" "case b of None \<Rightarrow> True | Some b \<Rightarrow> length b < 2 ^ 64" "endRead s = packBytes (dataFields b) @ rest"
  shows "protocolClientDataGet d sz s = (Inr (pckReadNewBuf b), s\<lparr>endRead := rest\<rparr>)"
  unfolding protocolClientDataGet_def
proof (rule getMessage_run [OF _ _ assms(1) _ _ assms(3)])
  let ?m = "bindP (pckReadU32 0 0) (\<lambda>msgType. bindP (protocolClientError d msgType) (\<lambda>_.
      bindP (liftP (ASSERT (msgType = protocolMessageTypeData))) (\<lambda>_. bindP (pckReadPack 0) (\<lambda>r. bindP pckReadEnd (\<lambda>_. retP r)))))"
  have ne: "protocolMessageTypeData \<noteq> protocolMessageTypeError" by (simp add: protocolMessageTypeData_def protocolMessageTypeError_def)
  show "consumes (dataFields b) rest ?m (Inr (pckReadNewBuf b))"
    unfolding dataFields_def pckReadPack_def
    by (intro consumesI) (rule yields_bind [OF yields_fields(8)], rule yields_bind [OF yields_noError [OF ne]], rule yields_bind [OF yields_lift], simp,
      rule yields_bind [OF yields_bind [OF yields_bufField yields_ret]], rule yields_endRet)
  show "\<forall>f \<in> set (dataFields b). fieldOk f" using assms(2) by (cases b) (auto simp: dataFields_def)
  show "keeps onIo ?m" by (intro keeps_intros onIo_intros)
qed (simp add: dataFields_def)

lemma protocolClientDataEndGet_run:
  assumes "0 < sz" "endRead s = packBytes [PackU32Stored protocolMessageTypeDataEnd] @ rest"
  shows "protocolClientDataEndGet d sz s = (Inr (), s\<lparr>endRead := rest\<rparr>)"
  unfolding protocolClientDataEndGet_def
proof (rule getMessage_run [OF _ _ assms(1) _ _ assms(2)])
  let ?m = "bindP (pckReadU32 0 0) (\<lambda>msgType. bindP (protocolClientError d msgType) (\<lambda>_.
      bindP (liftP (ASSERT (msgType = protocolMessageTypeDataEnd))) (\<lambda>_. pckReadEnd)))"
  have ne: "protocolMessageTypeDataEnd \<noteq> protocolMessageTypeError" by (simp add: protocolMessageTypeDataEnd_def protocolMessageTypeError_def)
  show "consumes [PackU32Stored protocolMessageTypeDataEnd] rest ?m (Inr ())"
    by (intro consumesI) (rule yields_bind [OF yields_fields(8)], rule yields_bind [OF yields_noError [OF ne]], rule yields_bind [OF yields_lift], simp,
      rule yields_readEndAll)
  show "keeps onIo ?m" by (intro keeps_intros onIo_intros)
qed simp_all

section \<open>Errors\<close>

lemma errorTypeFromCode_code:
  assumes "e \<noteq> UndefinedBehavior" "e \<noteq> NoReturn"
  shows "errorTypeFromCode (of_nat (errorTypeCode e)) = e" "errorTypeCode e \<noteq> 0"
  using assms by (cases e; simp add: errorTypeFromCode_def errorTypeCode_def errorTypeList_def)+

lemma protocolServerError_run:
  "code \<noteq> 0 \<Longrightarrow> protocolServerError sz code message stack s = (Inr (), s\<lparr>endWrite := endWrite s @ packBytes (errorFields code message stack)\<rparr>)"
  unfolding protocolServerError_def
  by (simp add: run_simps) (rule putMessage_run, simp add: errorFields_def writePack_def fun_eq_iff run_simps split: prod.splits sum.splits)

lemma consumes_error:
  assumes "errorTypeFromCode (of_nat code) = e"
  shows "consumes (errorFields code message stack) rest (bindP (pckReadU32 0 0) (\<lambda>msgType. bindP (protocolClientError d msgType) (f msgType))) (Inl e)"
  unfolding consumes_def errorFields_def
proof (intro allI impI)
  fix s assume s: "following pckTypeMapObj 0 [PackU32 protocolMessageTypeError, PackI32 (of_nat code), strField (Some message), strField (Some stack)] rest [] s"
  obtain s1 where 1: "pckReadU32 0 0 s = (Inr protocolMessageTypeError, s1)"
    and s1: "following pckTypeMapObj 1 [PackI32 (of_nat code), strField (Some message), strField (Some stack)] rest [] s1"
    using yieldsD [OF yields_fields(6) s] by auto
  obtain s2 where 2: "pckReadI32 0 0 s1 = (Inr (of_nat code), s2)" and s2: "following pckTypeMapObj 2 [strField (Some message), strField (Some stack)] rest [] s2"
    using yieldsD [OF yields_fields(2) s1] by (auto simp: numeral_2_eq_2)
  obtain s3 where 3: "pckReadStr 0 None s2 = (Inr (Some message), s3)" and s3: "following pckTypeMapObj 3 [strField (Some stack)] rest [] s3"
    using yieldsD [OF yields_strField s2] by (auto simp: numeral_3_eq_3)
  obtain s4 where 4: "pckReadStr 0 None s3 = (Inr (Some stack), s4)" and s4: "following pckTypeMapObj 4 [] rest [] s4"
    using yieldsD [OF yields_strField s3] by auto
  obtain s5 where 5: "pckReadEnd s4 = (Inr (), s5)" "good s5" "unread s5 = rest"
    using yieldsD [OF yields_readEndAll s4] by auto
  have "bindP (pckReadU32 0 0) (\<lambda>msgType. bindP (protocolClientError d msgType) (f msgType)) s = (Inl e, s5)"
    using 1 2 3 4 5 assms by (simp add: run_simps protocolClientError_def)
  then show "\<exists>s'. bindP (pckReadU32 0 0) (\<lambda>msgType. bindP (protocolClientError d msgType) (f msgType)) s = (Inl e, s') \<and> good s' \<and> unread s' = rest"
    using 5 by blast
qed

text \<open>Either of the two functions that wait for an answer throws the error that was reported.\<close>

lemma clientError_run:
  assumes "0 < sz" "errorTypeFromCode (of_nat code) = e" "int (length message) \<le> STRING_SIZE_MAX" "int (length stack) \<le> STRING_SIZE_MAX"
    and "endRead s = packBytes (errorFields code message stack) @ rest"
  shows "protocolClientDataGet d sz s = (Inl e, s\<lparr>endRead := rest\<rparr>)" "protocolClientDataEndGet d sz s = (Inl e, s\<lparr>endRead := rest\<rparr>)"
proof -
  have ok: "\<forall>f \<in> set (errorFields code message stack). fieldOk f" "length (errorFields code message stack) < 2 ^ 32 - 2"
    using assms(3,4) by (auto simp: errorFields_def)
  show "protocolClientDataGet d sz s = (Inl e, s\<lparr>endRead := rest\<rparr>)"
    unfolding protocolClientDataGet_def
    by (rule getMessage_run [OF consumes_error [OF assms(2)] _ assms(1) ok assms(5)]) (intro keeps_intros onIo_intros)
  show "protocolClientDataEndGet d sz s = (Inl e, s\<lparr>endRead := rest\<rparr>)"
    unfolding protocolClientDataEndGet_def
    by (rule getMessage_run [OF consumes_error [OF assms(2)] _ assms(1) ok assms(5)]) (intro keeps_intros onIo_intros)
qed

section \<open>Commands and answers\<close>

text \<open>
  A client and a server that are connected: the client puts the command, the server takes its turn, and the client reads
  the answer, as protocolClientExecute and protocolServerProcess do.
\<close>

definition protocolExchange :: "('h ProtocolServer, unit) prog \<Rightarrow> (ErrorType \<Rightarrow> string) \<Rightarrow> (ErrorType \<Rightarrow> string) \<Rightarrow> nat \<Rightarrow> nat \<Rightarrow>
    (u64 \<times> 'h handler) list \<Rightarrow> bool \<Rightarrow> ProtocolCommand \<Rightarrow> bool \<Rightarrow> ProtocolEnd \<times> 'h ProtocolServer \<Rightarrow>
    PackRead option result \<times> ProtocolEnd \<times> 'h ProtocolServer" where
  "protocolExchange keepAlive message stack sz retries handlerList logDebug cmd resultRequired = (\<lambda>(client, server).
     case protocolClientCommandPut sz cmd client of
       (Inl e, client') \<Rightarrow> (Inl e, client', server)
     | (Inr _, client') \<Rightarrow>
         (case serverTurn keepAlive message stack sz retries handlerList (server\<lparr>endRead := endRead server @ endWrite client'\<rparr>) of
            (Inl e, server') \<Rightarrow> (Inl e, client'\<lparr>endWrite := []\<rparr>, server')
          | (Inr _, server') \<Rightarrow>
              (case clientResponse logDebug sz resultRequired (client'\<lparr>endRead := endRead client' @ endWrite server', endWrite := []\<rparr>) of
                 (r, client'') \<Rightarrow> (r, client'', server'\<lparr>endWrite := []\<rparr>))))"

abbreviation idle :: "'h \<Rightarrow> ProtocolEnd \<times> 'h ProtocolServer" where
  "idle d \<equiv> (\<lparr>endRead = [], endWrite = []\<rparr>, \<lparr>endRead = [], endWrite = [], serverExit = False, handlerData = d\<rparr>)"

lemma clientCommandPut_idle:
  "protocolClientCommandPut ioBufferSize \<lparr>command = cid, pack = Some (packOf params)\<rparr> \<lparr>endRead = [], endWrite = []\<rparr> =
     (Inr (), \<lparr>endRead = [], endWrite = packBytes (commandFields cid (Some (packBytes params)))\<rparr>)"
  using protocolCommandPut_run [of ioBufferSize cid "Some params" "\<lparr>endRead = [], endWrite = []\<rparr>"]
  by (simp add: protocolClientCommandPut_def)

lemma readPack_packBytes:
  assumes "\<forall>f \<in> set fs. fieldOk f" "length fs < 2 ^ 32 - 2"
  shows "fst (readPack fs (the (pckReadNewBuf (Some (packBytes fs))))) = Inr fs"
proof -
  have "rd (packBytes fs @ []) (0, pckTypeMapUnknown, 0, [containerTag pckTypeMapObj]) (the (pckReadNewBuf (Some (packBytes fs))))"
    by (simp add: rd_def good_def core_def unread_def pckReadNewBuf_def pckReadNewInternal_def)
  from yieldsD [OF yields_readWhole [OF assms] this] show ?thesis by auto
qed

text \<open>A handler that is known to answer in the state of the server.\<close>

lemma exchange_run:
  assumes "0 < ioBufferSize" "map_of handlers cid = Some h"
    and "h (pckReadNewBuf (Some (packBytes params))) (snd (idle d)) =
      bindP (modifyP (\<lambda>s. s\<lparr>handlerData := d'\<rparr>)) (\<lambda>_.
      bindP (protocolServerDataPut ioBufferSize (Some (packOf answer))) (\<lambda>_.
      protocolServerDataEndPut ioBufferSize)) (snd (idle d))"
    and "length (packBytes params) < 2 ^ 64" "length (packBytes answer) < 2 ^ 64"
  shows "protocolExchange (retP ()) message stack ioBufferSize retries handlers logDebug \<lparr>command = cid, pack = Some (packOf params)\<rparr> True (idle d) =
    (Inr (pckReadNewBuf (Some (packBytes answer))), idle d')"
proof -
  let ?server = "\<lparr>endRead = packBytes (commandFields cid (Some (packBytes params))), endWrite = [], serverExit = False, handlerData = d\<rparr>"
  let ?out = "packBytes (dataFields (Some (packBytes answer))) @ packBytes [PackU32Stored protocolMessageTypeDataEnd]"
  have get: "protocolServerCommandGet ioBufferSize ?server = (Inr (cid, Some (packBytes params)), ?server\<lparr>endRead := []\<rparr>)"
    by (rule protocolServerCommandGet_run) (use assms(1,4) in auto)
  have h: "h (pckReadNewBuf (Some (packBytes params))) (?server\<lparr>endRead := []\<rparr>) =
      (Inr (), \<lparr>endRead = [], endWrite = ?out, serverExit = False, handlerData = d'\<rparr>)"
    using assms(3) by (simp add: run_simps protocolServerDataPut_def dataPut_run dataEndPut_run dataFields_def)
  have loop: "handlerLoop (retP ()) n (h (pckReadNewBuf (Some (packBytes params)))) (?server\<lparr>endRead := []\<rparr>) =
      (Inr (), \<lparr>endRead = [], endWrite = ?out, serverExit = False, handlerData = d'\<rparr>)" for n
    using h by (cases n) (simp_all add: run_simps)
  have turn: "serverTurn (retP ()) message stack ioBufferSize retries handlers ?server =
      (Inr (), \<lparr>endRead = [], endWrite = ?out, serverExit = False, handlerData = d'\<rparr>)"
    using get loop [of retries] assms(2) by (simp add: serverTurn_def run_simps)
  have resp: "clientResponse logDebug ioBufferSize True \<lparr>endRead = ?out, endWrite = []\<rparr> =
      (Inr (pckReadNewBuf (Some (packBytes answer))), \<lparr>endRead = [], endWrite = []\<rparr>)"
    using protocolClientDataGet_run [of ioBufferSize "Some (packBytes answer)" "\<lparr>endRead = ?out, endWrite = []\<rparr>"
        "packBytes [PackU32Stored protocolMessageTypeDataEnd]" logDebug]
      protocolClientDataEndGet_run [of ioBufferSize "\<lparr>endRead = packBytes [PackU32Stored protocolMessageTypeDataEnd], endWrite = []\<rparr>" "[]" logDebug]
      assms(1,5) by (simp add: clientResponse_def run_simps)
  show ?thesis using clientCommandPut_idle turn resp by (simp add: protocolExchange_def)
qed

text \<open>
  C33. A command is executed: when the handler of the command answers with a pack of fields, the handler is called
  with a reader of the parameters of the command, the client returns a reader of exactly these fields,
  and both streams are empty again.
\<close>

theorem protocol_execute:
  assumes "0 < ioBufferSize" "map_of handlers cid = Some h"
    and "\<And>server. h (pckReadNewBuf (Some (packBytes params))) server =
      bindP (modifyP (\<lambda>s. s\<lparr>handlerData := d'\<rparr>)) (\<lambda>_.
      bindP (protocolServerDataPut ioBufferSize (Some (packOf answer))) (\<lambda>_.
      protocolServerDataEndPut ioBufferSize)) server"
    and "\<forall>f \<in> set params. fieldOk f" "length params < 2 ^ 32 - 2" "length (packBytes params) < 2 ^ 64"
    and "\<forall>f \<in> set answer. fieldOk f" "length answer < 2 ^ 32 - 2" "length (packBytes answer) < 2 ^ 64"
  shows "fst (readPack params (the (pckReadNewBuf (Some (packBytes params))))) = Inr params \<and>
    (\<exists>r. protocolExchange (retP ()) message stack ioBufferSize retries handlers logDebug \<lparr>command = cid, pack = Some (packOf params)\<rparr> True (idle d) =
        (Inr (Some r), idle d') \<and> fst (readPack answer r) = Inr answer)"
proof -
  have "protocolExchange (retP ()) message stack ioBufferSize retries handlers logDebug \<lparr>command = cid, pack = Some (packOf params)\<rparr> True (idle d) =
      (Inr (pckReadNewBuf (Some (packBytes answer))), idle d')"
    by (rule exchange_run [OF assms(1,2) _ assms(6,9)]) (rule assms(3))
  moreover have "pckReadNewBuf (Some (packBytes answer)) = Some (the (pckReadNewBuf (Some (packBytes answer))))"
    by (simp add: pckReadNewBuf_def)
  ultimately show ?thesis using readPack_packBytes [OF assms(4,5)] readPack_packBytes [OF assms(7,8)] by metis
qed

text \<open>
  A handler that answers the parameters 5 and ''ab'' with true.
\<close>

theorem protocol_execute_witness:
  "\<exists>r. protocolExchange (retP ()) (\<lambda>_. []) (\<lambda>_. []) 16 2
      [(0x36e720, \<lambda>_. bindP (modifyP (\<lambda>s. s\<lparr>handlerData := 7\<rparr>)) (\<lambda>_.
         bindP (protocolServerDataPut 16 (Some (packOf [PackBool True]))) (\<lambda>_. protocolServerDataEndPut 16)))]
      False \<lparr>command = 0x36e720, pack = Some (packOf [PackU64 5, PackStr ''ab''])\<rparr> True (idle (0 :: nat)) = (Inr (Some r), idle 7) \<and>
    fst (readPack [PackBool True] r) = Inr [PackBool True]"
proof -
  have l: "length (packBytes [PackU64 5, PackStr ''ab'']) = 7" "length (packBytes [PackBool True]) = 2" by code_simp+
  show ?thesis
    by (rule protocol_execute [where params = "[PackU64 5, PackStr ''ab'']" and answer = "[PackBool True]", THEN conjunct2])
      (simp_all add: l STRING_SIZE_MAX_def)
qed

text \<open>
  C34. An error of the handler reaches the client: when every call of the handler fails with the error without
  writing an answer, the handler is called once more than there are retries, the client throws the
  error whether it waits for data or only for the end of data, and both streams are empty again.
\<close>

theorem protocol_error:
  assumes "0 < ioBufferSize" "map_of handlers cid = Some h" "length (packBytes params) < 2 ^ 64"
    and "\<And>server. h (pckReadNewBuf (Some (packBytes params))) server = (Inl e, server\<lparr>handlerData := fail (handlerData server)\<rparr>)"
    and "e \<noteq> UndefinedBehavior" "e \<noteq> NoReturn"
    and "int (length (message e)) \<le> STRING_SIZE_MAX" "int (length (stack e)) \<le> STRING_SIZE_MAX"
  shows "protocolExchange (retP ()) message stack ioBufferSize retries handlers logDebug \<lparr>command = cid, pack = Some (packOf params)\<rparr> resultRequired (idle d) =
    (Inl e, idle ((fail ^^ Suc retries) d))"
proof -
  let ?server = "\<lparr>endRead = packBytes (commandFields cid (Some (packBytes params))), endWrite = [], serverExit = False, handlerData = d\<rparr>"
  let ?out = "packBytes (errorFields (errorTypeCode e) (message e) (stack e))"
  have get: "protocolServerCommandGet ioBufferSize ?server = (Inr (cid, Some (packBytes params)), ?server\<lparr>endRead := []\<rparr>)"
    by (rule protocolServerCommandGet_run) (use assms(1,3) in auto)
  have loop: "handlerLoop (retP ()) n (h (pckReadNewBuf (Some (packBytes params)))) server =
      (Inl e, server\<lparr>handlerData := (fail ^^ Suc n) (handlerData server)\<rparr>)" for n server
  proof (induction n arbitrary: server)
    case (Suc n)
    then show ?case using assms(5,6) by (simp add: run_simps assms(4) funpow_swap1)
  qed (simp add: assms(4))
  have turn: "serverTurn (retP ()) message stack ioBufferSize retries handlers ?server =
      (Inr (), \<lparr>endRead = [], endWrite = ?out, serverExit = False, handlerData = (fail ^^ Suc retries) d\<rparr>)"
    using get loop [of retries] assms(2,5,6) errorTypeFromCode_code(2) [OF assms(5,6)]
    by (simp add: serverTurn_def run_simps protocolServerError_run)
  note err = clientError_run [OF assms(1) errorTypeFromCode_code(1) [OF assms(5,6)] assms(7,8), of "\<lparr>endRead = ?out, endWrite = []\<rparr>" "[]" logDebug]
  have "clientResponse logDebug ioBufferSize resultRequired \<lparr>endRead = ?out, endWrite = []\<rparr> = (Inl e, \<lparr>endRead = [], endWrite = []\<rparr>)"
    using err by (simp add: clientResponse_def run_simps)
  then show ?thesis using clientCommandPut_idle turn by (simp add: protocolExchange_def)
qed

text \<open>
  A handler that counts its calls and never finds its file is called three times with two retries.
\<close>

theorem protocol_error_witness:
  "protocolExchange (retP ()) (\<lambda>_. ''missing'') (\<lambda>_. []) 16 2
     [(0x36e720, \<lambda>_ server. (Inl FileMissingError, server\<lparr>handlerData := Suc (handlerData server)\<rparr>))]
     True \<lparr>command = 0x36e720, pack = Some (packOf [PackU64 5])\<rparr> False (idle (0 :: nat)) =
   (Inl FileMissingError, idle ((Suc ^^ Suc 2) 0))"
proof -
  have l: "length (packBytes [PackU64 5]) = 3" by code_simp
  show ?thesis by (rule protocol_error) (simp_all add: l STRING_SIZE_MAX_def)
qed

end
