(* ===== verification/Parallel.thy ===== *)
theory Parallel
  imports Program
begin

text \<open>
  The parallel executor of src/protocol/parallel.c and its jobs (src/protocol/parallelJob.c). Commands that work
  on many files (backup, restore, verify) hand out jobs to local processes through it. The jobs are
  objects that the list of jobs and the list of the clients' jobs share, so they live in a store and the
  lists hold their addresses.
\<close>

section \<open>Jobs\<close>

datatype ProtocolParallelJobState = JobStatePending | JobStateRunning | JobStateDone

text \<open>The error code of a job is its error type, \<^term>\<open>None\<close> for code zero. The message is left out.\<close>

record ('k, 'p, 'r) ProtocolParallelJob =
  jobKey :: 'k
  jobCommand :: 'p
  processId :: nat
  jobState :: ProtocolParallelJobState
  jobCode :: "ErrorType option"
  jobResult :: "'r option"

definition protocolParallelJobNew :: "'k \<Rightarrow> 'p \<Rightarrow> ('k, 'p, 'r) ProtocolParallelJob" where
  "protocolParallelJobNew key command =
     \<lparr>jobKey = key, jobCommand = command, processId = 0, jobState = JobStatePending, jobCode = None, jobResult = None\<rparr>"

definition protocolParallelJobErrorSet :: "ErrorType \<Rightarrow> ('k, 'p, 'r) ProtocolParallelJob \<Rightarrow> ('k, 'p, 'r) ProtocolParallelJob result" where
  "protocolParallelJobErrorSet code this = Inr (this\<lparr>jobCode := Some code\<rparr>)"

definition protocolParallelJobProcessIdSet :: "nat \<Rightarrow> ('k, 'p, 'r) ProtocolParallelJob \<Rightarrow> ('k, 'p, 'r) ProtocolParallelJob result" where
  "protocolParallelJobProcessIdSet pid this = bindE (ASSERT (pid > 0)) (\<lambda>_. Inr (this\<lparr>processId := pid\<rparr>))"

definition protocolParallelJobResultSet :: "'r \<Rightarrow> ('k, 'p, 'r) ProtocolParallelJob \<Rightarrow> ('k, 'p, 'r) ProtocolParallelJob result" where
  "protocolParallelJobResultSet r this = bindE (ASSERT (jobCode this = None)) (\<lambda>_. Inr (this\<lparr>jobResult := Some r\<rparr>))"

definition protocolParallelJobStateSet :: "ProtocolParallelJobState \<Rightarrow> ('k, 'p, 'r) ProtocolParallelJob \<Rightarrow> ('k, 'p, 'r) ProtocolParallelJob result" where
  "protocolParallelJobStateSet st this =
     (if jobState this = JobStatePending \<and> st = JobStateRunning then Inr (this\<lparr>jobState := JobStateRunning\<rparr>)
      else if jobState this = JobStateRunning \<and> st = JobStateDone then Inr (this\<lparr>jobState := JobStateDone\<rparr>)
      else Inl AssertError)"

section \<open>The executor\<close>

text \<open>
  A client is known by the descriptor it is read from. The store holds the jobs that are not
  returned yet, and \<open>clientFreed\<close> the clients whose local process was freed.
\<close>

record ('k, 'p, 'r, 'd) ProtocolParallel =
  callbackData :: 'd
  clientList :: "int list"
  jobList :: "nat list"
  clientJobList :: "nat option list"
  state :: ProtocolParallelJobState
  jobStore :: "nat \<Rightarrow> ('k, 'p, 'r) ProtocolParallelJob option"
  jobNext :: nat
  clientFreed :: "nat list"

text \<open>
  What happens outside during a call: select() returns the number of descriptors with data and
  leaves them in the set, or fails; the answers of the clients are read; commands are sent.
\<close>

record 'r ProcessEnv =
  selectFd :: "int set \<Rightarrow> (nat \<times> int set) option"
  clientDataGet :: "nat \<Rightarrow> 'r result"
  clientDataEndGet :: "nat \<Rightarrow> unit result"
  clientCommandPut :: "nat \<Rightarrow> unit result"

type_synonym ('k, 'p, 'd) ParallelJobCallback = "'d \<Rightarrow> nat \<Rightarrow> (('k \<times> 'p) option \<times> 'd) result"

type_synonym ('k, 'p, 'r, 'd, 'a) parallelP = "(('k, 'p, 'r, 'd) ProtocolParallel, 'a) prog"

definition protocolParallelNew :: "'d \<Rightarrow> ('k, 'p, 'r, 'd) ProtocolParallel" where
  "protocolParallelNew data =
     \<lparr>callbackData = data, clientList = [], jobList = [], clientJobList = [], state = JobStatePending,
      jobStore = (\<lambda>_. None), jobNext = 0, clientFreed = []\<rparr>"

definition protocolParallelClientAdd :: "int \<Rightarrow> ('k, 'p, 'r, 'd, unit) parallelP" where
  "protocolParallelClientAdd client =
     bindP (getP state) (\<lambda>st.
     bindP (liftP (ASSERT (st = JobStatePending))) (\<lambda>_.
     if client = -1 then throwP AssertError
     else modifyP (\<lambda>this. this\<lparr>clientList := clientList this @ [client]\<rparr>)))"

text \<open>Access to the job of a client and to a job in the store.\<close>

definition clientJob :: "nat \<Rightarrow> ('k, 'p, 'r, 'd, nat option) parallelP" where
  "clientJob clientIdx = bindP (getP clientJobList) (\<lambda>jobs.
     liftP (if clientIdx < length jobs then Inr (jobs ! clientIdx) else Inl UndefinedBehavior))"

definition jobAt :: "nat \<Rightarrow> ('k, 'p, 'r, 'd, ('k, 'p, 'r) ProtocolParallelJob) parallelP" where
  "jobAt job = bindP (getP jobStore) (\<lambda>store. liftP (case store job of None \<Rightarrow> Inl UndefinedBehavior | Some j \<Rightarrow> Inr j))"

definition jobUpdate :: "nat \<Rightarrow> (('k, 'p, 'r) ProtocolParallelJob \<Rightarrow> ('k, 'p, 'r) ProtocolParallelJob result) \<Rightarrow> ('k, 'p, 'r, 'd, unit) parallelP" where
  "jobUpdate job f =
     bindP (jobAt job) (\<lambda>j.
     bindP (liftP (f j)) (\<lambda>j'.
     modifyP (\<lambda>this. this\<lparr>jobStore := (jobStore this)(job \<mapsto> j')\<rparr>)))"

definition FD_SETSIZE :: int where
  "FD_SETSIZE = 1024"

text \<open>The descriptors of the clients that run jobs. Setting one outside of the set writes beyond it.\<close>

fun runningFds :: "nat list \<Rightarrow> int set \<Rightarrow> ('k, 'p, 'r, 'd, int set) parallelP" where
  "runningFds [] selectSet = retP selectSet"
| "runningFds (clientIdx # idxs) selectSet =
     bindP (clientJob clientIdx) (\<lambda>job.
     if job \<noteq> None then
       bindP (getP (\<lambda>this. clientList this ! clientIdx)) (\<lambda>fd.
       if 0 \<le> fd \<and> fd < FD_SETSIZE then runningFds idxs (insert fd selectSet) else throwP UndefinedBehavior)
     else runningFds idxs selectSet)"

text \<open>The answer of a client, or the error that is read or thrown.\<close>

definition jobAnswer :: "'r ProcessEnv \<Rightarrow> nat \<Rightarrow> nat \<Rightarrow> ('k, 'p, 'r, 'd, unit) parallelP" where
  "jobAnswer env clientIdx job =
     tryP
       (bindP (liftP (clientDataGet env clientIdx)) (\<lambda>r.
        bindP (jobUpdate job (protocolParallelJobResultSet r)) (\<lambda>_.
        liftP (clientDataEndGet env clientIdx))))
       (\<lambda>e. jobUpdate job (protocolParallelJobErrorSet e))"

definition jobComplete :: "'r ProcessEnv \<Rightarrow> int set \<Rightarrow> nat \<Rightarrow> ('k, 'p, 'r, 'd, unit) parallelP" where
  "jobComplete env selectSet clientIdx =
     bindP (clientJob clientIdx) (\<lambda>job.
     case job of
       None \<Rightarrow> retP ()
     | Some a \<Rightarrow>
         bindP (getP (\<lambda>this. clientList this ! clientIdx)) (\<lambda>fd.
         whenP (fd \<in> selectSet)
           (bindP (jobAnswer env clientIdx a) (\<lambda>_.
            bindP (jobUpdate a (protocolParallelJobStateSet JobStateDone)) (\<lambda>_.
            modifyP (\<lambda>this. this\<lparr>clientJobList := (clientJobList this)[clientIdx := None]\<rparr>))))))"

text \<open>A new job for a client that runs none, or its process is freed. A freed process can not be used.\<close>

definition jobStart :: "('k, 'p, 'd) ParallelJobCallback \<Rightarrow> 'r ProcessEnv \<Rightarrow> nat \<Rightarrow> ('k, 'p, 'r, 'd, unit) parallelP" where
  "jobStart callbackFunction env clientIdx =
     bindP (clientJob clientIdx) (\<lambda>job.
     whenP (job = None)
       (bindP (getP callbackData) (\<lambda>data.
        bindP (liftP (callbackFunction data clientIdx)) (\<lambda>(new, data').
        bindP (modifyP (\<lambda>this. this\<lparr>callbackData := data'\<rparr>)) (\<lambda>_.
        case new of
          Some (key, command) \<Rightarrow>
            bindP (getP jobNext) (\<lambda>a.
            bindP (modifyP (\<lambda>this. this\<lparr>jobNext := Suc a, jobStore := (jobStore this)(a \<mapsto> protocolParallelJobNew key command),
              jobList := jobList this @ [a]\<rparr>)) (\<lambda>_.
            bindP (getP clientFreed) (\<lambda>freed.
            bindP (liftP (if clientIdx \<in> set freed then Inl UndefinedBehavior else clientCommandPut env clientIdx)) (\<lambda>_.
            bindP (jobUpdate a (protocolParallelJobProcessIdSet (clientIdx + 1))) (\<lambda>_.
            bindP (jobUpdate a (protocolParallelJobStateSet JobStateRunning)) (\<lambda>_.
            modifyP (\<lambda>this. this\<lparr>clientJobList := (clientJobList this)[clientIdx := Some a]\<rparr>)))))))
        | None \<Rightarrow> modifyP (\<lambda>this. this\<lparr>clientFreed := clientIdx # clientFreed this\<rparr>))))))"

definition protocolParallelProcess :: "('k, 'p, 'd) ParallelJobCallback \<Rightarrow> 'r ProcessEnv \<Rightarrow> ('k, 'p, 'r, 'd, nat) parallelP" where
  "protocolParallelProcess callbackFunction env =
     bindP (getP state) (\<lambda>st.
     bindP (liftP (ASSERT (st \<noteq> JobStateDone))) (\<lambda>_.
     bindP (whenP (st = JobStatePending)
       (modifyP (\<lambda>this. this\<lparr>clientJobList := replicate (length (clientList this)) None, state := JobStateRunning\<rparr>))) (\<lambda>_.
     bindP (getP (\<lambda>this. [0..<length (clientList this)])) (\<lambda>clients.
     bindP (runningFds clients {}) (\<lambda>selectSet.
     bindP (if selectSet = {} then retP 0
            else
              (case selectFd env selectSet of
                 None \<Rightarrow> throwP AssertError
               | Some (completed, ready) \<Rightarrow>
                   bindP (whenP (completed > 0) (forP clients (jobComplete env ready))) (\<lambda>_. retP completed))) (\<lambda>completed.
     bindP (forP clients (jobStart callbackFunction env)) (\<lambda>_.
     retP completed)))))))"

text \<open>The first job in the list that is done is moved to the caller.\<close>

fun resultScan :: "nat list \<Rightarrow> ('k, 'p, 'r, 'd, ('k, 'p, 'r) ProtocolParallelJob option) parallelP" where
  "resultScan [] = retP None"
| "resultScan (a # as) =
     bindP (jobAt a) (\<lambda>job.
     if jobState job = JobStateDone then
       bindP (modifyP (\<lambda>this. this\<lparr>jobList := remove1 a (jobList this), jobStore := (jobStore this)(a := None)\<rparr>)) (\<lambda>_.
       retP (Some job))
     else resultScan as)"

definition protocolParallelResult :: "('k, 'p, 'r, 'd, ('k, 'p, 'r) ProtocolParallelJob option) parallelP" where
  "protocolParallelResult =
     bindP (getP state) (\<lambda>st.
     bindP (liftP (ASSERT (st = JobStateRunning))) (\<lambda>_.
     bindP (getP jobList) resultScan))"

definition protocolParallelDone :: "('k, 'p, 'r, 'd, bool) parallelP" where
  "protocolParallelDone =
     bindP (getP state) (\<lambda>st.
     bindP (liftP (ASSERT (st \<noteq> JobStatePending))) (\<lambda>_.
     bindP (getP jobList) (\<lambda>jobs.
     bindP (whenP (st \<noteq> JobStateDone \<and> jobs = []) (modifyP (\<lambda>this. this\<lparr>state := JobStateDone\<rparr>))) (\<lambda>_.
     getP (\<lambda>this. state this = JobStateDone)))))"

section \<open>The loop of the callers\<close>

text \<open>
  The results of the jobs that were completed, each of which is handled. A caller reads the job it gets
  without looking whether there is one.
\<close>

fun jobResults :: "(('k, 'p, 'r) ProtocolParallelJob \<Rightarrow> 'acc \<Rightarrow> 'acc result) \<Rightarrow> nat \<Rightarrow> 'acc \<Rightarrow> ('k, 'p, 'r, 'd, 'acc) parallelP" where
  "jobResults handle 0 acc = retP acc"
| "jobResults handle (Suc completed) acc =
     bindP protocolParallelResult (\<lambda>job.
     case job of
       None \<Rightarrow> throwP UndefinedBehavior
     | Some j \<Rightarrow> bindP (liftP (handle j acc)) (jobResults handle completed))"

text \<open>The loop until the executor is done, with what happens outside in each turn; the fuel bounds the turns.\<close>

fun jobLoop :: "('k, 'p, 'd) ParallelJobCallback \<Rightarrow> (('k, 'p, 'r) ProtocolParallelJob \<Rightarrow> 'acc \<Rightarrow> 'acc result) \<Rightarrow> nat \<Rightarrow>
    (nat \<Rightarrow> 'r ProcessEnv) \<Rightarrow> 'acc \<Rightarrow> ('k, 'p, 'r, 'd, 'acc) parallelP" where
  "jobLoop callbackFunction handle 0 envs acc = throwP NoReturn"
| "jobLoop callbackFunction handle (Suc fuel) envs acc =
     bindP (protocolParallelProcess callbackFunction (envs 0)) (\<lambda>completed.
     bindP (jobResults handle completed acc) (\<lambda>acc'.
     bindP protocolParallelDone (\<lambda>done.
     if done then retP acc' else jobLoop callbackFunction handle fuel (\<lambda>i. envs (Suc i)) acc')))"

end
