(* ===== verification/ParallelJobs.thy ===== *)
theory ParallelJobs
  imports Parallel
begin

text \<open>
  The correctness of the parallel executor, for any source of jobs that keeps the laws of the locale
  \<open>job_source\<close>: no job is lost or handed out twice, a caller always finds as many results as it was told,
  no freed process is used, and when the clients keep answering the loop of the caller ends
  with all jobs done.
\<close>

section \<open>The shared jobs\<close>

text \<open>
  Every job in the store is listed once, and it is either done or the job of the client whose process
  id it carries.
\<close>

definition jobsOk :: "('k, 'p, 'r, 'd) ProtocolParallel \<Rightarrow> bool" where
  "jobsOk s \<longleftrightarrow>
     state s = JobStateRunning \<and> length (clientJobList s) = length (clientList s) \<and>
     distinct (jobList s) \<and> set (jobList s) = dom (jobStore s) \<and> (\<forall>a \<in> dom (jobStore s). a < jobNext s) \<and>
     (\<forall>i a. i < length (clientJobList s) \<longrightarrow> clientJobList s ! i = Some a \<longrightarrow>
        (\<exists>j. jobStore s a = Some j \<and> jobState j = JobStateRunning \<and> processId j = Suc i \<and> jobCode j = None)) \<and>
     (\<forall>a j. jobStore s a = Some j \<longrightarrow> jobState j = JobStateDone \<or>
        jobState j = JobStateRunning \<and>
        (\<exists>i < length (clientJobList s). processId j = Suc i \<and> clientJobList s ! i = Some a))"

definition jobDone :: "('k, 'p, 'r, 'd) ProtocolParallel \<Rightarrow> nat \<Rightarrow> bool" where
  "jobDone s a \<longleftrightarrow> (\<exists>j. jobStore s a = Some j \<and> jobState j = JobStateDone)"

definition busy :: "('k, 'p, 'r, 'd) ProtocolParallel \<Rightarrow> nat set" where
  "busy s = {i. i < length (clientJobList s) \<and> clientJobList s ! i \<noteq> None}"

definition jobKeys :: "('k, 'p, 'r, 'd) ProtocolParallel \<Rightarrow> 'k multiset" where
  "jobKeys s = image_mset (\<lambda>a. jobKey (the (jobStore s a))) (mset (jobList s))"

lemma jobsOk_busy:
  assumes "jobsOk s" "i < length (clientList s)" "clientJobList s ! i = Some a"
  obtains j where "jobStore s a = Some j" "jobState j = JobStateRunning" "processId j = Suc i" "jobCode j = None"
    "i < length (clientJobList s)"
  using assms unfolding jobsOk_def by metis

lemma jobsOk_basic:
  assumes "jobsOk s"
  shows "state s = JobStateRunning" "length (clientJobList s) = length (clientList s)" "distinct (jobList s)"
    "set (jobList s) = dom (jobStore s)"
  using assms unfolding jobsOk_def by blast+

lemma jobsOk_client:
  "jobsOk s \<Longrightarrow> i < length (clientJobList s) \<Longrightarrow> clientJobList s ! i = Some a \<Longrightarrow>
     \<exists>j. jobStore s a = Some j \<and> jobState j = JobStateRunning \<and> processId j = Suc i \<and> jobCode j = None"
  unfolding jobsOk_def by blast

lemma jobsOk_stored:
  "jobsOk s \<Longrightarrow> jobStore s a = Some j \<Longrightarrow> jobState j = JobStateDone \<or> jobState j = JobStateRunning \<and>
     (\<exists>i < length (clientJobList s). processId j = Suc i \<and> clientJobList s ! i = Some a)"
  unfolding jobsOk_def by blast

lemma done_listed: "jobsOk s \<Longrightarrow> {a \<in> set (jobList s). jobDone s a} = {a. jobDone s a}"
  using jobsOk_basic(4) [of s] by (auto simp: jobDone_def)

text \<open>The jobs that are not done are in bijection with the busy clients.\<close>

lemma card_jobs:
  assumes "jobsOk s"
  shows "card {a \<in> set (jobList s). jobDone s a} + card (busy s) = length (jobList s)"
proof -
  let ?run = "{a \<in> set (jobList s). \<not> jobDone s a}"
  have "bij_betw (\<lambda>i. the (clientJobList s ! i)) (busy s) ?run"
  proof (rule bij_betw_imageI)
    show "inj_on (\<lambda>i. the (clientJobList s ! i)) (busy s)"
      unfolding inj_on_def busy_def using jobsOk_client [OF assms] by (auto, metis Suc_inject option.inject)
    show "(\<lambda>i. the (clientJobList s ! i)) ` busy s = ?run"
    proof (intro equalityI subsetI)
      fix a assume "a \<in> (\<lambda>i. the (clientJobList s ! i)) ` busy s"
      then obtain i where "i < length (clientJobList s)" "clientJobList s ! i = Some a" by (auto simp: busy_def)
      then show "a \<in> ?run" using assms by (fastforce simp: jobsOk_def jobDone_def)
    next
      fix a assume "a \<in> ?run"
      then obtain j where j: "jobStore s a = Some j" "jobState j \<noteq> JobStateDone" using assms by (auto simp: jobsOk_def jobDone_def)
      then obtain i where "i < length (clientJobList s)" "clientJobList s ! i = Some a" using assms unfolding jobsOk_def by metis
      then show "a \<in> (\<lambda>i. the (clientJobList s ! i)) ` busy s" by (force simp: busy_def)
    qed
  qed
  then have "card (busy s) = card ?run" by (rule bij_betw_same_card)
  moreover have "{a \<in> set (jobList s). jobDone s a} \<union> ?run = set (jobList s)" by auto
  then have "card {a \<in> set (jobList s). jobDone s a} + card ?run = card (set (jobList s))"
    by (subst card_Un_disjoint [symmetric]) auto
  moreover have "distinct (jobList s)" using assms by (simp add: jobsOk_def)
  then have "card (set (jobList s)) = length (jobList s)" by (rule distinct_card)
  ultimately show ?thesis by simp
qed

section \<open>Reading the answers\<close>

definition answered :: "'r ProcessEnv \<Rightarrow> nat \<Rightarrow> ('k, 'p, 'r) ProtocolParallelJob \<Rightarrow> ('k, 'p, 'r) ProtocolParallelJob" where
  "answered env i j = (case clientDataGet env i of
     Inl e \<Rightarrow> j\<lparr>jobCode := Some e\<rparr>
   | Inr r \<Rightarrow> (case clientDataEndGet env i of Inl e \<Rightarrow> j\<lparr>jobResult := Some r, jobCode := Some e\<rparr> | Inr _ \<Rightarrow> j\<lparr>jobResult := Some r\<rparr>))"

text \<open>Answers are read or fail with an error that can be caught.\<close>

definition caught :: "'a result \<Rightarrow> bool" where
  "caught r \<longleftrightarrow> r \<noteq> Inl UndefinedBehavior \<and> r \<noteq> Inl NoReturn"

lemma answered_fields [simp]:
  "jobKey (answered env i j) = jobKey j" "jobState (answered env i j) = jobState j" "processId (answered env i j) = processId j"
  by (auto simp: answered_def split: sum.splits)

lemma jobAnswer_run:
  assumes "jobStore s a = Some j" "jobCode j = None" "caught (clientDataGet env i)" "caught (clientDataEndGet env i)"
  shows "jobAnswer env i a s = (Inr (), s\<lparr>jobStore := (jobStore s)(a \<mapsto> answered env i j)\<rparr>)"
  using assms
  by (auto simp: jobAnswer_def run_simps jobUpdate_def jobAt_def answered_def caught_def
      protocolParallelJobResultSet_def protocolParallelJobErrorSet_def split: sum.splits)

lemma jobComplete_run:
  assumes "jobsOk s" "i < length (clientList s)" "caught (clientDataGet env i)" "caught (clientDataEndGet env i)"
  shows "jobComplete env ready i s = (Inr (),
    case clientJobList s ! i of
      None \<Rightarrow> s
    | Some a \<Rightarrow> if clientList s ! i \<in> ready
        then s\<lparr>jobStore := (jobStore s)(a \<mapsto> (answered env i (the (jobStore s a)))\<lparr>jobState := JobStateDone\<rparr>),
               clientJobList := (clientJobList s)[i := None]\<rparr>
        else s)"
proof (cases "clientJobList s ! i")
  case None
  then show ?thesis using assms by (simp add: jobComplete_def clientJob_def run_simps jobsOk_def)
next
  case (Some a)
  obtain j where j: "jobStore s a = Some j" "jobState j = JobStateRunning" "processId j = Suc i" "jobCode j = None" "i < length (clientJobList s)"
    using jobsOk_busy [OF assms(1,2) Some] .
  show ?thesis
    using Some j jobAnswer_run [OF j(1,4) assms(3,4)]
    by (simp add: jobComplete_def clientJob_def run_simps jobUpdate_def jobAt_def protocolParallelJobStateSet_def)
qed

lemma jobsOk_complete:
  assumes "jobsOk s" "i < length (clientList s)" "clientJobList s ! i = Some a" "jobStore s a = Some j" "jobState j' = JobStateDone"
  shows "jobsOk (s\<lparr>jobStore := (jobStore s)(a \<mapsto> j'), clientJobList := (clientJobList s)[i := None]\<rparr>)" (is "jobsOk ?s")
proof -
  have len: "i < length (clientJobList s)" "length (clientJobList s) = length (clientList s)"
    using assms(1,2) by (simp_all add: jobsOk_def)
  have ids: "k = i" if "k < length (clientJobList s)" "clientJobList s ! k = Some a" for k
    using jobsOk_client [OF assms(1) that] jobsOk_client [OF assms(1) len(1) assms(3)] by auto
  have "\<exists>m. jobStore ?s b = Some m \<and> jobState m = JobStateRunning \<and> processId m = Suc k \<and> jobCode m = None"
    if k: "k < length (clientJobList ?s)" "clientJobList ?s ! k = Some b" for k b
  proof -
    have "k \<noteq> i" "clientJobList s ! k = Some b" using k len by (auto simp: nth_list_update split: if_splits)
    then show ?thesis using jobsOk_client [OF assms(1), of k b] ids [of k] k by auto
  qed
  moreover have "jobState m = JobStateDone \<or> jobState m = JobStateRunning \<and>
      (\<exists>k < length (clientJobList ?s). processId m = Suc k \<and> clientJobList ?s ! k = Some b)"
    if m: "jobStore ?s b = Some m" for b m
  proof (cases "b = a")
    case False
    then have "jobStore s b = Some m" using m by simp
    from jobsOk_stored [OF assms(1) this] show ?thesis
      using False assms(3) len(1) by (fastforce simp: nth_list_update)
  qed (use m assms(5) in simp)
  moreover have "set (jobList ?s) = dom (jobStore ?s)" "\<forall>b \<in> dom (jobStore ?s). b < jobNext ?s"
    using assms(1,4) by (auto simp: jobsOk_def)
  moreover have "state ?s = JobStateRunning" "length (clientJobList ?s) = length (clientList ?s)" "distinct (jobList ?s)"
    using assms(1) by (simp_all add: jobsOk_def)
  ultimately show ?thesis unfolding jobsOk_def by blast
qed

text \<open>
  The whole loop over the clients: the store keeps the keys, jobs that were done stay as they are, the
  clients with a descriptor in the set become idle, and what is done afterwards was answered or done before.
\<close>

definition completing :: "'r ProcessEnv \<Rightarrow> int set \<Rightarrow> ('k, 'p, 'r, 'd) ProtocolParallel \<Rightarrow> nat \<Rightarrow> ('k, 'p, 'r, 'd) ProtocolParallel \<Rightarrow> bool" where
  "completing env ready s0 i s \<longleftrightarrow>
     jobsOk s \<and> jobList s = jobList s0 \<and> clientList s = clientList s0 \<and> callbackData s = callbackData s0 \<and>
     clientFreed s = clientFreed s0 \<and>
     (\<forall>a. map_option jobKey (jobStore s a) = map_option jobKey (jobStore s0 a)) \<and>
     (\<forall>c < length (clientList s0). clientJobList s ! c =
        (if c < i \<and> clientList s0 ! c \<in> ready then None else clientJobList s0 ! c)) \<and>
     (\<forall>a j. jobStore s a = Some j \<longrightarrow> jobState j = JobStateDone \<longrightarrow>
        jobStore s0 a = Some j \<or> (\<exists>c j0. j = (answered env c j0)\<lparr>jobState := JobStateDone\<rparr> \<and> jobCode j0 = None))"

lemma yields_jobComplete:
  assumes "i < length (clientList s0)" "caught (clientDataGet env i)" "caught (clientDataEndGet env i)"
  shows "yields (completing env ready s0 i) (jobComplete env ready i) () (completing env ready s0 (Suc i))"
proof (rule yieldsI)
  fix s assume s: "completing env ready s0 i s"
  then have ok: "jobsOk s" "i < length (clientList s)" using assms by (auto simp: completing_def)
  note run = jobComplete_run [OF ok assms(2,3), of ready]
  have ci: "clientJobList s ! i = clientJobList s0 ! i" using s assms(1) by (simp add: completing_def)
  show "\<exists>s'. jobComplete env ready i s = (Inr (), s') \<and> completing env ready s0 (Suc i) s'"
  proof (cases "clientJobList s ! i \<noteq> None \<and> clientList s ! i \<in> ready")
    case True
    then obtain a where a: "clientJobList s ! i = Some a" by auto
    obtain j where j: "jobStore s a = Some j" "jobCode j = None" "i < length (clientJobList s)" using jobsOk_busy [OF ok a] .
    have "jobsOk (s\<lparr>jobStore := (jobStore s)(a \<mapsto> (answered env i j)\<lparr>jobState := JobStateDone\<rparr>), clientJobList := (clientJobList s)[i := None]\<rparr>)"
      by (rule jobsOk_complete [OF ok a j(1)]) simp
    moreover have "length (clientJobList s) = length (clientList s0)" using s by (simp add: completing_def jobsOk_def)
    moreover have "map_option jobKey (jobStore s0 a) = Some (jobKey j)"
      using s j(1) unfolding completing_def by (metis option.map(2))
    ultimately show ?thesis
      using True a j s assms(1) unfolding run by (auto simp: completing_def nth_list_update less_Suc_eq split: if_splits)
  next
    case False
    then show ?thesis using s ci unfolding run by (auto simp: completing_def less_Suc_eq split: option.splits)
  qed
qed

lemma yields_jobsComplete:
  assumes "\<And>i. caught (clientDataGet env i)" "\<And>i. caught (clientDataEndGet env i)" "jobsOk s"
  shows "\<exists>s'. forP [0..<length (clientList s)] (jobComplete env ready) s = (Inr (), s') \<and> completing env ready s (length (clientList s)) s'"
proof -
  have "yields (completing env ready s 0) (forP [0..<length (clientList s)] (jobComplete env ready)) () (completing env ready s (length (clientList s)))"
    by (rule yields_for_upt) (auto intro: yields_jobComplete assms)
  moreover have "completing env ready s 0 s" using assms(3) by (simp add: completing_def)
  ultimately show ?thesis by (rule yieldsD)
qed

lemma completing_keys:
  assumes "completing env ready s0 i s" "jobsOk s0"
  shows "jobKeys s = jobKeys s0"
proof -
  have "jobKey (the (jobStore s a)) = jobKey (the (jobStore s0 a))" if a: "a \<in># mset (jobList s0)" for a
  proof -
    obtain j where j: "jobStore s0 a = Some j" using a jobsOk_basic(4) [OF assms(2)] by auto
    then have "map_option jobKey (jobStore s a) = Some (jobKey j)" using assms(1) unfolding completing_def by (metis option.map(2))
    then show ?thesis using j by auto
  qed
  moreover have "jobList s = jobList s0" using assms(1) by (simp add: completing_def)
  ultimately show ?thesis unfolding jobKeys_def by (auto intro: image_mset_cong)
qed

section \<open>Waiting for clients\<close>

definition busyFds :: "('k, 'p, 'r, 'd) ProtocolParallel \<Rightarrow> int set" where
  "busyFds s = (\<lambda>i. clientList s ! i) ` busy s"

lemma runningFds_run:
  assumes "length (clientJobList s) = length (clientList s)" "\<forall>fd \<in> set (clientList s). 0 \<le> fd \<and> fd < FD_SETSIZE"
  shows "\<forall>i \<in> set idxs. i < length (clientList s) \<Longrightarrow>
    runningFds idxs S s = (Inr (S \<union> (\<lambda>i. clientList s ! i) ` {i \<in> set idxs. clientJobList s ! i \<noteq> None}), s)"
proof (induction idxs arbitrary: S)
  case (Cons i idxs)
  then have "clientList s ! i \<in> set (clientList s)" "i < length (clientJobList s)" using assms(1) by auto
  moreover have "{k \<in> set (i # idxs). clientJobList s ! k \<noteq> None} =
      (if clientJobList s ! i \<noteq> None then insert i else id) {k \<in> set idxs. clientJobList s ! k \<noteq> None}" by auto
  ultimately show ?case using Cons assms(2) by (auto simp: clientJob_def run_simps)
qed (simp add: run_simps)

lemma runningFds_busy:
  assumes "jobsOk s" "\<forall>fd \<in> set (clientList s). 0 \<le> fd \<and> fd < FD_SETSIZE"
  shows "runningFds [0..<length (clientList s)] {} s = (Inr (busyFds s), s)"
proof -
  have l: "length (clientJobList s) = length (clientList s)" using assms(1) by (simp add: jobsOk_def)
  then have "busyFds s = {} \<union> (\<lambda>i. clientList s ! i) ` {i \<in> set [0..<length (clientList s)]. clientJobList s ! i \<noteq> None}"
    by (simp add: busyFds_def busy_def)
  then show ?thesis using runningFds_run [OF l assms(2), of "[0..<length (clientList s)]" "{}"] by simp
qed

text \<open>select() reports how many of the descriptors it was asked for have data, and which.\<close>

definition selects :: "'r ProcessEnv \<Rightarrow> bool" where
  "selects env \<longleftrightarrow> (\<forall>S. S \<noteq> {} \<longrightarrow> (\<exists>R. R \<subseteq> S \<and> selectFd env S = Some (card R, R)))"

text \<open>As many jobs are done as select() reported.\<close>

lemma completing_done:
  assumes "completing env R s (length (clientList s)) s'" "jobsOk s" "distinct (clientList s)" "R \<subseteq> busyFds s"
    and "{a \<in> set (jobList s). jobDone s a} = {}"
  shows "card {a \<in> set (jobList s'). jobDone s' a} = card R"
proof -
  let ?hit = "{i \<in> busy s. clientList s ! i \<in> R}"
  have l: "length (clientJobList s) = length (clientList s)" "length (clientJobList s') = length (clientList s)"
    using assms(1,2) by (simp_all add: jobsOk_def completing_def)
  have "busy s' = busy s - ?hit" using assms(1) l by (auto simp: busy_def completing_def split: if_splits)
  moreover have fin: "finite (busy s)" by (simp add: busy_def)
  ultimately have "card (busy s') = card (busy s) - card ?hit" "card ?hit \<le> card (busy s)"
    by (auto simp: card_Diff_subset intro: card_mono)
  moreover have "bij_betw (\<lambda>i. clientList s ! i) ?hit R"
    unfolding bij_betw_def inj_on_def using assms(3,4) l
    by (auto simp: busy_def busyFds_def nth_eq_iff_index_eq)
  then have "card ?hit = card R" by (rule bij_betw_same_card)
  moreover have "card (busy s) = length (jobList s)" using card_jobs [OF assms(2)] by (simp only: assms(5)) simp
  moreover have "card {a \<in> set (jobList s'). jobDone s' a} + card (busy s') = length (jobList s)"
    using card_jobs [of s'] assms(1) by (simp add: completing_def)
  ultimately show ?thesis by linarith
qed

section \<open>Taking results\<close>

definition takeJob :: "nat \<Rightarrow> ('k, 'p, 'r, 'd) ProtocolParallel \<Rightarrow> ('k, 'p, 'r, 'd) ProtocolParallel" where
  "takeJob a s = s\<lparr>jobList := remove1 a (jobList s), jobStore := (jobStore s)(a := None)\<rparr>"

lemma takeJob_fields [simp]:
  "jobList (takeJob a s) = remove1 a (jobList s)" "jobStore (takeJob a s) = (jobStore s)(a := None)"
  "clientList (takeJob a s) = clientList s" "clientJobList (takeJob a s) = clientJobList s" "state (takeJob a s) = state s"
  "callbackData (takeJob a s) = callbackData s" "clientFreed (takeJob a s) = clientFreed s" "jobNext (takeJob a s) = jobNext s"
  by (simp_all add: takeJob_def)

lemma jobsOk_result:
  assumes "jobsOk s" "jobDone s a"
  shows "jobsOk (takeJob a s)" (is "jobsOk ?s")
proof -
  have "clientJobList s ! i \<noteq> Some a" if "i < length (clientJobList s)" for i
    using jobsOk_client [OF assms(1) that, of a] assms(2) by (auto simp: jobDone_def)
  then have "\<exists>j. jobStore ?s b = Some j \<and> jobState j = JobStateRunning \<and> processId j = Suc i \<and> jobCode j = None"
    if "i < length (clientJobList ?s)" "clientJobList ?s ! i = Some b" for i b
    using jobsOk_client [OF assms(1), of i b] that by auto
  moreover have "jobState j = JobStateDone \<or> jobState j = JobStateRunning \<and>
      (\<exists>i < length (clientJobList ?s). processId j = Suc i \<and> clientJobList ?s ! i = Some b)"
    if "jobStore ?s b = Some j" for b j
    using jobsOk_stored [OF assms(1), of b j] that by (simp split: if_splits)
  moreover have "set (jobList ?s) = dom (jobStore ?s)" "\<forall>b \<in> dom (jobStore ?s). b < jobNext ?s"
    "state ?s = JobStateRunning" "length (clientJobList ?s) = length (clientList ?s)" "distinct (jobList ?s)"
    using assms(1) by (auto simp: jobsOk_def)
  ultimately show ?thesis unfolding jobsOk_def by blast
qed

lemma resultScan_run:
  assumes "set as \<subseteq> dom (jobStore s)" "a \<in> set as" "jobDone s a"
  shows "\<exists>b j. b \<in> set as \<and> jobStore s b = Some j \<and> jobState j = JobStateDone \<and>
    resultScan as s = (Inr (Some j), takeJob b s)"
  using assms
proof (induction as)
  case (Cons c as)
  then obtain j where j: "jobStore s c = Some j" by auto
  show ?case
  proof (cases "jobState j = JobStateDone")
    case True
    then have "resultScan (c # as) s = (Inr (Some j), takeJob c s)"
      using j by (simp add: jobAt_def run_simps takeJob_def)
    with True j show ?thesis by (intro exI [of _ c] exI [of _ j] conjI) simp_all
  next
    case False
    then have "a \<in> set as" "set as \<subseteq> dom (jobStore s)" using Cons.prems j by (auto simp: jobDone_def)
    from Cons.IH [OF this(2,1) Cons.prems(3)] show ?thesis using j False
      by (elim exE conjE) (intro exI conjI, auto simp: jobAt_def run_simps)
  qed
qed simp

text \<open>Handling jobs one after the other.\<close>

fun handleAll :: "(('k, 'p, 'r) ProtocolParallelJob \<Rightarrow> 'acc \<Rightarrow> 'acc result) \<Rightarrow> ('k, 'p, 'r) ProtocolParallelJob list \<Rightarrow> 'acc \<Rightarrow> 'acc result" where
  "handleAll handle [] acc = Inr acc"
| "handleAll handle (j # js) acc = bindE (handle j acc) (handleAll handle js)"

lemma handleAll_append: "handleAll handle (js @ js') acc = bindE (handleAll handle js acc) (handleAll handle js')"
  by (induction js arbitrary: acc) (simp_all add: bindE_def split: sum.splits)

text \<open>Nothing but done jobs is taken.\<close>

definition taken :: "('k, 'p, 'r, 'd) ProtocolParallel \<Rightarrow> ('k, 'p, 'r) ProtocolParallelJob list \<Rightarrow> ('k, 'p, 'r, 'd) ProtocolParallel \<Rightarrow> bool" where
  "taken s js s' \<longleftrightarrow> jobsOk s' \<and> clientList s' = clientList s \<and> clientJobList s' = clientJobList s \<and>
     callbackData s' = callbackData s \<and> clientFreed s' = clientFreed s \<and>
     jobKeys s = mset (map jobKey js) + jobKeys s' \<and> length (jobList s) = length js + length (jobList s') \<and>
     (\<forall>j \<in> set js. \<exists>a. jobStore s a = Some j \<and> jobState j = JobStateDone) \<and>
     (\<forall>a j. jobStore s' a = Some j \<longrightarrow> jobStore s a = Some j)"

lemma protocolParallelResult_taken:
  assumes "jobsOk s" "card {a \<in> set (jobList s). jobDone s a} = Suc c"
  obtains j s' where "protocolParallelResult s = (Inr (Some j), s')" "taken s [j] s'" "card {a \<in> set (jobList s'). jobDone s' a} = c"
proof -
  let ?done = "{a \<in> set (jobList s). jobDone s a}"
  obtain a where a: "a \<in> set (jobList s)" "jobDone s a" using assms(2) by (metis (mono_tags, lifting) card.empty empty_Collect_eq nat.distinct(1))
  have sub: "set (jobList s) \<subseteq> dom (jobStore s)" "distinct (jobList s)" "state s = JobStateRunning" using assms(1) by (auto simp: jobsOk_def)
  obtain b j where b: "b \<in> set (jobList s)" "jobStore s b = Some j" "jobState j = JobStateDone"
    and run: "resultScan (jobList s) s = (Inr (Some j), takeJob b s)"
    using resultScan_run [OF sub(1) a] by blast
  let ?s = "takeJob b s"
  have d: "jobDone s b" using b by (auto simp: jobDone_def)
  have "{a \<in> set (jobList ?s). jobDone ?s a} = ?done - {b}" using sub(2) by (auto simp: jobDone_def)
  then have c: "card {a \<in> set (jobList ?s). jobDone ?s a} = c" using assms(2) b(1) d by simp
  have rest: "jobKeys ?s = image_mset (\<lambda>a. jobKey (the (jobStore s a))) (mset (remove1 b (jobList s)))"
    unfolding jobKeys_def takeJob_fields(1)
  proof (rule image_mset_cong)
    fix x assume "x \<in># mset (remove1 b (jobList s))"
    then have "x \<noteq> b" using sub(2) by (simp only: set_mset_mset set_remove1_eq) simp
    then show "jobKey (the (jobStore ?s x)) = jobKey (the (jobStore s x))" by simp
  qed
  have "mset (jobList s) = add_mset b (mset (remove1 b (jobList s)))" using b(1) by simp
  then have "jobKeys s = image_mset (\<lambda>a. jobKey (the (jobStore s a))) (add_mset b (mset (remove1 b (jobList s))))"
    unfolding jobKeys_def by (rule arg_cong)
  then have k: "jobKeys s = mset (map jobKey [j]) + jobKeys ?s" using b(2) rest by simp
  have "taken s [j] ?s"
    unfolding taken_def using jobsOk_result [OF assms(1) d] k b sub(2)
    by (auto simp: length_remove1 split: if_splits dest: length_pos_if_in_set)
  moreover have "protocolParallelResult s = (Inr (Some j), ?s)" using run sub(3) by (simp add: protocolParallelResult_def run_simps)
  ultimately show ?thesis using that c by blast
qed

lemma taken_trans: "taken s js s' \<Longrightarrow> taken s' js' s'' \<Longrightarrow> taken s (js @ js') s''"
  unfolding taken_def by (auto simp: ac_simps) metis

lemma jobResults_run:
  assumes "jobsOk s" "card {a \<in> set (jobList s). jobDone s a} = c"
    and "\<And>a j acc. jobStore s a = Some j \<Longrightarrow> jobState j = JobStateDone \<Longrightarrow> \<exists>acc'. handle j acc = Inr acc'"
  shows "\<exists>js acc' s'. jobResults handle c acc s = (Inr acc', s') \<and> handleAll handle js acc = Inr acc' \<and> length js = c \<and>
    taken s js s' \<and> {a \<in> set (jobList s'). jobDone s' a} = {}"
  using assms
proof (induction c arbitrary: s acc)
  case 0
  then have "taken s [] s" "{a \<in> set (jobList s). jobDone s a} = {}" by (auto simp: taken_def)
  then show ?case by (intro exI [of _ "[]"] exI [of _ acc] exI [of _ s]) (simp add: run_simps)
next
  case (Suc c)
  obtain j s1 where r: "protocolParallelResult s = (Inr (Some j), s1)" "taken s [j] s1" "card {a \<in> set (jobList s1). jobDone s1 a} = c"
    by (rule protocolParallelResult_taken [OF Suc.prems(1,2)])
  then obtain acc1 where h: "handle j acc = Inr acc1" using Suc.prems(3) by (fastforce simp: taken_def)
  have "\<exists>js acc' s'. jobResults handle c acc1 s1 = (Inr acc', s') \<and> handleAll handle js acc1 = Inr acc' \<and> length js = c \<and>
      taken s1 js s' \<and> {a \<in> set (jobList s'). jobDone s' a} = {}"
    by (rule Suc.IH) (use r Suc.prems(3) in \<open>(simp add: taken_def; blast)+\<close>)
  then obtain js acc' s' where "jobResults handle c acc1 s1 = (Inr acc', s')" "handleAll handle js acc1 = Inr acc'" "length js = c"
      "taken s1 js s'" "{a \<in> set (jobList s'). jobDone s' a} = {}" by blast
  then show ?case using r(1) h taken_trans [OF r(2), of js s']
    by (intro exI [of _ "j # js"] exI [of _ acc'] exI [of _ s']) (simp add: run_simps)
qed

section \<open>Clients that work\<close>

text \<open>Commands are sent, and the jobs are answered with results of a given kind when select() reports them.\<close>

definition works :: "('r \<Rightarrow> bool) \<Rightarrow> 'r ProcessEnv \<Rightarrow> bool" where
  "works good env \<longleftrightarrow> selects env \<and> (\<forall>i. (\<exists>r. clientDataGet env i = Inr r \<and> good r) \<and> clientDataEndGet env i = Inr () \<and> clientCommandPut env i = Inr ())"

definition answers :: "'r ProcessEnv \<Rightarrow> bool" where
  "answers env \<longleftrightarrow> (\<forall>S. finite S \<longrightarrow> S \<noteq> {} \<longrightarrow> (\<exists>c R. selectFd env S = Some (c, R) \<and> c > 0))"

text \<open>However often select() times out, it reports a client again.\<close>

definition fair :: "(nat \<Rightarrow> 'r ProcessEnv) \<Rightarrow> bool" where
  "fair envs \<longleftrightarrow> (\<forall>n. \<exists>m \<ge> n. answers (envs m))"

lemma fair_Suc: "fair envs \<Longrightarrow> fair (\<lambda>i. envs (Suc i))"
  unfolding fair_def by (metis Suc_le_D Suc_le_mono)

text \<open>Handling succeeds for the answered jobs with the given keys.\<close>

definition handles :: "('r \<Rightarrow> bool) \<Rightarrow> 'k multiset \<Rightarrow> (('k, 'p, 'r) ProtocolParallelJob \<Rightarrow> 'acc \<Rightarrow> 'acc result) \<Rightarrow> bool" where
  "handles good keys handle \<longleftrightarrow>
     (\<forall>j acc r. jobCode j = None \<longrightarrow> jobResult j = Some r \<longrightarrow> good r \<longrightarrow> jobKey j \<in># keys \<longrightarrow> (\<exists>acc'. handle j acc = Inr acc'))"

lemma works_answered:
  "works good env \<Longrightarrow> jobCode j = None \<Longrightarrow> jobCode (answered env i j) = None \<and> (\<exists>r. jobResult (answered env i j) = Some r \<and> good r)"
  unfolding works_def answered_def by (elim conjE allE [of _ i] exE) (simp split: sum.splits)

lemma run_bindI: "m s = (Inr x, s') \<Longrightarrow> f x s' = r \<Longrightarrow> bindP m f s = r"
  by (simp add: run_simps)

lemma protocolParallelProcess_run:
  assumes "state s = JobStateRunning" "clientList s = fds" "runningFds [0..<length fds] {} s = (Inr S, s)"
    and "(if S = {} then retP 0 else (case selectFd env S of
        None \<Rightarrow> throwP AssertError
      | Some (completed, ready) \<Rightarrow> bindP (whenP (completed > 0) (forP [0..<length fds] (jobComplete env ready))) (\<lambda>_. retP completed))) s = (Inr c, s1)"
    and "forP [0..<length fds] (jobStart callback env) s1 = (Inr (), s2)"
  shows "protocolParallelProcess callback env s = (Inr c, s2)"
  unfolding protocolParallelProcess_def
  apply (rule run_bindI [where x = JobStateRunning and s' = s], simp add: run_simps assms(1))
  apply (rule run_bindI [where x = "()" and s' = s], simp add: run_simps)
  apply (rule run_bindI [where x = "()" and s' = s], simp add: run_simps)
  apply (rule run_bindI [where x = "[0..<length fds]" and s' = s], simp add: run_simps assms(2))
  apply (rule run_bindI, rule assms(3), rule run_bindI, rule assms(4), rule run_bindI, rule assms(5))
  by (simp add: run_simps)

section \<open>Handing out jobs\<close>

text \<open>
  The executor between two calls: the clients have different descriptors that fit into the set of select(), and
  a client whose process was freed gets no more jobs.
\<close>

definition execOk :: "('k, 'p, 'd) ParallelJobCallback \<Rightarrow> ('d \<Rightarrow> bool) \<Rightarrow> int list \<Rightarrow> ('k, 'p, 'r, 'd) ProtocolParallel \<Rightarrow> bool" where
  "execOk callback valid fds s \<longleftrightarrow> jobsOk s \<and> clientList s = fds \<and> distinct fds \<and> (\<forall>fd \<in> set fds. 0 \<le> fd \<and> fd < FD_SETSIZE) \<and>
     valid (callbackData s) \<and> (\<forall>c \<in> set (clientFreed s). c < length fds \<and> callback (callbackData s) c = Inr (None, callbackData s))"

definition workLeft :: "('d \<Rightarrow> 'k multiset) \<Rightarrow> ('k, 'p, 'r, 'd) ProtocolParallel \<Rightarrow> nat" where
  "workLeft left s = 2 * (size (left (callbackData s))) + length (jobList s)"

definition starting :: "('k, 'p, 'd) ParallelJobCallback \<Rightarrow> ('d \<Rightarrow> bool) \<Rightarrow> ('d \<Rightarrow> 'k multiset) \<Rightarrow>
    int list \<Rightarrow> ('k, 'p, 'r, 'd) ProtocolParallel \<Rightarrow> nat \<Rightarrow> ('k, 'p, 'r, 'd) ProtocolParallel \<Rightarrow> bool" where
  "starting callback valid left fds s0 i s \<longleftrightarrow> execOk callback valid fds s \<and>
     left (callbackData s) + jobKeys s = left (callbackData s0) + jobKeys s0 \<and> workLeft left s \<le> workLeft left s0 \<and>
     (\<forall>a j. jobStore s a = Some j \<and> jobState j = JobStateDone \<longleftrightarrow> jobStore s0 a = Some j \<and> jobState j = JobStateDone) \<and>
     (\<forall>c < i. clientJobList s ! c = None \<longrightarrow> callback (callbackData s) c = Inr (None, callbackData s))"

definition addJob :: "nat \<Rightarrow> 'd \<Rightarrow> 'k \<Rightarrow> 'p \<Rightarrow> ('k, 'p, 'r, 'd) ProtocolParallel \<Rightarrow> ('k, 'p, 'r, 'd) ProtocolParallel" where
  "addJob i d key command s = s\<lparr>callbackData := d, jobList := jobList s @ [jobNext s], jobNext := Suc (jobNext s),
     jobStore := (jobStore s)(jobNext s \<mapsto> (protocolParallelJobNew key command)\<lparr>processId := Suc i, jobState := JobStateRunning\<rparr>),
     clientJobList := (clientJobList s)[i := Some (jobNext s)]\<rparr>"

lemma addJob_fields [simp]:
  "jobList (addJob i d key command s) = jobList s @ [jobNext s]" "state (addJob i d key command s) = state s"
  "jobStore (addJob i d key command s) = (jobStore s)(jobNext s \<mapsto> (protocolParallelJobNew key command)\<lparr>processId := Suc i, jobState := JobStateRunning\<rparr>)"
  "clientList (addJob i d key command s) = clientList s" "clientJobList (addJob i d key command s) = (clientJobList s)[i := Some (jobNext s)]"
  "callbackData (addJob i d key command s) = d" "clientFreed (addJob i d key command s) = clientFreed s" "jobNext (addJob i d key command s) = Suc (jobNext s)"
  by (simp_all add: addJob_def)

lemma jobsOk_addJob:
  assumes "jobsOk s" "i < length (clientList s)" "clientJobList s ! i = None"
  shows "jobsOk (addJob i d key command s)" (is "jobsOk ?s")
proof -
  have len: "i < length (clientJobList s)" "length (clientJobList s) = length (clientList s)" using assms(1,2) by (simp_all add: jobsOk_def)
  have new: "jobStore s (jobNext s) = None" using assms(1) unfolding jobsOk_def by (metis domIff less_irrefl)
  have "\<exists>j. jobStore ?s b = Some j \<and> jobState j = JobStateRunning \<and> processId j = Suc k \<and> jobCode j = None"
    if k: "k < length (clientJobList ?s)" "clientJobList ?s ! k = Some b" for k b
  proof (cases "k = i")
    case False
    then have "clientJobList s ! k = Some b" using k by simp
    from jobsOk_client [OF assms(1) _ this] show ?thesis using k(1) new by auto
  qed (use k len in \<open>auto simp: protocolParallelJobNew_def\<close>)
  moreover have "jobState j = JobStateDone \<or> jobState j = JobStateRunning \<and>
      (\<exists>k < length (clientJobList ?s). processId j = Suc k \<and> clientJobList ?s ! k = Some b)"
    if j: "jobStore ?s b = Some j" for b j
  proof (cases "b = jobNext s")
    case False
    then have "jobStore s b = Some j" using j by simp
    from jobsOk_stored [OF assms(1) this] show ?thesis using assms(3) len(1) by (auto simp: nth_list_update)
  qed (use j len in \<open>auto simp: protocolParallelJobNew_def\<close>)
  moreover have "set (jobList ?s) = dom (jobStore ?s)" "\<forall>b \<in> dom (jobStore ?s). b < jobNext ?s"
    "state ?s = JobStateRunning" "length (clientJobList ?s) = length (clientList ?s)" "distinct (jobList ?s)"
    using assms(1) new by (auto simp: jobsOk_def less_Suc_eq)
  ultimately show ?thesis unfolding jobsOk_def by blast
qed

lemma jobKeys_addJob:
  assumes "jobsOk s"
  shows "jobKeys (addJob i d key command s) = add_mset key (jobKeys s)"
proof -
  have "x \<noteq> jobNext s" if "x \<in> set (jobList s)" for x using assms that by (auto simp: jobsOk_def)
  then have "image_mset (\<lambda>a. jobKey (the (jobStore (addJob i d key command s) a))) (mset (jobList s)) = jobKeys s"
    unfolding jobKeys_def by (intro image_mset_cong) auto
  then show ?thesis unfolding jobKeys_def by (simp add: protocolParallelJobNew_def)
qed

lemma jobStart_run:
  assumes "jobsOk s" "i < length (clientList s)"
  shows "clientJobList s ! i \<noteq> None \<Longrightarrow> jobStart callback env i s = (Inr (), s)"
    and "clientJobList s ! i = None \<Longrightarrow> callback (callbackData s) i = Inr (None, d) \<Longrightarrow>
      jobStart callback env i s = (Inr (), s\<lparr>callbackData := d, clientFreed := i # clientFreed s\<rparr>)"
    and "clientJobList s ! i = None \<Longrightarrow> callback (callbackData s) i = Inr (Some (key, command), d) \<Longrightarrow> i \<notin> set (clientFreed s) \<Longrightarrow>
      clientCommandPut env i = Inr () \<Longrightarrow> jobStart callback env i s = (Inr (), addJob i d key command s)"
proof -
  have len: "i < length (clientJobList s)" using assms by (simp add: jobsOk_def)
  show "clientJobList s ! i \<noteq> None \<Longrightarrow> jobStart callback env i s = (Inr (), s)"
    using len by (auto simp: jobStart_def clientJob_def run_simps)
  show "clientJobList s ! i = None \<Longrightarrow> callback (callbackData s) i = Inr (None, d) \<Longrightarrow>
      jobStart callback env i s = (Inr (), s\<lparr>callbackData := d, clientFreed := i # clientFreed s\<rparr>)"
    using len by (simp add: jobStart_def clientJob_def run_simps)
  show "clientJobList s ! i = None \<Longrightarrow> callback (callbackData s) i = Inr (Some (key, command), d) \<Longrightarrow> i \<notin> set (clientFreed s) \<Longrightarrow>
      clientCommandPut env i = Inr () \<Longrightarrow> jobStart callback env i s = (Inr (), addJob i d key command s)"
    using len by (simp add: jobStart_def clientJob_def run_simps jobUpdate_def jobAt_def protocolParallelJobProcessIdSet_def
      protocolParallelJobStateSet_def protocolParallelJobNew_def addJob_def)
qed

lemma freed_fields [simp]:
  "jobsOk (s\<lparr>callbackData := d, clientFreed := f\<rparr>) = jobsOk s" "jobKeys (s\<lparr>callbackData := d, clientFreed := f\<rparr>) = jobKeys s"
  "jobsOk (s\<lparr>clientFreed := f\<rparr>) = jobsOk s" "jobKeys (s\<lparr>clientFreed := f\<rparr>) = jobKeys s"
  by (simp_all add: jobsOk_def jobKeys_def)

text \<open>Adding the clients, and the first call, which sets up their jobs.\<close>

lemma clientAdd_all:
  "state s = JobStatePending \<Longrightarrow> - 1 \<notin> set fds \<Longrightarrow> forP fds protocolParallelClientAdd s = (Inr (), s\<lparr>clientList := clientList s @ fds\<rparr>)"
  by (induction fds arbitrary: s) (auto simp: protocolParallelClientAdd_def run_simps)

lemma protocolParallelProcess_new:
  "state s = JobStatePending \<Longrightarrow> protocolParallelProcess callback env s =
     protocolParallelProcess callback env (s\<lparr>clientJobList := replicate (length (clientList s)) None, state := JobStateRunning\<rparr>)"
  by (simp add: protocolParallelProcess_def run_simps)

lemma jobLoop_new:
  "jobLoop callback handle (Suc fuel) envs acc ((protocolParallelNew d)\<lparr>clientList := fds\<rparr>) = jobLoop callback handle (Suc fuel) envs acc
     ((protocolParallelNew d)\<lparr>clientList := fds, clientJobList := replicate (length fds) None, state := JobStateRunning\<rparr>)"
  using protocolParallelProcess_new [of "(protocolParallelNew d)\<lparr>clientList := fds\<rparr>" callback "envs 0"]
  by (simp add: run_bind protocolParallelNew_def)

section \<open>Sources of jobs\<close>

text \<open>
  The laws of a callback that hands out the jobs \<open>left\<close>, for a given number of clients: it hands out each
  job once, changes nothing when it has no job for a client, has none for it later when it had none
  before, and has jobs for some client as long as there are any.
\<close>

locale job_source =
  fixes callback :: "('k, 'p, 'd) ParallelJobCallback"
    and valid :: "'d \<Rightarrow> bool"
    and left :: "'d \<Rightarrow> 'k multiset"
    and clients :: nat
  assumes returns: "valid d \<Longrightarrow> i < clients \<Longrightarrow> \<exists>r. callback d i = Inr r"
    and job: "valid d \<Longrightarrow> i < clients \<Longrightarrow> callback d i = Inr (Some (k, p), d') \<Longrightarrow> valid d' \<and> left d = add_mset k (left d')"
    and none: "valid d \<Longrightarrow> i < clients \<Longrightarrow> callback d i = Inr (None, d') \<Longrightarrow> d' = d"
    and stable: "valid d \<Longrightarrow> i < clients \<Longrightarrow> c < clients \<Longrightarrow> callback d c = Inr (None, d) \<Longrightarrow>
      callback d i = Inr (Some (k, p), d') \<Longrightarrow> callback d' c = Inr (None, d')"
    and stuck: "valid d \<Longrightarrow> \<forall>i < clients. callback d i = Inr (None, d) \<Longrightarrow> left d = {#}"
begin

lemma yields_jobStart:
  assumes "i < length fds" "length fds = clients" "clientCommandPut env i = Inr ()"
  shows "yields (starting callback valid left fds s0 i) (jobStart callback env i) () (starting callback valid left fds s0 (Suc i))"
proof (rule yieldsI)
  fix s assume s: "starting callback valid left fds s0 i s"
  then have e: "execOk callback valid fds s" by (simp add: starting_def)
  then have ok: "jobsOk s" "i < length (clientList s)" "valid (callbackData s)" "i < clients" using assms by (auto simp: execOk_def)
  note run = jobStart_run [OF ok(1,2)]
  show "\<exists>s'. jobStart callback env i s = (Inr (), s') \<and> starting callback valid left fds s0 (Suc i) s'"
  proof (cases "clientJobList s ! i")
    case (Some a)
    then show ?thesis using s run(1) by (auto simp: starting_def less_Suc_eq)
  next
    case None
    obtain new d where r: "callback (callbackData s) i = Inr (new, d)" using returns [OF ok(3,4)] by auto
    show ?thesis
    proof (cases new)
      case None': None
      then have "d = callbackData s" using none [OF ok(3,4)] r by simp
      then show ?thesis using s r None' assms(1,2) run(2) [OF None]
        by (auto simp: starting_def execOk_def less_Suc_eq workLeft_def)
    next
      case (Some kp)
      obtain key command where kp: "kp = (key, command)" by (cases kp)
      have d: "valid d" "left (callbackData s) = add_mset key (left d)" using job [OF ok(3,4)] r Some kp by blast+
      have st: "callback d c = Inr (None, d)" if "c < clients" "callback (callbackData s) c = Inr (None, callbackData s)" for c
        using stable [OF ok(3,4) that] r Some kp by blast
      have free: "i \<notin> set (clientFreed s)" using e r Some by (auto simp: execOk_def)
      have new: "jobStore s (jobNext s) = None" using ok(1) unfolding jobsOk_def by (metis domIff less_irrefl)
      have nd: "jobStore s0 (jobNext s) = Some j \<and> jobState j = JobStateDone \<longleftrightarrow> False" for j
        using s new unfolding starting_def by (metis option.distinct(1))
      have "jobsOk (addJob i d key command s)" by (rule jobsOk_addJob [OF ok(1,2) None])
      moreover have "length (clientJobList s) = length fds" using e by (simp add: execOk_def jobsOk_def)
      moreover have "jobStore (addJob i d key command s) a = Some j \<and> jobState j = JobStateDone \<longleftrightarrow>
          jobStore s0 a = Some j \<and> jobState j = JobStateDone" for a j
        using s nd [of j] by (auto simp: starting_def protocolParallelJobNew_def)
      ultimately have "starting callback valid left fds s0 (Suc i) (addJob i d key command s)"
        using s d st assms(1,2) jobKeys_addJob [OF ok(1), of i d key command]
        by (auto simp: starting_def execOk_def workLeft_def less_Suc_eq nth_list_update)
      then show ?thesis using run(3) [OF None _ free assms(3)] r Some kp by auto
    qed
  qed
qed

text \<open>One call of the executor, from a state in which all results were taken.\<close>

definition between :: "int list \<Rightarrow> ('k, 'p, 'r, 'd) ProtocolParallel \<Rightarrow> bool" where
  "between fds s \<longleftrightarrow> execOk callback valid fds s \<and> {a \<in> set (jobList s). jobDone s a} = {}"

lemma process_between:
  assumes s: "between fds s" and fds: "length fds = clients"
    and env: "selects env" "\<And>i. caught (clientDataGet env i)" "\<And>i. caught (clientDataEndGet env i)" "\<And>i. clientCommandPut env i = Inr ()"
  shows "\<exists>c s1 s2. protocolParallelProcess callback env s = (Inr c, s2) \<and> starting callback valid left fds s1 (length fds) s2 \<and>
    jobKeys s1 = jobKeys s \<and> callbackData s1 = callbackData s \<and> jobList s1 = jobList s \<and>
    card {a \<in> set (jobList s2). jobDone s2 a} = c \<and>
    (busy s \<noteq> {} \<longrightarrow> (\<exists>R. selectFd env (busyFds s) = Some (c, R))) \<and>
    (\<forall>a j. jobStore s1 a = Some j \<longrightarrow> jobState j = JobStateDone \<longrightarrow> (\<exists>i j0. j = (answered env i j0)\<lparr>jobState := JobStateDone\<rparr> \<and> jobCode j0 = None))"
proof -
  have e: "jobsOk s" "clientList s = fds" "distinct fds" "state s = JobStateRunning" "\<forall>fd \<in> set fds. 0 \<le> fd \<and> fd < FD_SETSIZE"
    using s jobsOk_basic(1) by (auto simp: between_def execOk_def)
  have nodone: "{a \<in> set (jobList s). jobDone s a} = {}" using s by (simp add: between_def)
  have nd: "jobState j \<noteq> JobStateDone" if "jobStore s a = Some j" for a j
    using nodone that jobsOk_basic(4) [OF e(1)] by (auto simp: jobDone_def)
  have fdsRun: "runningFds [0..<length fds] {} s = (Inr (busyFds s), s)" using runningFds_busy [OF e(1)] e(2,5) by simp
  have start: "\<exists>s2. forP [0..<length fds] (jobStart callback env) s1 = (Inr (), s2) \<and> starting callback valid left fds s1 (length fds) s2"
    if "execOk callback valid fds s1" for s1
  proof -
    have "yields (starting callback valid left fds s1 0) (forP [0..<length fds] (jobStart callback env)) () (starting callback valid left fds s1 (length fds))"
      by (rule yields_for_upt) (auto intro: yields_jobStart fds env(4))
    moreover have "starting callback valid left fds s1 0 s1" using that by (simp add: starting_def)
    ultimately show ?thesis by (rule yieldsD)
  qed
  have "\<exists>c s1. (if busyFds s = {} then retP 0 else (case selectFd env (busyFds s) of
        None \<Rightarrow> throwP AssertError
      | Some (completed, ready) \<Rightarrow> bindP (whenP (completed > 0) (forP [0..<length fds] (jobComplete env ready))) (\<lambda>_. retP completed))) s = (Inr c, s1) \<and>
      execOk callback valid fds s1 \<and> jobKeys s1 = jobKeys s \<and> callbackData s1 = callbackData s \<and> jobList s1 = jobList s \<and>
      card {a \<in> set (jobList s1). jobDone s1 a} = c \<and> (busy s \<noteq> {} \<longrightarrow> (\<exists>R. selectFd env (busyFds s) = Some (c, R))) \<and>
      (\<forall>a j. jobStore s1 a = Some j \<longrightarrow> jobState j = JobStateDone \<longrightarrow> (\<exists>i j0. j = (answered env i j0)\<lparr>jobState := JobStateDone\<rparr> \<and> jobCode j0 = None))"
  proof (cases "busyFds s = {}")
    case True
    then show ?thesis using s nd nodone by (auto simp: run_simps between_def busyFds_def)
  next
    case False
    then obtain R where R: "R \<subseteq> busyFds s" "selectFd env (busyFds s) = Some (card R, R)" using env(1) unfolding selects_def by blast
    have fin: "finite R" using R(1) finite_subset by (fastforce simp: busyFds_def busy_def)
    show ?thesis
    proof (cases "card R > 0")
      case True
      obtain s1 where s1: "forP [0..<length fds] (jobComplete env R) s = (Inr (), s1)" "completing env R s (length fds) s1"
        using yields_jobsComplete [OF env(2,3) e(1), of R] e(2) by auto
      have "card {a \<in> set (jobList s1). jobDone s1 a} = card R"
        using completing_done [OF _ e(1) _ R(1) nodone] s1(2) e(2,3) by simp
      moreover have "jobKeys s1 = jobKeys s" using s1(2) e(1) completing_keys by blast
      moreover have "execOk callback valid fds s1" using s s1(2) by (simp add: between_def execOk_def completing_def)
      moreover have "\<exists>i j0. j = (answered env i j0)\<lparr>jobState := JobStateDone\<rparr> \<and> jobCode j0 = None"
        if "jobStore s1 a = Some j" "jobState j = JobStateDone" for a j
        using s1(2) nd that unfolding completing_def by metis
      moreover have "callbackData s1 = callbackData s" "jobList s1 = jobList s" using s1(2) by (simp_all add: completing_def)
      ultimately show ?thesis
        using R(2) True False s1(1) by (intro exI [of _ "card R"] exI [of _ s1]) (simp add: run_simps)
    next
      case False
      then have "R = {}" using fin by simp
      then show ?thesis using R(2) \<open>busyFds s \<noteq> {}\<close> s nd nodone by (auto simp: run_simps between_def)
    qed
  qed
  then obtain c s1 where c: "(if busyFds s = {} then retP 0 else (case selectFd env (busyFds s) of
        None \<Rightarrow> throwP AssertError
      | Some (completed, ready) \<Rightarrow> bindP (whenP (completed > 0) (forP [0..<length fds] (jobComplete env ready))) (\<lambda>_. retP completed))) s = (Inr c, s1)"
    and s1: "execOk callback valid fds s1" "jobKeys s1 = jobKeys s" "callbackData s1 = callbackData s" "jobList s1 = jobList s"
      "card {a \<in> set (jobList s1). jobDone s1 a} = c" "busy s \<noteq> {} \<longrightarrow> (\<exists>R. selectFd env (busyFds s) = Some (c, R))"
      "\<forall>a j. jobStore s1 a = Some j \<longrightarrow> jobState j = JobStateDone \<longrightarrow> (\<exists>i j0. j = (answered env i j0)\<lparr>jobState := JobStateDone\<rparr> \<and> jobCode j0 = None)"
    by blast
  obtain s2 where s2: "forP [0..<length fds] (jobStart callback env) s1 = (Inr (), s2)" "starting callback valid left fds s1 (length fds) s2"
    using start [OF s1(1)] by blast
  have "jobDone s2 a \<longleftrightarrow> jobDone s1 a" for a using s2(2) unfolding starting_def jobDone_def by blast
  then have "{a \<in> set (jobList s2). jobDone s2 a} = {a \<in> set (jobList s1). jobDone s1 a}"
    using s1(1) s2(2) done_listed [of s1] done_listed [of s2] by (simp add: starting_def execOk_def)
  moreover have "protocolParallelProcess callback env s = (Inr c, s2)"
    by (rule protocolParallelProcess_run [OF e(4,2) fdsRun c s2(1)])
  ultimately show ?thesis using s1 s2(2) by (intro exI [of _ c] exI [of _ s1] exI [of _ s2]) simp
qed

text \<open>One turn of the loop of a caller.\<close>

lemma turn:
  assumes s: "between fds s" and fds: "length fds = clients" and env: "works good env"
    and h: "handles good keys handle" "left (callbackData s) + jobKeys s \<subseteq># keys"
  shows "\<exists>js acc' s2 s'. protocolParallelProcess callback env s = (Inr (length js), s2) \<and> jobResults handle (length js) acc s2 = (Inr acc', s') \<and>
    handleAll handle js acc = Inr acc' \<and> between fds s' \<and>
    left (callbackData s) + jobKeys s = mset (map jobKey js) + (left (callbackData s') + jobKeys s') \<and>
    workLeft left s' + length js \<le> workLeft left s \<and>
    (jobList s' = [] \<longrightarrow> left (callbackData s') = {#}) \<and> (jobList s \<noteq> [] \<longrightarrow> answers env \<longrightarrow> js \<noteq> [])"
proof -
  have e: "selects env" "\<And>i. caught (clientDataGet env i)" "\<And>i. caught (clientDataEndGet env i)" "\<And>i. clientCommandPut env i = Inr ()"
    using env by (auto simp: works_def caught_def) (metis Inl_Inr_False)+
  obtain c s1 s2 where p: "protocolParallelProcess callback env s = (Inr c, s2)" and st: "starting callback valid left fds s1 (length fds) s2"
    and s1: "jobKeys s1 = jobKeys s" "callbackData s1 = callbackData s" "jobList s1 = jobList s"
    and c: "card {a \<in> set (jobList s2). jobDone s2 a} = c" "busy s \<noteq> {} \<longrightarrow> (\<exists>R. selectFd env (busyFds s) = Some (c, R))"
    and ans: "\<forall>a j. jobStore s1 a = Some j \<longrightarrow> jobState j = JobStateDone \<longrightarrow> (\<exists>i j0. j = (answered env i j0)\<lparr>jobState := JobStateDone\<rparr> \<and> jobCode j0 = None)"
    using process_between [OF s fds e] by blast
  have ok2: "jobsOk s2" "execOk callback valid fds s2" using st by (auto simp: starting_def execOk_def)
  have total: "left (callbackData s2) + jobKeys s2 = left (callbackData s) + jobKeys s" using st s1 by (simp add: starting_def)
  have good: "\<exists>acc'. handle j acc = Inr acc'" if j: "jobStore s2 a = Some j" "jobState j = JobStateDone" for a j acc
  proof -
    have "jobStore s1 a = Some j" using st j unfolding starting_def by blast
    then obtain i j0 where "j = (answered env i j0)\<lparr>jobState := JobStateDone\<rparr>" "jobCode j0 = None" using ans j(2) by blast
    then obtain r where "jobCode j = None" "jobResult j = Some r" "good r" using works_answered [OF env, of j0 i] by auto
    moreover have "a \<in> set (jobList s2)" using jobsOk_basic(4) [OF ok2(1)] j(1) by auto
    then have "jobKey j \<in># jobKeys s2" using j(1) by (force simp: jobKeys_def)
    then have "jobKey j \<in># keys" using h(2) total by (metis mset_subset_eqD union_iff)
    ultimately show ?thesis using h(1) unfolding handles_def by blast
  qed
  obtain js acc' s' where r: "jobResults handle c acc s2 = (Inr acc', s')" "handleAll handle js acc = Inr acc'" "length js = c"
      "taken s2 js s'" "{a \<in> set (jobList s'). jobDone s' a} = {}"
    using jobResults_run [OF ok2(1) c(1), of handle acc] good by blast
  have b: "between fds s'" using r(4,5) ok2(2) by (simp add: between_def execOk_def taken_def)
  have "left (callbackData s') = {#}" if "jobList s' = []"
  proof -
    have "jobsOk s'" "clientList s' = fds" using b by (auto simp: between_def execOk_def)
    then have "clientJobList s' ! i = None" if "i < length fds" for i
      using jobsOk_basic [of s'] jobsOk_client [of s' i] \<open>jobList s' = []\<close> that by (cases "clientJobList s' ! i") auto
    then have "\<forall>i < clients. callback (callbackData s') i = Inr (None, callbackData s')"
      using st r(4) fds by (simp add: starting_def taken_def)
    then show ?thesis using stuck b by (simp add: between_def execOk_def)
  qed
  moreover have "js \<noteq> []" if jobs: "jobList s \<noteq> []" and ans: "answers env"
  proof -
    have ok: "jobsOk s" and no: "{a \<in> set (jobList s). jobDone s a} = {}" using s by (auto simp: between_def execOk_def)
    have "busy s \<noteq> {}" using card_jobs [OF ok, unfolded no] jobs by auto
    then obtain R where R: "selectFd env (busyFds s) = Some (c, R)" "busyFds s \<noteq> {}" using c(2) by (auto simp: busyFds_def)
    have "finite (busyFds s)" by (simp add: busyFds_def busy_def)
    then obtain c' R' where "selectFd env (busyFds s) = Some (c', R')" "c' > 0" using ans R(2) unfolding answers_def by blast
    then show ?thesis using R(1) r(3) by auto
  qed
  moreover have "left (callbackData s) + jobKeys s = mset (map jobKey js) + (left (callbackData s') + jobKeys s')"
    using total r(4) by (simp add: taken_def ac_simps)
  moreover have "workLeft left s' + length js \<le> workLeft left s"
    using st r(4) s1 by (simp add: starting_def taken_def workLeft_def)
  ultimately show ?thesis using p r b by blast
qed

text \<open>The loop ends: while a job runs, a fair turn takes work away, and the turns before it add none.\<close>

definition finishes :: "(('k, 'p, 'r) ProtocolParallelJob \<Rightarrow> 'acc \<Rightarrow> 'acc result) \<Rightarrow> (nat \<Rightarrow> 'r ProcessEnv) \<Rightarrow> 'acc \<Rightarrow> ('k, 'p, 'r, 'd) ProtocolParallel \<Rightarrow> bool" where
  "finishes handle envs acc s \<longleftrightarrow> (\<exists>fuel js acc' s'. jobLoop callback handle fuel envs acc s = (Inr acc', s') \<and>
     handleAll handle js acc = Inr acc' \<and> mset (map jobKey js) = left (callbackData s) + jobKeys s \<and> state s' = JobStateDone \<and> left (callbackData s') = {#})"

lemma finishes_turn:
  assumes "between fds s" "length fds = clients" "works good (envs 0)" "handles good keys handle"
    and "left (callbackData s) + jobKeys s \<subseteq># keys"
    and step: "\<And>s' acc'. between fds s' \<Longrightarrow> jobList s' \<noteq> [] \<Longrightarrow> left (callbackData s') + jobKeys s' \<subseteq># keys \<Longrightarrow>
      workLeft left s' \<le> workLeft left s \<Longrightarrow> (jobList s \<noteq> [] \<longrightarrow> answers (envs 0) \<longrightarrow> workLeft left s' < workLeft left s) \<Longrightarrow>
      finishes handle (\<lambda>i. envs (Suc i)) acc' s'"
  shows "finishes handle envs acc s"
proof -
  obtain js acc1 s2 s1 where p: "protocolParallelProcess callback (envs 0) s = (Inr (length js), s2)"
    "jobResults handle (length js) acc s2 = (Inr acc1, s1)"
    and h: "handleAll handle js acc = Inr acc1" and b: "between fds s1"
    and k: "left (callbackData s) + jobKeys s = mset (map jobKey js) + (left (callbackData s1) + jobKeys s1)"
    and w: "workLeft left s1 + length js \<le> workLeft left s"
    and d: "jobList s1 = [] \<longrightarrow> left (callbackData s1) = {#}" "jobList s \<noteq> [] \<longrightarrow> answers (envs 0) \<longrightarrow> js \<noteq> []"
    using turn [OF assms(1-5), of acc] by blast
  have st: "state s1 = JobStateRunning" using b jobsOk_basic(1) by (auto simp: between_def execOk_def)
  show ?thesis
  proof (cases "jobList s1 = []")
    case True
    then have "jobLoop callback handle (Suc 0) envs acc s = (Inr acc1, s1\<lparr>state := JobStateDone\<rparr>)"
      using p st by (simp add: run_simps protocolParallelDone_def)
    moreover have "mset (map jobKey js) = left (callbackData s) + jobKeys s" using k d(1) True by (simp add: jobKeys_def)
    ultimately show ?thesis unfolding finishes_def using h d(1) True
      by (intro exI [of _ "Suc 0"] exI [of _ js] exI [of _ acc1] exI [of _ "s1\<lparr>state := JobStateDone\<rparr>"]) simp
  next
    case False
    have "finishes handle (\<lambda>i. envs (Suc i)) acc1 s1"
    proof (rule step [OF b False])
      show "left (callbackData s1) + jobKeys s1 \<subseteq># keys" using assms(5) k by (metis mset_subset_eq_add_right subset_mset.trans)
      show "workLeft left s1 \<le> workLeft left s" using w by simp
      show "jobList s \<noteq> [] \<longrightarrow> answers (envs 0) \<longrightarrow> workLeft left s1 < workLeft left s"
        using w d(2) length_greater_0_conv [of js] by linarith
    qed
    then obtain fuel js' acc' s' where l: "jobLoop callback handle fuel (\<lambda>i. envs (Suc i)) acc1 s1 = (Inr acc', s')"
      "handleAll handle js' acc1 = Inr acc'" "mset (map jobKey js') = left (callbackData s1) + jobKeys s1" "state s' = JobStateDone"
      "left (callbackData s') = {#}"
      unfolding finishes_def by blast
    have "jobLoop callback handle (Suc fuel) envs acc s = (Inr acc', s')"
      using p st False l(1) by (simp add: run_simps protocolParallelDone_def)
    moreover have "mset (map jobKey (js @ js')) = left (callbackData s) + jobKeys s" using k l(3) by simp
    ultimately show ?thesis unfolding finishes_def using h l(2,4,5)
      by (intro exI [of _ "Suc fuel"] exI [of _ "js @ js'"] exI [of _ acc'] exI [of _ s']) (simp add: handleAll_append)
  qed
qed

lemma finishes_running:
  fixes s :: "('k, 'p, 'r, 'd) ProtocolParallel" and acc :: 'acc
  assumes "between fds s" "length fds = clients" "\<And>i. works good (envs i)" "fair envs" "handles good keys handle"
    and "left (callbackData s) + jobKeys s \<subseteq># keys" "jobList s \<noteq> []" "answers (envs n)"
  shows "finishes handle envs acc s"
  using assms(1,3,4,6-8)
proof (induction "(workLeft left s, n)" arbitrary: s envs acc n rule: wf_induct_rule [OF wf_lex_prod [OF wf_less_than wf_less_than]])
  case 1
  note IH = 1(1) [rotated 1] and prems = 1(2-)
  have fair': "fair (\<lambda>i. envs (Suc i))" by (rule fair_Suc [OF prems(3)])
  show ?case
  proof (rule finishes_turn [OF prems(1) assms(2) prems(2) assms(5) prems(4)])
    fix s' :: "('k, 'p, 'r, 'd) ProtocolParallel" and acc' :: 'acc
    assume s': "between fds s'" "jobList s' \<noteq> []" "left (callbackData s') + jobKeys s' \<subseteq># keys"
      "workLeft left s' \<le> workLeft left s" "jobList s \<noteq> [] \<longrightarrow> answers (envs 0) \<longrightarrow> workLeft left s' < workLeft left s"
    show "finishes handle (\<lambda>i. envs (Suc i)) acc' s'"
    proof (cases n)
      case 0
      then have "workLeft left s' < workLeft left s" using s'(5) prems(5,6) by simp
      moreover obtain m where "answers (envs (Suc m))" using fair' by (auto simp: fair_def)
      ultimately show ?thesis using s' prems(2) fair' by (intro IH [of s' "\<lambda>i. envs (Suc i)" m]) auto
    next
      case (Suc m)
      then show ?thesis using s' prems(2,6) fair' by (intro IH [of s' "\<lambda>i. envs (Suc i)" m]) (auto simp: le_less)
    qed
  qed
qed

lemma executor_finishes:
  fixes envs :: "nat \<Rightarrow> 'r ProcessEnv"
  assumes "valid d" "length fds = clients" "distinct fds" "\<forall>fd \<in> set fds. 0 \<le> fd \<and> fd < FD_SETSIZE"
    and "\<And>i. works good (envs i)" "fair envs" "handles good (left d) handle"
  shows "\<exists>fuel js acc' s'. bindP (forP fds protocolParallelClientAdd) (\<lambda>_. jobLoop callback handle fuel envs acc) (protocolParallelNew d) = (Inr acc', s') \<and>
    handleAll handle js acc = Inr acc' \<and> mset (map jobKey js) = left d \<and> state s' = JobStateDone \<and> left (callbackData s') = {#}"
proof -
  let ?s = "(protocolParallelNew d)\<lparr>clientList := fds, clientJobList := replicate (length fds) None, state := JobStateRunning\<rparr>"
  have b: "between fds ?s" "callbackData ?s = d" "jobKeys ?s = {#}"
    using assms(1,3,4) by (auto simp: between_def execOk_def jobsOk_def jobDone_def jobKeys_def protocolParallelNew_def)
  have "finishes handle envs acc ?s"
  proof (rule finishes_turn [OF b(1) assms(2) assms(5) assms(7)])
    show "finishes handle (\<lambda>i. envs (Suc i)) acc' s'"
      if "between fds s'" "jobList s' \<noteq> []" "left (callbackData s') + jobKeys s' \<subseteq># left d" for acc' s'
    proof -
      have f: "fair (\<lambda>i. envs (Suc i))" by (rule fair_Suc [OF assms(6)])
      then obtain m where "answers (envs (Suc m))" by (auto simp: fair_def)
      then show ?thesis by (rule finishes_running [OF that(1) assms(2) assms(5) f assms(7) that(3,2)])
    qed
  qed (simp add: b)
  then obtain fuel js acc' s' where l: "jobLoop callback handle fuel envs acc ?s = (Inr acc', s')"
      "handleAll handle js acc = Inr acc'" "mset (map jobKey js) = left d" "state s' = JobStateDone" "left (callbackData s') = {#}"
    unfolding finishes_def b by auto
  then obtain fuel' where "fuel = Suc fuel'" by (cases fuel) (auto simp: run_simps)
  then have "jobLoop callback handle fuel envs acc ((protocolParallelNew d)\<lparr>clientList := fds\<rparr>) = (Inr acc', s')"
    using l(1) jobLoop_new by metis
  moreover have "forP fds protocolParallelClientAdd (protocolParallelNew d :: ('k, 'p, 'r, 'd) ProtocolParallel) = (Inr (), (protocolParallelNew d)\<lparr>clientList := fds\<rparr>)"
    using clientAdd_all [of "protocolParallelNew d" fds] assms(4) by (force simp: protocolParallelNew_def)
  ultimately have "bindP (forP fds protocolParallelClientAdd) (\<lambda>_. jobLoop callback handle fuel envs acc) (protocolParallelNew d) = (Inr acc', s')"
    by (simp add: run_simps)
  then show ?thesis using l by blast
qed

end

end
