(* ===== verification/JobQueues.thy ===== *)
theory JobQueues
  imports ProtocolProof ParallelJobs InfoBackup RegExp
begin

text \<open>
  The jobs of the restore and the backup command: the queues of the files of a manifest, one for each
  target (src/command/restore/restore.c and src/command/backup/backup.c), the callbacks that hand them out to
  the parallel executor with the parameters packed for the local process, and the protocol
  handlers that unpack these (protocol.c of both commands).
\<close>

section \<open>Manifests\<close>

text \<open>The parts of a manifest that the queues and the jobs use (src/info/manifest.h).\<close>

record JobFile = ManifestFile +
  primary :: bool
  checksumPage :: bool
  mode_mf :: u32
  checksumSha1 :: string
  user_mf :: "string option"
  group_mf :: "string option"
  timestamp_mf :: u64

record ManifestTarget =
  targetName :: string
  targetPath :: string
  tablespaceId :: nat

record JobManifest =
  targetList :: "ManifestTarget list"
  fileList :: "JobFile list"
  backupLabel_jm :: string
  backupTimestampCopyStart :: u64
  backupOptionCompressType :: u32

definition MANIFEST_TARGET_PGDATA :: string where "MANIFEST_TARGET_PGDATA = ''pg_data''"
definition MANIFEST_TARGET_PGTBLSPC :: string where "MANIFEST_TARGET_PGTBLSPC = ''pg_tblspc''"

definition manifestPathPg :: "string \<Rightarrow> string option result" where
  "manifestPathPg manifestPath =
     (if strBeginsWith manifestPath (MANIFEST_TARGET_PGDATA @ ''/'') then Inr (Some (drop (length MANIFEST_TARGET_PGDATA + 1) manifestPath))
      else if manifestPath \<noteq> MANIFEST_TARGET_PGDATA then
        bindE (ASSERT (manifestPath = MANIFEST_TARGET_PGTBLSPC \<or> strBeginsWith manifestPath (MANIFEST_TARGET_PGTBLSPC @ ''/'')))
          (\<lambda>_. Inr (Some manifestPath))
      else Inr None)"

definition manifestTargetFind :: "JobManifest \<Rightarrow> string \<Rightarrow> ManifestTarget result" where
  "manifestTargetFind this n = (case List.find (\<lambda>t. targetName t = n) (targetList this) of None \<Rightarrow> Inl AssertError | Some t \<Rightarrow> Inr t)"

definition manifestTargetBase :: "JobManifest \<Rightarrow> ManifestTarget result" where
  "manifestTargetBase this = manifestTargetFind this MANIFEST_TARGET_PGDATA"

definition manifestFileFind :: "JobManifest \<Rightarrow> string \<Rightarrow> JobFile result" where
  "manifestFileFind this n = (case List.find (\<lambda>f. name_mf f = n) (fileList this) of None \<Rightarrow> Inl AssertError | Some f \<Rightarrow> Inr f)"

definition pgControlName :: string where
  "pgControlName = MANIFEST_TARGET_PGDATA @ ''/global/pg_control''"

section \<open>Queues of restore\<close>

definition restoreProcessQueueComparator :: "JobFile comparator" where
  "restoreProcessQueueComparator item1 item2 =
     (if size_mf item1 < size_mf item2 then -1
      else if size_mf item1 > size_mf item2 then 1
      else strCmp (Some (name_mf item1)) (Some (name_mf item2)))"

definition processTargets :: "JobManifest \<Rightarrow> string list" where
  "processTargets manifest = (MANIFEST_TARGET_PGDATA @ ''/'') # map (\<lambda>t. targetName t @ ''/'') (filter (\<lambda>t. tablespaceId t \<noteq> 0) (targetList manifest))"

text \<open>The target that contains a file. A target should always be found.\<close>

fun targetScan :: "string \<Rightarrow> string list \<Rightarrow> nat \<Rightarrow> nat result" where
  "targetScan fileName [] targetIdx = Inl AssertError"
| "targetScan fileName (target # targets) targetIdx =
     (if strBeginsWith fileName target then Inr targetIdx else targetScan fileName targets (targetIdx + 1))"

definition queueAdd :: "JobFile list list \<Rightarrow> nat \<Rightarrow> JobFile \<Rightarrow> JobFile list list" where
  "queueAdd queues idx f = queues[idx := (queues ! idx) @ [f]]"

fun restoreQueueFill :: "string list \<Rightarrow> JobFile list \<Rightarrow> u64 \<times> JobFile list list \<Rightarrow> (u64 \<times> JobFile list list) result" where
  "restoreQueueFill targets [] acc = Inr acc"
| "restoreQueueFill targets (f # fs) (size0, queues) =
     bindE (targetScan (name_mf f) targets 0) (\<lambda>targetIdx.
     restoreQueueFill targets fs (size0 + size_mf f, queueAdd queues targetIdx f))"

definition restoreProcessQueue :: "JobManifest \<Rightarrow> (u64 \<times> JobFile list list) result" where
  "restoreProcessQueue manifest =
     (let targets = processTargets manifest
      in bindE (restoreQueueFill targets (fileList manifest) (0, replicate (length targets) [])) (\<lambda>(size0, queues).
         Inr (size0, map (msort (lstComparatorDesc restoreProcessQueueComparator)) queues)))"

section \<open>Jobs of restore\<close>

definition restoreFileZeroed :: "string \<Rightarrow> rx option \<Rightarrow> bool" where
  "restoreFileZeroed manifestName zeroExp = (case zeroExp of
     None \<Rightarrow> False | Some r \<Rightarrow> regExpMatch r manifestName \<and> \<not> strEndsWith manifestName ''/PG_VERSION'')"

definition restoreFilePgPath :: "JobManifest \<Rightarrow> string \<Rightarrow> string result" where
  "restoreFilePgPath manifest manifestName =
     bindE (manifestTargetBase manifest) (\<lambda>base.
     bindE (manifestPathPg manifestName) (\<lambda>path.
     case path of
       None \<Rightarrow> Inl AssertError
     | Some p \<Rightarrow>
         let r = targetPath base @ ''/'' @ p
         in Inr (if manifestName = pgControlName then r @ ''.pgbackrest.tmp'' else r)))"

record RestoreJobData =
  repoIdx :: u32
  manifest_rd :: JobManifest
  queueList :: "JobFile list list"
  zeroExp :: "rx option"
  cipherSubPass :: "string option"

definition PROTOCOL_COMMAND_RESTORE_FILE :: u64 where "PROTOCOL_COMMAND_RESTORE_FILE = 0x36e720"

text \<open>The parameters of a restore job, in the order they are packed.\<close>

definition restoreJobParam :: "bool \<Rightarrow> bool \<Rightarrow> RestoreJobData \<Rightarrow> JobFile \<Rightarrow> string \<Rightarrow> (PackWrite, unit) prog" where
  "restoreJobParam delta force jobData f pgPath =
     bindP (pckWriteStr (Some (name_mf f)) 0 False None) (\<lambda>_.
     bindP (pckWriteU32 (repoIdx jobData) 0 False 0) (\<lambda>_.
     bindP (pckWriteStr (Some (case reference f of Some r \<Rightarrow> r | None \<Rightarrow> backupLabel_jm (manifest_rd jobData))) 0 False None) (\<lambda>_.
     bindP (pckWriteU32 (backupOptionCompressType (manifest_rd jobData)) 0 False 0) (\<lambda>_.
     bindP (pckWriteStr (Some pgPath) 0 False None) (\<lambda>_.
     bindP (pckWriteStr (Some (checksumSha1 f)) 0 False None) (\<lambda>_.
     bindP (pckWriteBool (restoreFileZeroed (name_mf f) (zeroExp jobData)) 0 False False) (\<lambda>_.
     bindP (pckWriteU64 (size_mf f) 0 False 0) (\<lambda>_.
     bindP (pckWriteTime (timestamp_mf f) 0 False 0) (\<lambda>_.
     bindP (pckWriteMode (mode_mf f) 0 False 0) (\<lambda>_.
     bindP (pckWriteStr (user_mf f) 0 False None) (\<lambda>_.
     bindP (pckWriteStr (group_mf f) 0 False None) (\<lambda>_.
     bindP (pckWriteTime (backupTimestampCopyStart (manifest_rd jobData)) 0 False 0) (\<lambda>_.
     bindP (pckWriteBool delta 0 False False) (\<lambda>_.
     bindP (pckWriteBool (delta \<and> force) 0 False False) (\<lambda>_.
     pckWriteStr (cipherSubPass jobData) 0 False None)))))))))))))))"

definition restoreJobNew :: "bool \<Rightarrow> bool \<Rightarrow> RestoreJobData \<Rightarrow> JobFile \<Rightarrow> ProtocolCommand result" where
  "restoreJobNew delta force jobData f =
     bindE (protocolCommandNew PROTOCOL_COMMAND_RESTORE_FILE) (\<lambda>cmd.
     bindE (restoreFilePgPath (manifest_rd jobData) (name_mf f)) (\<lambda>pgPath.
     case restoreJobParam delta force jobData f pgPath (protocolCommandParam cmd) of
       (Inl e, _) \<Rightarrow> Inl e
     | (Inr _, param) \<Rightarrow> Inr (cmd\<lparr>pack := Some param\<rparr>)))"

definition restoreJobQueueNext :: "nat \<Rightarrow> int \<Rightarrow> nat \<Rightarrow> int" where
  "restoreJobQueueNext clientIdx queueIdx queueTotal =
     (let idx = queueIdx + (if clientIdx mod 2 \<noteq> 0 then -1 else 1)
      in if idx < 0 then int queueTotal - 1 else if idx = int queueTotal then 0 else idx)"

text \<open>
  The scan of the queues, from one of them until it comes back there: the first file of the first queue that is
  not empty becomes a job. The fuel is the number of queues.
\<close>

fun jobScan :: "(int \<Rightarrow> int) \<Rightarrow> nat \<Rightarrow> (JobFile \<Rightarrow> ProtocolCommand result) \<Rightarrow> nat \<Rightarrow> JobFile list list \<Rightarrow> int \<Rightarrow> int \<Rightarrow>
    ((string \<times> ProtocolCommand) option \<times> JobFile list list) result" where
  "jobScan queueNext queueOffset newJob 0 queues queueIdx queueEnd = Inl NoReturn"
| "jobScan queueNext queueOffset newJob (Suc fuel) queues queueIdx queueEnd =
     (case queues ! (nat queueIdx + queueOffset) of
        f # rest \<Rightarrow> bindE (newJob f) (\<lambda>cmd. Inr (Some (name_mf f, cmd), queues[nat queueIdx + queueOffset := rest]))
      | [] \<Rightarrow>
          let queueIdx' = queueNext queueIdx
          in if queueIdx' = queueEnd then Inr (None, queues)
             else jobScan queueNext queueOffset newJob fuel queues queueIdx' queueEnd)"

definition restoreJobCallback :: "bool \<Rightarrow> bool \<Rightarrow> (string, ProtocolCommand, RestoreJobData) ParallelJobCallback" where
  "restoreJobCallback delta force jobData clientIdx =
     (let queueTotal = length (queueList jobData)
      in if queueTotal = 0 then Inl UndefinedBehavior
         else
           let queueIdx = int (clientIdx mod queueTotal)
           in mapE (\<lambda>(job, queues). (job, jobData\<lparr>queueList := queues\<rparr>))
                (jobScan (\<lambda>queueIdx. restoreJobQueueNext clientIdx queueIdx queueTotal) 0 (restoreJobNew delta force jobData) queueTotal
                  (queueList jobData) queueIdx queueIdx))"

text \<open>The result of a job. The log needs the path of the file and the percentage.\<close>

definition restoreJobResult :: "JobManifest \<Rightarrow> u64 \<Rightarrow> (string, ProtocolCommand, PackRead option) ProtocolParallelJob \<Rightarrow> u64 \<Rightarrow> u64 result" where
  "restoreJobResult manifest sizeTotal job sizeRestored = (case jobCode job of
     None \<Rightarrow>
       bindE (manifestFileFind manifest (jobKey job)) (\<lambda>f.
       bindE (case jobResult job of Some (Some r) \<Rightarrow> fst (pckReadBool 0 False r) | _ \<Rightarrow> Inl AssertError) (\<lambda>copied.
       bindE (restoreFilePgPath manifest (name_mf f)) (\<lambda>_.
       if sizeTotal = 0 then Inl UndefinedBehavior else Inr (sizeRestored + size_mf f))))
   | Some e \<Rightarrow> Inl e)"

text \<open>The local process reads the parameters in the same order.\<close>

record RestoreFileParam =
  repoFile :: "string option"
  repoIdx_rf :: u32
  repoFileReference :: "string option"
  repoFileCompressType :: u32
  pgFile :: "string option"
  pgFileChecksum :: "string option"
  pgFileZero :: bool
  pgFileSize :: u64
  pgFileModified :: u64
  pgFileMode :: u32
  pgFileUser :: "string option"
  pgFileGroup :: "string option"
  copyTimeBegin :: u64
  delta_rf :: bool
  deltaForce :: bool
  cipherPass :: "string option"

definition restoreFileParamRead :: "(PackRead, RestoreFileParam) prog" where
  "restoreFileParamRead =
     bindP (pckReadStr 0 None) (\<lambda>repoFile'.
     bindP (pckReadU32 0 0) (\<lambda>repoIdx'.
     bindP (pckReadStr 0 None) (\<lambda>reference'.
     bindP (pckReadU32 0 0) (\<lambda>compressType'.
     bindP (pckReadStr 0 None) (\<lambda>pgFile'.
     bindP (pckReadStr 0 None) (\<lambda>checksum'.
     bindP (pckReadBool 0 False) (\<lambda>zero'.
     bindP (pckReadU64 0 0) (\<lambda>size'.
     bindP (pckReadTime 0 0) (\<lambda>modified'.
     bindP (pckReadMode 0 0) (\<lambda>mode'.
     bindP (pckReadStr 0 None) (\<lambda>user'.
     bindP (pckReadStr 0 None) (\<lambda>group'.
     bindP (pckReadTime 0 0) (\<lambda>copyTime'.
     bindP (pckReadBool 0 False) (\<lambda>delta'.
     bindP (pckReadBool 0 False) (\<lambda>force'.
     bindP (pckReadStr 0 None) (\<lambda>pass'.
     retP \<lparr>repoFile = repoFile', repoIdx_rf = repoIdx', repoFileReference = reference', repoFileCompressType = compressType',
       pgFile = pgFile', pgFileChecksum = checksum', pgFileZero = zero', pgFileSize = size', pgFileModified = modified',
       pgFileMode = mode', pgFileUser = user', pgFileGroup = group', copyTimeBegin = copyTime', delta_rf = delta',
       deltaForce = force', cipherPass = pass'\<rparr>))))))))))))))))"

section \<open>Queues and jobs of backup\<close>

definition backupProcessQueueComparator :: "JobFile comparator" where
  "backupProcessQueueComparator item1 item2 =
     (if size_mf item1 < size_mf item2 then -1
      else if size_mf item1 > size_mf item2 then 1
      else strCmp (Some (name_mf item1)) (Some (name_mf item2)))"

record BackupQueueState =
  backupSize :: u64
  fileTotal :: nat
  pgControlFound :: bool
  queues_bq :: "JobFile list list"

text \<open>
  Files that are only references are left out unless a delta is checked. In a backup from a standby the files
  of the primary have the first queue.
\<close>

fun backupQueueFill :: "bool \<Rightarrow> bool \<Rightarrow> string list \<Rightarrow> JobFile list \<Rightarrow> BackupQueueState \<Rightarrow> BackupQueueState result" where
  "backupQueueFill backupStandby delta targets [] st = Inr st"
| "backupQueueFill backupStandby delta targets (f # fs) st =
     (if reference f \<noteq> None \<and> (\<not> delta \<or> size_mf f = 0) then backupQueueFill backupStandby delta targets fs st
      else
        bindE (if backupStandby \<and> primary f then Inr 0
               else mapE (\<lambda>targetIdx. targetIdx + (if backupStandby then 1 else 0)) (targetScan (name_mf f) targets 0)) (\<lambda>queueIdx.
        backupQueueFill backupStandby delta targets fs
          \<lparr>backupSize = backupSize st + size_mf f, fileTotal = fileTotal st + 1,
           pgControlFound = (pgControlFound st \<or> name_mf f = pgControlName), queues_bq = queueAdd (queues_bq st) queueIdx f\<rparr>))"

definition backupProcessQueue :: "bool \<Rightarrow> bool \<Rightarrow> bool \<Rightarrow> JobManifest \<Rightarrow> (u64 \<times> JobFile list list) result" where
  "backupProcessQueue backupStandby delta online manifest =
     (let targets = processTargets manifest
      in bindE (backupQueueFill backupStandby delta targets (fileList manifest)
           \<lparr>backupSize = 0, fileTotal = 0, pgControlFound = False,
            queues_bq = replicate (length targets + (if backupStandby then 1 else 0)) []\<rparr>) (\<lambda>st.
         if \<not> pgControlFound st \<and> online then Inl FileMissingError
         else if fileTotal st = 0 then Inl FileMissingError
         else Inr (backupSize st, map (msort (lstComparatorDesc backupProcessQueueComparator)) (queues_bq st))))"

definition backupJobQueueNext :: "nat \<Rightarrow> int \<Rightarrow> nat \<Rightarrow> int" where
  "backupJobQueueNext clientIdx queueIdx queueTotal =
     (let idx = queueIdx + (if clientIdx mod 2 \<noteq> 0 then -1 else 1)
      in if idx < 0 then int queueTotal - 1 else if idx = int queueTotal then 0 else idx)"

record BackupJobData =
  backupLabel_bd :: string
  backupStandby_bd :: bool
  cipherSubPass_bd :: "string option"
  compressType_bd :: u32
  compressLevel_bd :: u32
  delta_bd :: bool
  lsnStart_bd :: u64
  queueList_bd :: "JobFile list list"

definition PROTOCOL_COMMAND_BACKUP_FILE :: u64 where "PROTOCOL_COMMAND_BACKUP_FILE = 0x36e020"
definition cipherTypeNone :: u64 where "cipherTypeNone = 0x2b9ee0"
definition cipherTypeAes256Cbc :: u64 where "cipherTypeAes256Cbc = 0xc43dfbbcdcca10"

definition backupJobParam :: "BackupJobData \<Rightarrow> JobFile \<Rightarrow> string option \<Rightarrow> (PackWrite, unit) prog" where
  "backupJobParam jobData f pgPath =
     bindP (pckWriteStr pgPath 0 False None) (\<lambda>_.
     bindP (pckWriteBool (name_mf f \<noteq> pgControlName) 0 False False) (\<lambda>_.
     bindP (pckWriteU64 (size_mf f) 0 False 0) (\<lambda>_.
     bindP (pckWriteBool (\<not> primary f) 0 False False) (\<lambda>_.
     bindP (pckWriteStr (if checksumSha1 f \<noteq> [] then Some (checksumSha1 f) else None) 0 False None) (\<lambda>_.
     bindP (pckWriteBool (checksumPage f) 0 False False) (\<lambda>_.
     bindP (pckWriteU64 (lsnStart_bd jobData) 0 False 0) (\<lambda>_.
     bindP (pckWriteStr (Some (name_mf f)) 0 False None) (\<lambda>_.
     bindP (pckWriteBool (reference f \<noteq> None) 0 False False) (\<lambda>_.
     bindP (pckWriteU32 (compressType_bd jobData) 0 False 0) (\<lambda>_.
     bindP (pckWriteI32 (compressLevel_bd jobData) 0 False 0) (\<lambda>_.
     bindP (pckWriteStr (Some (backupLabel_bd jobData)) 0 False None) (\<lambda>_.
     bindP (pckWriteBool (delta_bd jobData) 0 False False) (\<lambda>_.
     bindP (pckWriteU64 (if cipherSubPass_bd jobData = None then cipherTypeNone else cipherTypeAes256Cbc) 0 False 0) (\<lambda>_.
     pckWriteStr (cipherSubPass_bd jobData) 0 False None))))))))))))))"

definition backupJobNew :: "BackupJobData \<Rightarrow> JobFile \<Rightarrow> ProtocolCommand result" where
  "backupJobNew jobData f =
     bindE (protocolCommandNew PROTOCOL_COMMAND_BACKUP_FILE) (\<lambda>cmd.
     bindE (manifestPathPg (name_mf f)) (\<lambda>pgPath.
     case backupJobParam jobData f pgPath (protocolCommandParam cmd) of
       (Inl e, _) \<Rightarrow> Inl e
     | (Inr _, param) \<Rightarrow> Inr (cmd\<lparr>pack := Some param\<rparr>)))"

text \<open>The first client of a backup from a standby only takes files of the primary, the other clients none of them.\<close>

definition backupJobCallback :: "(string, ProtocolCommand, BackupJobData) ParallelJobCallback" where
  "backupJobCallback jobData clientIdx =
     (let queueOffset = (if backupStandby_bd jobData \<and> clientIdx > 0 then 1 else 0);
          queueTotal = length (queueList_bd jobData) - queueOffset;
          onlyPrimary = (backupStandby_bd jobData \<and> clientIdx = 0)
      in if \<not> onlyPrimary \<and> queueTotal = 0 \<or> queueList_bd jobData = [] then Inl UndefinedBehavior
         else
           let queueIdx = (if onlyPrimary then 0 else int (clientIdx mod queueTotal))
           in mapE (\<lambda>(job, queues). (job, jobData\<lparr>queueList_bd := queues\<rparr>))
                (jobScan (\<lambda>queueIdx. if onlyPrimary then queueIdx else backupJobQueueNext clientIdx queueIdx queueTotal) queueOffset
                  (backupJobNew jobData) (if onlyPrimary then 1 else queueTotal) (queueList_bd jobData) queueIdx queueIdx))"

record BackupFileParam =
  pgFile_bf :: "string option"
  pgFileIgnoreMissing :: bool
  pgFileSize_bf :: u64
  pgFileCopyExactSize :: bool
  pgFileChecksum_bf :: "string option"
  pgFileChecksumPage :: bool
  pgFileChecksumPageLsnLimit :: u64
  repoFile_bf :: "string option"
  repoFileHasReference :: bool
  repoFileCompressType_bf :: u32
  repoFileCompressLevel :: u32
  backupLabel_bf :: "string option"
  delta_bf :: bool
  cipherType :: u64
  cipherPass_bf :: "string option"

definition backupFileParamRead :: "(PackRead, BackupFileParam) prog" where
  "backupFileParamRead =
     bindP (pckReadStr 0 None) (\<lambda>pgFile'.
     bindP (pckReadBool 0 False) (\<lambda>ignoreMissing'.
     bindP (pckReadU64 0 0) (\<lambda>size'.
     bindP (pckReadBool 0 False) (\<lambda>exact'.
     bindP (pckReadStr 0 None) (\<lambda>checksum'.
     bindP (pckReadBool 0 False) (\<lambda>page'.
     bindP (pckReadU64 0 0) (\<lambda>lsn'.
     bindP (pckReadStr 0 None) (\<lambda>repoFile'.
     bindP (pckReadBool 0 False) (\<lambda>reference'.
     bindP (pckReadU32 0 0) (\<lambda>compressType'.
     bindP (pckReadI32 0 0) (\<lambda>compressLevel'.
     bindP (pckReadStr 0 None) (\<lambda>label'.
     bindP (pckReadBool 0 False) (\<lambda>delta'.
     bindP (pckReadU64 0 0) (\<lambda>cipher'.
     bindP (pckReadStr 0 None) (\<lambda>pass'.
     retP \<lparr>pgFile_bf = pgFile', pgFileIgnoreMissing = ignoreMissing', pgFileSize_bf = size', pgFileCopyExactSize = exact',
       pgFileChecksum_bf = checksum', pgFileChecksumPage = page', pgFileChecksumPageLsnLimit = lsn', repoFile_bf = repoFile',
       repoFileHasReference = reference', repoFileCompressType_bf = compressType', repoFileCompressLevel = compressLevel',
       backupLabel_bf = label', delta_bf = delta', cipherType = cipher', cipherPass_bf = pass'\<rparr>)))))))))))))))"

end
