(* ===== verification/Jobs.thy ===== *)
theory Jobs
  imports JobQueues
begin

text \<open>
  The files of a restore or a backup: all files of the manifest are in the queues, the callbacks are sources of
  jobs in the sense of the parallel executor, the parameters arrive at the local process, and the
  loop of restore ends with every file restored once.
\<close>

section \<open>Scanning the queues\<close>

definition visit :: "nat \<Rightarrow> nat \<Rightarrow> nat \<Rightarrow> nat \<Rightarrow> int" where
  "visit client n start k = (if client mod 2 \<noteq> 0 then int start - int k else int start + int k) mod int n"

lemma mod_succ: "(0::int) < n \<Longrightarrow> (x + 1) mod n = (if x mod n + 1 = n then 0 else x mod n + 1)"
proof -
  assume n: "0 < n"
  have "(x + 1) mod n = (x mod n + 1) mod n" by (simp add: mod_add_left_eq)
  moreover have "0 \<le> x mod n" "x mod n < n" using n by auto
  ultimately show ?thesis by (auto simp: mod_pos_pos_trivial)
qed

lemma queueNext_visit:
  assumes "0 < n"
  shows "restoreJobQueueNext client (visit client n start k) n = visit client n start (Suc k)"
proof (cases "client mod 2 = 0")
  case True
  let ?x = "int start + int k"
  have "0 \<le> ?x mod int n" using assms by simp
  then have "\<not> ?x mod int n + 1 < 0" by linarith
  then have "restoreJobQueueNext client (?x mod int n) n = (?x + 1) mod int n"
    using mod_succ [of "int n" ?x] assms True by (simp add: restoreJobQueueNext_def Let_def)
  then show ?thesis using True by (simp add: visit_def ac_simps)
next
  case False
  define x where "x = int start - int k - 1"
  define m where "m = x mod int n"
  have m: "0 \<le> m" "m < int n" using assms by (auto simp: m_def)
  have s: "(x + 1) mod int n = (if m + 1 = int n then 0 else m + 1)" using mod_succ [of "int n" x] assms by (simp add: m_def)
  have "restoreJobQueueNext client ((x + 1) mod int n) n = m"
    unfolding restoreJobQueueNext_def Let_def s using False m by (cases "m + 1 = int n") auto
  moreover have "visit client n start k = (x + 1) mod int n" "visit client n start (Suc k) = m"
    using False by (simp_all add: visit_def m_def x_def algebra_simps)
  ultimately show ?thesis by simp
qed

lemma visit_range: "0 < n \<Longrightarrow> 0 \<le> visit client n start k \<and> visit client n start k < int n"
  by (simp add: visit_def)

lemma visit_0: "start < n \<Longrightarrow> visit client n start 0 = int start"
  by (simp add: visit_def)

lemma visit_n: "visit client n start n = visit client n start 0"
  by (simp add: visit_def)

lemma visit_again:
  assumes "0 < k" "k < n"
  shows "visit client n start k \<noteq> visit client n start 0"
proof
  assume "visit client n start k = visit client n start 0"
  then have "int n dvd int k" by (auto simp: visit_def mod_eq_dvd_iff split: if_splits)
  then have "n dvd k" by simp
  then show False using assms by (auto dest: dvd_imp_le)
qed

lemma visit_onto:
  assumes "i < n"
  shows "\<exists>k < n. visit client n start k = int i"
proof -
  let ?d = "(if client mod 2 \<noteq> 0 then int start - int i else int i - int start) mod int n"
  have d: "0 \<le> ?d" "?d < int n" using assms by auto
  have "visit client n start (nat ?d) = int i" unfolding visit_def using assms d
    by (auto simp: mod_diff_right_eq mod_add_right_eq)
  then show ?thesis using d by (intro exI [of _ "nat ?d"]) (auto simp: nat_less_iff)
qed

text \<open>A scan along any sequence of queues that comes back to its start.\<close>

lemma jobScan_visit:
  assumes "\<And>k. k < n \<Longrightarrow> queueNext (v k) = v (Suc k)" "v n = v 0" "\<And>k. 0 < k \<Longrightarrow> k < n \<Longrightarrow> v k \<noteq> v 0"
  shows "k < n \<Longrightarrow> \<forall>j < k. queues ! (nat (v j) + offset) = [] \<Longrightarrow>
    (if \<forall>j < n. queues ! (nat (v j) + offset) = []
     then jobScan queueNext offset newJob (n - k) queues (v k) (v 0) = Inr (None, queues)
     else \<exists>j < n. \<exists>f rest. queues ! (nat (v j) + offset) = f # rest \<and> jobScan queueNext offset newJob (n - k) queues (v k) (v 0) =
       bindE (newJob f) (\<lambda>cmd. Inr (Some (name_mf f, cmd), queues[nat (v j) + offset := rest])))"
proof (induction "n - k" arbitrary: k)
  case (Suc m)
  obtain m' where m': "n - k = Suc m'" using Suc.prems(1) by (cases "n - k") auto
  show ?case
  proof (cases "queues ! (nat (v k) + offset)")
    case (Cons f rest)
    then have ne: "\<not> (\<forall>j < n. queues ! (nat (v j) + offset) = [])" using Suc.prems(1) by (metis list.distinct(1))
    show ?thesis unfolding if_not_P [OF ne]
      using Cons m' Suc.prems(1) by (intro exI [of _ k] exI [of _ f] exI [of _ rest]) simp
  next
    case Nil
    have nx: "queueNext (v k) = v (Suc k)" using assms(1) Suc.prems(1) .
    have all: "\<forall>j < Suc k. queues ! (nat (v j) + offset) = []" using Suc.prems(2) Nil by (auto simp: less_Suc_eq)
    show ?thesis
    proof (cases "Suc k = n")
      case True
      then show ?thesis using all nx assms(2) Nil m' by (auto simp: Let_def)
    next
      case False
      then have k: "Suc k < n" using Suc.prems(1) by simp
      then have "jobScan queueNext offset newJob (n - k) queues (v k) (v 0) = jobScan queueNext offset newJob (n - Suc k) queues (v (Suc k)) (v 0)"
        using nx Nil m' assms(3) [of "Suc k"] diff_Suc [of n k] by (auto simp: Let_def)
      then show ?thesis using Suc.hyps(1) [of "Suc k"] Suc.hyps(2) all k by simp
    qed
  qed
qed simp

section \<open>Files in queues\<close>

definition queueNames :: "JobFile list list \<Rightarrow> string multiset" where
  "queueNames queues = mset (map name_mf (concat queues))"

lemma queueNames_remove:
  assumes "i < length queues" "queues ! i = f # rest"
  shows "queueNames queues = add_mset (name_mf f) (queueNames (queues[i := rest]))"
proof -
  have "queues = take i queues @ (f # rest) # drop (Suc i) queues" using assms id_take_nth_drop by metis
  then have "concat queues = concat (take i queues) @ (f # rest) @ concat (drop (Suc i) queues)" by (metis concat.simps(2) concat_append)
  moreover have "queues[i := rest] = take i queues @ rest # drop (Suc i) queues" using assms(1) by (simp add: upd_conv_take_nth_drop)
  ultimately show ?thesis by (simp add: queueNames_def)
qed

lemma queueNames_empty: "\<forall>i < length queues. queues ! i = [] \<Longrightarrow> queueNames queues = {#}"
  unfolding queueNames_def by (metis concat_eq_Nil_conv in_set_conv_nth list.map(1) mset.simps(1))

text \<open>The outcome of a callback that scans queues from \<open>offset\<close> on.\<close>

definition scanned :: "(JobFile \<Rightarrow> ProtocolCommand result) \<Rightarrow> nat set \<Rightarrow> JobFile list list \<Rightarrow>
    ((string \<times> ProtocolCommand) option \<times> JobFile list list) result \<Rightarrow> bool" where
  "scanned newJob idxs queues r \<longleftrightarrow>
     (if \<forall>i \<in> idxs. queues ! i = [] then r = Inr (None, queues)
      else \<exists>i \<in> idxs. \<exists>f rest. queues ! i = f # rest \<and>
        r = bindE (newJob f) (\<lambda>cmd. Inr (Some (name_mf f, cmd), queues[i := rest])))"

lemma jobScan_queues:
  assumes "start < n" "\<And>queueIdx. queueNext queueIdx = restoreJobQueueNext client queueIdx n"
  shows "scanned newJob {offset..<offset + n} queues (jobScan queueNext offset newJob n queues (int start) (int start))"
proof -
  let ?v = "visit client n start"
  have n: "0 < n" using assms(1) by simp
  have range: "nat (?v k) + offset \<in> {offset..<offset + n}" for k using visit_range [OF n, of client start k] by auto
  have onto: "\<exists>k < n. nat (?v k) + offset = i" if "i \<in> {offset..<offset + n}" for i
  proof -
    have "i - offset < n" using that by auto
    then obtain k where "k < n" "?v k = int (i - offset)" using visit_onto by blast
    then show ?thesis using that by (intro exI [of _ k]) auto
  qed
  have "if \<forall>j < n. queues ! (nat (?v j) + offset) = []
     then jobScan queueNext offset newJob (n - 0) queues (?v 0) (?v 0) = Inr (None, queues)
     else \<exists>j < n. \<exists>f rest. queues ! (nat (?v j) + offset) = f # rest \<and> jobScan queueNext offset newJob (n - 0) queues (?v 0) (?v 0) =
       bindE (newJob f) (\<lambda>cmd. Inr (Some (name_mf f, cmd), queues[nat (?v j) + offset := rest]))"
    by (rule jobScan_visit) (use n assms(2) queueNext_visit visit_n visit_again in auto)
  moreover have "(\<forall>j < n. queues ! (nat (?v j) + offset) = []) \<longleftrightarrow> (\<forall>i \<in> {offset..<offset + n}. queues ! i = [])"
    using range onto by metis
  moreover have "?v 0 = int start" by (rule visit_0 [OF assms(1)])
  ultimately show ?thesis unfolding scanned_def diff_zero using range by (simp only: if_split) metis
qed

section \<open>Parameters\<close>

lemma bindP_unit: "bindP m (\<lambda>_. retP ()) = m"
  by (auto simp: fun_eq_iff run_simps split: prod.splits sum.splits)

lemma writeField_strField: "writeField (strField s) = pckWriteStr s 0 False None"
  by (cases s) simp_all

lemma writeFields_packOf: "writeFields fs protocolPackNew = (Inr (), packOf fs)"
proof -
  have p: "wr [] [tagAt pckTypeMapObj 0 0] protocolPackNew"
    by (simp add: wr_def protocolPackNew_def pckWriteNewBuf_def pckWriteNewInternal_def containerTag_def tagAt_def)
  obtain l n where "yields (wr [] [tagAt pckTypeMapObj 0 0]) (writeFields fs) () (wr ([] @ encFields 0 fs) [tagAt pckTypeMapObj l n])"
    using yields_writeFieldAll by blast
  from yieldsD [OF this p] show ?thesis by (auto simp: packOf_def)
qed

lemma pckWriteEnd_packOf:
  obtains w where "pckWriteEnd (packOf fs) = (Inr (), w)" "bufferW w = packBytes fs"
proof -
  have p: "wr [] [containerTag pckTypeMapObj] protocolPackNew" "writeIo protocolPackNew = None"
    by (auto simp: wr_def protocolPackNew_def pckWriteNewBuf_def pckWriteNewInternal_def)
  obtain w where w: "writePack fs protocolPackNew = (Inr (), w)" "writeIo w = None"
      "(case writeIo w of None \<Rightarrow> bufferW w | Some io \<Rightarrow> io) = packBytes fs"
    by (rule writePack_run [OF p(1), of fs]) (use p(2) in auto)
  then have "pckWriteEnd (packOf fs) = (Inr (), w)" using writeFields_packOf [of fs] by (simp add: writePack_def run_simps)
  then show ?thesis using that w by simp
qed

lemma strField_ok: "fieldOk (strField s) \<longleftrightarrow> (\<forall>x \<in> set_option s. int (length x) \<le> STRING_SIZE_MAX)"
  by (cases s) simp_all

definition restoreFields :: "bool \<Rightarrow> bool \<Rightarrow> RestoreJobData \<Rightarrow> JobFile \<Rightarrow> string \<Rightarrow> PackField list" where
  "restoreFields delta force jobData f pgPath =
     [strField (Some (name_mf f)), PackU32 (repoIdx jobData),
      strField (Some (case reference f of Some r \<Rightarrow> r | None \<Rightarrow> backupLabel_jm (manifest_rd jobData))),
      PackU32 (backupOptionCompressType (manifest_rd jobData)), strField (Some pgPath), strField (Some (checksumSha1 f)),
      PackBool (restoreFileZeroed (name_mf f) (zeroExp jobData)), PackU64 (size_mf f), PackTime (timestamp_mf f), PackMode (mode_mf f),
      strField (user_mf f), strField (group_mf f), PackTime (backupTimestampCopyStart (manifest_rd jobData)), PackBool delta,
      PackBool (delta \<and> force), strField (cipherSubPass jobData)]"

lemma restoreJobParam_fields: "restoreJobParam delta force jobData f pgPath = writeFields (restoreFields delta force jobData f pgPath)"
  unfolding restoreJobParam_def restoreFields_def by (simp only: writeFields.simps writeField.simps writeField_strField bindP_unit)

lemma restoreJobNew_run:
  "restoreFilePgPath (manifest_rd jobData) (name_mf f) = Inr pgPath \<Longrightarrow> restoreJobNew delta force jobData f =
     Inr \<lparr>command = PROTOCOL_COMMAND_RESTORE_FILE, pack = Some (packOf (restoreFields delta force jobData f pgPath))\<rparr>"
  by (simp add: restoreJobNew_def protocolCommandNew_def PROTOCOL_COMMAND_RESTORE_FILE_def protocolCommandParam_def
      restoreJobParam_fields writeFields_packOf)

definition backupFields :: "BackupJobData \<Rightarrow> JobFile \<Rightarrow> string option \<Rightarrow> PackField list" where
  "backupFields jobData f pgPath =
     [strField pgPath, PackBool (name_mf f \<noteq> pgControlName), PackU64 (size_mf f), PackBool (\<not> primary f),
      strField (if checksumSha1 f \<noteq> [] then Some (checksumSha1 f) else None), PackBool (checksumPage f), PackU64 (lsnStart_bd jobData),
      strField (Some (name_mf f)), PackBool (reference f \<noteq> None), PackU32 (compressType_bd jobData), PackI32 (compressLevel_bd jobData),
      strField (Some (backupLabel_bd jobData)), PackBool (delta_bd jobData),
      PackU64 (if cipherSubPass_bd jobData = None then cipherTypeNone else cipherTypeAes256Cbc), strField (cipherSubPass_bd jobData)]"

lemma backupJobParam_fields: "backupJobParam jobData f pgPath = writeFields (backupFields jobData f pgPath)"
  unfolding backupJobParam_def backupFields_def by (simp only: writeFields.simps writeField.simps writeField_strField bindP_unit)

lemma backupJobNew_run:
  "manifestPathPg (name_mf f) = Inr pgPath \<Longrightarrow> backupJobNew jobData f =
     Inr \<lparr>command = PROTOCOL_COMMAND_BACKUP_FILE, pack = Some (packOf (backupFields jobData f pgPath))\<rparr>"
  by (simp add: backupJobNew_def protocolCommandNew_def PROTOCOL_COMMAND_BACKUP_FILE_def protocolCommandParam_def
      backupJobParam_fields writeFields_packOf)

lemma readsFields:
  assumes "\<And>r. following pckTypeMapObj 0 fs [] [] r \<Longrightarrow> \<exists>s. m r = (Inr x, s)" "\<forall>f \<in> set fs. fieldOk f" "length fs < 2 ^ 32 - 2"
  shows "fst (m (the (pckReadNewBuf (Some (packBytes fs))))) = Inr x"
proof -
  let ?r = "the (pckReadNewBuf (Some (packBytes fs)))"
  have "at pckTypeMapObj 0 (packBytes fs @ []) [] ?r"
    by (simp add: at_def rd_def good_def core_def unread_def tagAt_def containerTag_def pckReadNewBuf_def pckReadNewInternal_def)
  then have "ready pckTypeMapObj 0 0 (nextItem 0 fs []) [] ?r"
    using at_ready [of pckTypeMapObj 0 fs "[]" "[]" ?r] assms(3) by (simp add: packBytes_def)
  then have "following pckTypeMapObj 0 fs [] [] ?r" using assms(2,3) by (auto simp: following_def)
  then show ?thesis using assms(1) by fastforce
qed

lemma yields_run: "yields P m x Q \<Longrightarrow> P s \<Longrightarrow> \<exists>s'. m s = (Inr x, s')"
  unfolding yields_def by blast

text \<open>What the local process should restore.\<close>

definition restoreParams :: "bool \<Rightarrow> bool \<Rightarrow> RestoreJobData \<Rightarrow> JobFile \<Rightarrow> string \<Rightarrow> RestoreFileParam" where
  "restoreParams delta force jobData f pgPath =
     \<lparr>repoFile = Some (name_mf f), repoIdx_rf = repoIdx jobData,
        repoFileReference = Some (case reference f of Some r \<Rightarrow> r | None \<Rightarrow> backupLabel_jm (manifest_rd jobData)),
        repoFileCompressType = backupOptionCompressType (manifest_rd jobData), pgFile = Some pgPath, pgFileChecksum = Some (checksumSha1 f),
        pgFileZero = restoreFileZeroed (name_mf f) (zeroExp jobData), pgFileSize = size_mf f, pgFileModified = timestamp_mf f,
        pgFileMode = mode_mf f, pgFileUser = user_mf f, pgFileGroup = group_mf f,
        copyTimeBegin = backupTimestampCopyStart (manifest_rd jobData), delta_rf = delta, deltaForce = (delta \<and> force),
        cipherPass = cipherSubPass jobData\<rparr>"

definition backupParams :: "BackupJobData \<Rightarrow> JobFile \<Rightarrow> string option \<Rightarrow> BackupFileParam" where
  "backupParams jobData f pgPath =
     \<lparr>pgFile_bf = pgPath, pgFileIgnoreMissing = (name_mf f \<noteq> pgControlName), pgFileSize_bf = size_mf f, pgFileCopyExactSize = (\<not> primary f),
      pgFileChecksum_bf = (if checksumSha1 f \<noteq> [] then Some (checksumSha1 f) else None), pgFileChecksumPage = checksumPage f,
      pgFileChecksumPageLsnLimit = lsnStart_bd jobData, repoFile_bf = Some (name_mf f), repoFileHasReference = (reference f \<noteq> None),
      repoFileCompressType_bf = compressType_bd jobData, repoFileCompressLevel = compressLevel_bd jobData,
      backupLabel_bf = Some (backupLabel_bd jobData), delta_bf = delta_bd jobData,
      cipherType = (if cipherSubPass_bd jobData = None then cipherTypeNone else cipherTypeAes256Cbc), cipherPass_bf = cipherSubPass_bd jobData\<rparr>"

lemma restoreFields_ok:
  assumes "\<forall>s \<in> {name_mf f, backupLabel_jm (manifest_rd jobData), pgPath, checksumSha1 f} \<union> set_option (reference f) \<union> set_option (user_mf f) \<union>
      set_option (group_mf f) \<union> set_option (cipherSubPass jobData). int (length s) \<le> STRING_SIZE_MAX"
  shows "\<forall>f \<in> set (restoreFields delta force jobData f pgPath). fieldOk f" "length (restoreFields delta force jobData f pgPath) < 2 ^ 32 - 2"
  using assms strField_ok by (auto simp: restoreFields_def split: option.splits)

lemma restoreFileParamRead_fields:
  assumes "\<forall>s \<in> {name_mf f, backupLabel_jm (manifest_rd jobData), pgPath, checksumSha1 f} \<union> set_option (reference f) \<union> set_option (user_mf f) \<union>
      set_option (group_mf f) \<union> set_option (cipherSubPass jobData). int (length s) \<le> STRING_SIZE_MAX"
  shows "fst (restoreFileParamRead (the (pckReadNewBuf (Some (packBytes (restoreFields delta force jobData f pgPath)))))) =
    Inr (restoreParams delta force jobData f pgPath)"
proof (rule readsFields [OF _ restoreFields_ok [OF assms]], rule yields_run)
  let ?fs = "restoreFields delta force jobData f pgPath"
  show "yields (following pckTypeMapObj 0 ?fs [] []) restoreFileParamRead (restoreParams delta force jobData f pgPath) (\<lambda>_. True)"
    unfolding restoreFileParamRead_def restoreFields_def restoreParams_def
    by (rule yields_bind [OF yields_strField],
      rule yields_bind [OF yields_fields(6)],
      rule yields_bind [OF yields_strField],
      rule yields_bind [OF yields_fields(6)],
      rule yields_bind [OF yields_strField],
      rule yields_bind [OF yields_strField],
      rule yields_bind [OF yields_fields(1)],
      rule yields_bind [OF yields_fields(7)],
      rule yields_bind [OF yields_fields(5)],
      rule yields_bind [OF yields_fields(3)],
      rule yields_bind [OF yields_strField],
      rule yields_bind [OF yields_strField],
      rule yields_bind [OF yields_fields(5)],
      rule yields_bind [OF yields_fields(1)],
      rule yields_bind [OF yields_fields(1)],
      rule yields_bind [OF yields_strField], rule yields_post [OF yields_ret], rule TrueI)
qed

text \<open>
  The parameters of a restore job arrive: reading the pack that is made for a file gives every value back that
  was put in, in the same role.
\<close>

lemma restoreFileParam_packed:
  assumes "restoreFilePgPath (manifest_rd jobData) (name_mf f) = Inr pgPath"
    and "\<forall>s \<in> {name_mf f, backupLabel_jm (manifest_rd jobData), pgPath, checksumSha1 f} \<union> set_option (reference f) \<union> set_option (user_mf f) \<union>
      set_option (group_mf f) \<union> set_option (cipherSubPass jobData). int (length s) \<le> STRING_SIZE_MAX"
  shows "\<exists>cmd param w. restoreJobNew delta force jobData f = Inr cmd \<and> pack cmd = Some param \<and> pckWriteEnd param = (Inr (), w) \<and>
    fst (restoreFileParamRead (the (pckReadNewBuf (Some (bufferW w))))) = Inr (restoreParams delta force jobData f pgPath)"
proof -
  let ?fs = "restoreFields delta force jobData f pgPath"
  obtain w where w: "pckWriteEnd (packOf ?fs) = (Inr (), w)" "bufferW w = packBytes ?fs" by (rule pckWriteEnd_packOf)
  have "fst (restoreFileParamRead (the (pckReadNewBuf (Some (packBytes ?fs))))) = Inr (restoreParams delta force jobData f pgPath)"
    by (rule restoreFileParamRead_fields [OF assms(2)])
  then show ?thesis using w restoreJobNew_run [OF assms(1), of delta force] by auto
qed

text \<open>A manifest with two files of the data directory and one of a tablespace.\<close>

abbreviation sampleFile :: "string \<Rightarrow> u64 \<Rightarrow> JobFile" where
  "sampleFile n size0 \<equiv> \<lparr>name_mf = n, reference = None, size_mf = size0, sizeRepo = 0, primary = False, checksumPage = False, mode_mf = 384,
     checksumSha1 = ''0a'', user_mf = Some ''pg'', group_mf = None, timestamp_mf = 7\<rparr>"

abbreviation sampleManifest :: JobManifest where
  "sampleManifest \<equiv> \<lparr>targetList = [\<lparr>targetName = ''pg_data'', targetPath = ''/pg'', tablespaceId = 0\<rparr>,
       \<lparr>targetName = ''pg_tblspc/1'', targetPath = ''/ts'', tablespaceId = 1\<rparr>],
     fileList = [sampleFile ''pg_data/a'' 5, sampleFile ''pg_data/b'' 9, sampleFile ''pg_tblspc/1/c'' 3], backupLabel_jm = ''20191002-070640F'',
     backupTimestampCopyStart = 8, backupOptionCompressType = 1\<rparr>"

abbreviation sampleJobData :: RestoreJobData where
  "sampleJobData \<equiv> \<lparr>repoIdx = 0, manifest_rd = sampleManifest,
     queueList = [[sampleFile ''pg_data/b'' 9, sampleFile ''pg_data/a'' 5], [sampleFile ''pg_tblspc/1/c'' 3]], zeroExp = None, cipherSubPass = None\<rparr>"

abbreviation sampleBackupData :: BackupJobData where
  "sampleBackupData \<equiv> \<lparr>backupLabel_bd = ''20191002-070640F'', backupStandby_bd = False, cipherSubPass_bd = None, compressType_bd = 1,
     compressLevel_bd = 6, delta_bd = False, lsnStart_bd = 77, queueList_bd = queueList sampleJobData\<rparr>"

text \<open>
  The parameters of a file in a tablespace.
\<close>

lemma restoreFileParam_packed_witness:
  "\<exists>cmd param w. restoreJobNew True False sampleJobData (sampleFile ''pg_tblspc/1/c'' 3) = Inr cmd \<and> pack cmd = Some param \<and> pckWriteEnd param = (Inr (), w) \<and>
    fst (restoreFileParamRead (the (pckReadNewBuf (Some (bufferW w))))) =
      Inr (restoreParams True False sampleJobData (sampleFile ''pg_tblspc/1/c'' 3) ''/pg/pg_tblspc/1/c'')"
proof (rule restoreFileParam_packed)
  show "restoreFilePgPath (manifest_rd sampleJobData) (name_mf (sampleFile ''pg_tblspc/1/c'' 3)) = Inr ''/pg/pg_tblspc/1/c''" by code_simp
qed (simp add: STRING_SIZE_MAX_def)

text \<open>
  The parameters of a backup job arrive: reading the pack that is made for a file gives every value back that
  was put in, in the same role.
\<close>

lemma backupFileParam_packed:
  assumes "manifestPathPg (name_mf f) = Inr pgPath"
    and "\<forall>s \<in> {name_mf f, backupLabel_bd jobData, checksumSha1 f} \<union> set_option pgPath \<union> set_option (cipherSubPass_bd jobData).
      int (length s) \<le> STRING_SIZE_MAX"
  shows "\<exists>cmd param w. backupJobNew jobData f = Inr cmd \<and> pack cmd = Some param \<and> pckWriteEnd param = (Inr (), w) \<and>
    fst (backupFileParamRead (the (pckReadNewBuf (Some (bufferW w))))) = Inr (backupParams jobData f pgPath)"
proof -
  let ?fs = "backupFields jobData f pgPath"
  have ok: "\<forall>f \<in> set ?fs. fieldOk f" "length ?fs < 2 ^ 32 - 2"
    using assms(2) strField_ok by (auto simp: backupFields_def split: option.splits)
  obtain w where w: "pckWriteEnd (packOf ?fs) = (Inr (), w)" "bufferW w = packBytes ?fs" by (rule pckWriteEnd_packOf)
  have "fst (backupFileParamRead (the (pckReadNewBuf (Some (packBytes ?fs))))) = Inr (backupParams jobData f pgPath)"
  proof (rule readsFields [OF _ ok], rule yields_run)
    show "yields (following pckTypeMapObj 0 ?fs [] []) backupFileParamRead (backupParams jobData f pgPath) (\<lambda>_. True)"
      unfolding backupFileParamRead_def backupFields_def backupParams_def
      by (rule yields_bind [OF yields_strField],
        rule yields_bind [OF yields_fields(1)],
        rule yields_bind [OF yields_fields(7)],
        rule yields_bind [OF yields_fields(1)],
        rule yields_bind [OF yields_strField],
        rule yields_bind [OF yields_fields(1)],
        rule yields_bind [OF yields_fields(7)],
        rule yields_bind [OF yields_strField],
        rule yields_bind [OF yields_fields(1)],
        rule yields_bind [OF yields_fields(6)],
        rule yields_bind [OF yields_fields(2)],
        rule yields_bind [OF yields_strField],
        rule yields_bind [OF yields_fields(1)],
        rule yields_bind [OF yields_fields(7)],
        rule yields_bind [OF yields_strField], rule yields_post [OF yields_ret], rule TrueI)
  qed
  then show ?thesis using w backupJobNew_run [OF assms(1), of jobData] by auto
qed

text \<open>
  The parameters of a file in the data directory.
\<close>

lemma backupFileParam_packed_witness:
  "\<exists>cmd param w. backupJobNew sampleBackupData (sampleFile ''pg_data/a'' 5) = Inr cmd \<and> pack cmd = Some param \<and> pckWriteEnd param = (Inr (), w) \<and>
    fst (backupFileParamRead (the (pckReadNewBuf (Some (bufferW w))))) = Inr (backupParams sampleBackupData (sampleFile ''pg_data/a'' 5) (Some ''a''))"
proof (rule backupFileParam_packed)
  show "manifestPathPg (name_mf (sampleFile ''pg_data/a'' 5)) = Inr (Some ''a'')" by code_simp
qed (simp add: STRING_SIZE_MAX_def)

section \<open>Sources of jobs\<close>

lemma queue_taken:
  assumes "j < length queues" "queues ! j = f # rest"
  shows "\<forall>queue \<in> set (queues[j := rest]). set queue \<subseteq> \<Union> (set ` set queues)"
proof
  fix queue assume "queue \<in> set (queues[j := rest])"
  then have "queue = rest \<or> queue \<in> set queues" using set_update_subset_insert by fastforce
  moreover have "set rest \<subseteq> set (queues ! j)" "queues ! j \<in> set queues" using assms nth_mem [OF assms(1)] by auto
  ultimately show "set queue \<subseteq> \<Union> (set ` set queues)" by blast
qed

definition restoreJobsOk :: "nat \<Rightarrow> RestoreJobData \<Rightarrow> bool" where
  "restoreJobsOk clients jobData \<longleftrightarrow> 0 < clients \<and> queueList jobData \<noteq> [] \<and>
     (\<forall>queue \<in> set (queueList jobData). \<forall>f \<in> set queue. \<exists>p. restoreFilePgPath (manifest_rd jobData) (name_mf f) = Inr p)"

definition restoreLeft :: "RestoreJobData \<Rightarrow> string multiset" where
  "restoreLeft jobData = queueNames (queueList jobData)"

text \<open>
  What a call of a callback does: it takes the first file of a queue in the range of the client, or there is none.
\<close>

lemma restoreJobCallback_cases:
  assumes "restoreJobsOk clients d"
  obtains (None) "\<forall>i < length (queueList d). queueList d ! i = []" "restoreJobCallback delta force d c = Inr (None, d)"
  | (Some) i f rest cmd where "i < length (queueList d)" "queueList d ! i = f # rest"
      "restoreJobCallback delta force d c = Inr (Some (name_mf f, cmd), d\<lparr>queueList := (queueList d)[i := rest]\<rparr>)"
proof -
  let ?n = "length (queueList d)"
  let ?r = "jobScan (\<lambda>queueIdx. restoreJobQueueNext c queueIdx ?n) 0 (restoreJobNew delta force d) ?n (queueList d) (int (c mod ?n)) (int (c mod ?n))"
  have n: "?n \<noteq> 0" using assms by (simp add: restoreJobsOk_def)
  have cb: "restoreJobCallback delta force d c = mapE (\<lambda>(job, queues). (job, d\<lparr>queueList := queues\<rparr>)) ?r"
    using n by (simp add: restoreJobCallback_def Let_def)
  have "scanned (restoreJobNew delta force d) {0..<0 + ?n} (queueList d) ?r" by (rule jobScan_queues) (use n in auto)
  then consider "\<forall>i < ?n. queueList d ! i = []" "?r = Inr (None, queueList d)"
    | i f rest where "i < ?n" "queueList d ! i = f # rest" "?r = bindE (restoreJobNew delta force d f) (\<lambda>cmd. Inr (Some (name_mf f, cmd), (queueList d)[i := rest]))"
    unfolding scanned_def by (auto split: if_splits)
  then show thesis
  proof cases
    case 1
    then show ?thesis using None cb by simp
  next
    case (2 i f rest)
    then have "f \<in> set (queueList d ! i)" "queueList d ! i \<in> set (queueList d)" using nth_mem [OF 2(1)] by auto
    then obtain p where "restoreFilePgPath (manifest_rd d) (name_mf f) = Inr p" using assms unfolding restoreJobsOk_def by blast
    then show ?thesis using Some [of i f rest] cb 2 restoreJobNew_run by simp
  qed
qed

interpretation restore_jobs: job_source "restoreJobCallback delta force" "restoreJobsOk clients" restoreLeft clients
  for delta force clients
proof
  fix d d' :: RestoreJobData and i c k p
  assume ok: "restoreJobsOk clients d"
  show "\<exists>r. restoreJobCallback delta force d i = Inr r"
    using restoreJobCallback_cases [OF ok, of delta force i] by metis
  show "restoreJobsOk clients d' \<and> restoreLeft d = add_mset k (restoreLeft d')" if "restoreJobCallback delta force d i = Inr (Some (k, p), d')"
  proof (cases rule: restoreJobCallback_cases [OF ok, of delta force i])
    case (2 j f rest cmd)
    then have d': "d' = d\<lparr>queueList := (queueList d)[j := rest]\<rparr>" "k = name_mf f" using that by auto
    note queue_taken [OF 2(1,2)]
    then have "restoreJobsOk clients d'" using ok unfolding restoreJobsOk_def d' by simp blast
    then show ?thesis using queueNames_remove [OF 2(1,2)] by (simp add: restoreLeft_def d')
  qed (use that in simp)
  show "restoreJobCallback delta force d i = Inr (None, d') \<Longrightarrow> d' = d"
    by (rule restoreJobCallback_cases [OF ok, of delta force i]) auto
  show "restoreJobCallback delta force d c = Inr (None, d) \<Longrightarrow> restoreJobCallback delta force d i = Inr (Some (k, p), d') \<Longrightarrow>
      restoreJobCallback delta force d' c = Inr (None, d')"
    by (rule restoreJobCallback_cases [OF ok, of delta force i], simp, rule restoreJobCallback_cases [OF ok, of delta force c]) auto
  show "restoreLeft d = {#}" if "\<forall>i < clients. restoreJobCallback delta force d i = Inr (None, d)"
  proof -
    have "restoreJobCallback delta force d 0 = Inr (None, d)" using that ok by (simp add: restoreJobsOk_def)
    then have "\<forall>i < length (queueList d). queueList d ! i = []" by (cases rule: restoreJobCallback_cases [OF ok, of delta force 0]) auto
    then show ?thesis using queueNames_empty by (simp add: restoreLeft_def)
  qed
qed

definition backupJobsOk :: "nat \<Rightarrow> BackupJobData \<Rightarrow> bool" where
  "backupJobsOk clients jobData \<longleftrightarrow> 0 < clients \<and> queueList_bd jobData \<noteq> [] \<and>
     (backupStandby_bd jobData \<longrightarrow> 2 \<le> clients \<and> 2 \<le> length (queueList_bd jobData)) \<and>
     (\<forall>queue \<in> set (queueList_bd jobData). \<forall>f \<in> set queue. \<exists>p. manifestPathPg (name_mf f) = Inr p)"

definition backupLeft :: "BackupJobData \<Rightarrow> string multiset" where
  "backupLeft jobData = queueNames (queueList_bd jobData)"

text \<open>The queues of a client.\<close>

definition clientQueues :: "BackupJobData \<Rightarrow> nat \<Rightarrow> nat set" where
  "clientQueues d c = (if backupStandby_bd d then (if c = 0 then {0} else {1..<length (queueList_bd d)}) else {0..<length (queueList_bd d)})"

lemma backupJobQueueNext_same: "backupJobQueueNext = restoreJobQueueNext"
  by (simp add: fun_eq_iff backupJobQueueNext_def restoreJobQueueNext_def)

lemma backupJobCallback_cases:
  assumes "backupJobsOk clients d"
  obtains (None) "\<forall>i \<in> clientQueues d c. queueList_bd d ! i = []" "backupJobCallback d c = Inr (None, d)"
  | (Some) i f rest cmd where "i \<in> clientQueues d c" "i < length (queueList_bd d)" "queueList_bd d ! i = f # rest"
      "backupJobCallback d c = Inr (Some (name_mf f, cmd), d\<lparr>queueList_bd := (queueList_bd d)[i := rest]\<rparr>)"
proof -
  let ?n = "length (queueList_bd d)"
  have n: "?n \<noteq> 0" "backupStandby_bd d \<Longrightarrow> 2 \<le> ?n" using assms by (auto simp: backupJobsOk_def)
  have "\<exists>r. scanned (backupJobNew d) (clientQueues d c) (queueList_bd d) r \<and>
      backupJobCallback d c = mapE (\<lambda>(job, queues). (job, d\<lparr>queueList_bd := queues\<rparr>)) r"
  proof (cases "backupStandby_bd d \<and> c = 0")
    case True
    have "scanned (backupJobNew d) {0} (queueList_bd d) (jobScan (\<lambda>queueIdx. queueIdx) 0 (backupJobNew d) 1 (queueList_bd d) 0 0)"
      by (auto simp: scanned_def split: list.splits)
    then show ?thesis using True n by (auto simp: backupJobCallback_def Let_def clientQueues_def)
  next
    case False
    define off where "off = (if backupStandby_bd d then 1 else 0 :: nat)"
    have off: "off < ?n" "clientQueues d c = {off..<off + (?n - off)}" using False n by (auto simp: off_def clientQueues_def)
    have "scanned (backupJobNew d) {off..<off + (?n - off)} (queueList_bd d)
        (jobScan (\<lambda>queueIdx. backupJobQueueNext c queueIdx (?n - off)) off (backupJobNew d) (?n - off) (queueList_bd d)
          (int (c mod (?n - off))) (int (c mod (?n - off))))"
      by (rule jobScan_queues) (use off in \<open>auto simp: backupJobQueueNext_same\<close>)
    moreover have "(if backupStandby_bd d \<and> c > 0 then 1 else 0) = off" using False by (auto simp: off_def)
    ultimately show ?thesis using False off n by (auto simp: backupJobCallback_def Let_def)
  qed
  then obtain r where r: "scanned (backupJobNew d) (clientQueues d c) (queueList_bd d) r"
      "backupJobCallback d c = mapE (\<lambda>(job, queues). (job, d\<lparr>queueList_bd := queues\<rparr>)) r" by blast
  then consider "\<forall>i \<in> clientQueues d c. queueList_bd d ! i = []" "r = Inr (None, queueList_bd d)"
    | i f rest where "i \<in> clientQueues d c" "queueList_bd d ! i = f # rest" "r = bindE (backupJobNew d f) (\<lambda>cmd. Inr (Some (name_mf f, cmd), (queueList_bd d)[i := rest]))"
    unfolding scanned_def by (auto split: if_splits)
  then show thesis
  proof cases
    case 1
    then show ?thesis using None r(2) by simp
  next
    case (2 i f rest)
    have i: "i < ?n" using 2(1) n by (auto simp: clientQueues_def split: if_splits)
    then have "f \<in> set (queueList_bd d ! i)" "queueList_bd d ! i \<in> set (queueList_bd d)" using nth_mem [OF i] 2(2) by auto
    then obtain p where "manifestPathPg (name_mf f) = Inr p" using assms unfolding backupJobsOk_def by blast
    then show ?thesis using Some [of i f rest] r(2) 2 i backupJobNew_run by simp
  qed
qed

interpretation backup_jobs: job_source backupJobCallback "backupJobsOk clients" backupLeft clients
  for clients
proof
  fix d d' :: BackupJobData and i c k p
  assume ok: "backupJobsOk clients d"
  show "\<exists>r. backupJobCallback d i = Inr r"
    using backupJobCallback_cases [OF ok, of i] by metis
  show "backupJobsOk clients d' \<and> backupLeft d = add_mset k (backupLeft d')" if "backupJobCallback d i = Inr (Some (k, p), d')"
  proof (cases rule: backupJobCallback_cases [OF ok, of i])
    case (2 j f rest cmd)
    then have d': "d' = d\<lparr>queueList_bd := (queueList_bd d)[j := rest]\<rparr>" "k = name_mf f" using that by auto
    note queue_taken [OF 2(2,3)]
    then have "backupJobsOk clients d'" using ok unfolding backupJobsOk_def d' by simp blast
    then show ?thesis using queueNames_remove [OF 2(2,3)] by (simp add: backupLeft_def d')
  qed (use that in simp)
  show "backupJobCallback d i = Inr (None, d') \<Longrightarrow> d' = d"
    by (rule backupJobCallback_cases [OF ok, of i]) auto
  show "backupJobCallback d' c = Inr (None, d')" if n: "backupJobCallback d c = Inr (None, d)" and j: "backupJobCallback d i = Inr (Some (k, p), d')"
  proof (cases rule: backupJobCallback_cases [OF ok, of i])
    case (2 j f rest cmd)
    then have d': "d' = d\<lparr>queueList_bd := (queueList_bd d)[j := rest]\<rparr>" using j by auto
    have empty: "\<forall>i \<in> clientQueues d c. queueList_bd d ! i = []" using n by (cases rule: backupJobCallback_cases [OF ok, of c]) auto
    then have "j \<notin> clientQueues d c" using 2(3) by auto
    then have e: "\<forall>i \<in> clientQueues d' c. queueList_bd d' ! i = []" using empty d' by (auto simp: clientQueues_def nth_list_update split: if_splits)
    have "backupJobsOk clients d'" using ok queue_taken [OF 2(2,3)] unfolding backupJobsOk_def d' by simp blast
    then show ?thesis by (cases rule: backupJobCallback_cases [of clients d' c]) (use e in auto)
  qed (use j in simp)
  show "backupLeft d = {#}" if "\<forall>i < clients. backupJobCallback d i = Inr (None, d)"
  proof -
    have e: "\<forall>i \<in> clientQueues d c. queueList_bd d ! i = []" if c: "c < clients" for c
      using \<open>\<forall>i < clients. backupJobCallback d i = Inr (None, d)\<close> c by (cases rule: backupJobCallback_cases [OF ok, of c]) auto
    have "queueList_bd d ! i = []" if "i < length (queueList_bd d)" for i
      using e [of 0] e [of 1] that ok by (cases "i = 0") (auto simp: backupJobsOk_def clientQueues_def split: if_splits)
    then show ?thesis using queueNames_empty by (simp add: backupLeft_def)
  qed
qed

end
