(* ===== verification/PageChecksum.thy ===== *)
theory PageChecksum
  imports Program
begin

text \<open>
  The validation of page checksums during a backup: the filter of src/command/backup/pageChecksum.c and the
  checksum of a page (src/postgres/interface/pageChecksum.vendor.c). Integers in a page are little endian.
  The filter gets the file in buffers of the io buffer size. What it finds is the list of the pages
  that are not valid, independent of the buffers, and the abbreviated list that it returns
  stands for exactly these pages.
\<close>

section \<open>Pages\<close>

definition PG_PAGE_SIZE_DEFAULT :: nat where "PG_PAGE_SIZE_DEFAULT = 8192"
definition PG_SEGMENT_PAGE_DEFAULT :: u32 where "PG_SEGMENT_PAGE_DEFAULT = 131072"

definition le16 :: "byte list \<Rightarrow> nat \<Rightarrow> u16" where
  "le16 page i = ucast (page ! i) OR push_bit 8 (ucast (page ! (i + 1)))"

definition le32 :: "byte list \<Rightarrow> nat \<Rightarrow> u32" where
  "le32 page i = ucast (le16 page i) OR push_bit 16 (ucast (le16 page (i + 2)))"

text \<open>The fields of the header that are used.\<close>

record PageHeaderData =
  pd_lsn :: "u32 \<times> u32"
  pd_checksum :: u16
  pd_upper :: u16

definition pageHeader :: "byte list \<Rightarrow> PageHeaderData" where
  "pageHeader page = \<lparr>pd_lsn = (le32 page 0, le32 page 4), pd_checksum = le16 page 8, pd_upper = le16 page 14\<rparr>"

definition PageXLogRecPtrGet :: "u32 \<times> u32 \<Rightarrow> u64" where
  "PageXLogRecPtrGet val = push_bit 32 (ucast (fst val)) OR ucast (snd val)"

section \<open>The checksum of a page\<close>

definition N_SUMS :: nat where "N_SUMS = 32"
definition FNV_PRIME :: u32 where "FNV_PRIME = 16777619"

definition checksumBaseOffsets :: "u32 list" where
  "checksumBaseOffsets = [
    0x5B1F36E9, 0xB8525960, 0x02AB50AA, 0x1DE66D2A, 0x79FF467A, 0x9BB9F8A3, 0x217E7CD2, 0x83E13D2C,
    0xF8D4474F, 0xE39EB970, 0x42C6AE16, 0x993216FA, 0x7B093B5D, 0x98DAFF3C, 0xF718902A, 0x0B1C9CDB,
    0xE58F764B, 0x187636BC, 0x5D7B3BB1, 0xE73DE7DE, 0x92BEC979, 0xCCA6C0B2, 0x304A0979, 0x85AA43D4,
    0x783125BB, 0x6CA8EAA2, 0xE407EAC6, 0x4B5CFC3E, 0x9FBF8C76, 0x15CA20BE, 0xF2CA9FD3, 0x959BD756]"

definition CHECKSUM_COMP :: "u32 \<Rightarrow> u32 \<Rightarrow> u32" where
  "CHECKSUM_COMP checksum value = (let tmp = checksum XOR value in (tmp * FNV_PRIME) XOR drop_bit 17 tmp)"

text \<open>One row of the page, a value for each of the sums.\<close>

definition pageRow :: "byte list \<Rightarrow> nat \<Rightarrow> u32 list" where
  "pageRow page i = map (\<lambda>j. le32 page (4 * (N_SUMS * i + j))) [0..<N_SUMS]"

definition pg_checksum_block :: "byte list \<Rightarrow> u32" where
  "pg_checksum_block page =
     (let sums = fold (\<lambda>i sums. map2 CHECKSUM_COMP sums (pageRow page i)) [0..<PG_PAGE_SIZE_DEFAULT div (4 * N_SUMS)] checksumBaseOffsets;
          sums = fold (\<lambda>_ sums. map (\<lambda>s. CHECKSUM_COMP s 0) sums) [0..<2] sums
      in fold (XOR) sums 0)"

definition pg_checksum_page :: "byte list \<Rightarrow> u32 \<Rightarrow> u16 result" where
  "pg_checksum_page page blkno =
     bindE (ASSERT (pd_upper (pageHeader page) \<noteq> 0)) (\<lambda>_.
     let checksum = pg_checksum_block (page[8 := 0, 9 := 0]) XOR blkno
     in Inr (ucast (checksum mod 65535 + 1)))"

definition pgPageChecksum :: "byte list \<Rightarrow> u32 \<Rightarrow> u16 result" where
  "pgPageChecksum page blockNo = pg_checksum_page page blockNo"

section \<open>The filter\<close>

record PageChecksum =
  pageNoOffset :: u32
  lsnLimit :: u64
  valid :: bool
  align :: bool
  error_pc :: "(u32 \<times> u64) list option"

definition pageChecksumNew :: "u32 \<Rightarrow> u32 \<Rightarrow> u64 \<Rightarrow> PageChecksum" where
  "pageChecksumNew segmentNo segmentPageTotal limit =
     \<lparr>pageNoOffset = segmentNo * segmentPageTotal, lsnLimit = limit, valid = True, align = True, error_pc = None\<rparr>"

text \<open>Whether a page passes. A page that is only a part of one is never checked.\<close>

definition pageTest :: "u64 \<Rightarrow> bool \<Rightarrow> byte list \<Rightarrow> u32 \<Rightarrow> bool result" where
  "pageTest limit full page blockNo =
     (if pd_upper (pageHeader page) = 0 then Inr True
      else if PageXLogRecPtrGet (pd_lsn (pageHeader page)) \<ge> limit then Inr True
      else if full then bindE (pgPageChecksum page blockNo) (\<lambda>checksum. Inr (pd_checksum (pageHeader page) = checksum))
      else Inr False)"

definition pageAt :: "byte list \<Rightarrow> nat \<Rightarrow> byte list" where
  "pageAt input pageIdx = take PG_PAGE_SIZE_DEFAULT (drop (pageIdx * PG_PAGE_SIZE_DEFAULT) input)"

text \<open>One page of the loop.\<close>

definition pageCheck :: "byte list \<Rightarrow> nat \<Rightarrow> nat \<Rightarrow> (PageChecksum, unit) prog" where
  "pageCheck input pageTotal pageIdx = (\<lambda>this.
     let page = pageAt input pageIdx; blockNo = pageNoOffset this + of_nat pageIdx
     in case pageTest (lsnLimit this) (align this \<or> pageIdx < pageTotal - 1) page blockNo of
          Inl e \<Rightarrow> (Inl e, this)
        | Inr True \<Rightarrow> (Inr (), this)
        | Inr False \<Rightarrow> (Inr (), this\<lparr>error_pc := Some ((case error_pc this of None \<Rightarrow> [] | Some es \<Rightarrow> es) @
            [(blockNo, PageXLogRecPtrGet (pd_lsn (pageHeader page)))])\<rparr>))"

text \<open>The number of pages in a buffer, and what a part of a page does to the state.\<close>

definition pageRemainderTest :: "byte list \<Rightarrow> (PageChecksum, nat) prog" where
  "pageRemainderTest input = (\<lambda>this.
     let pageTotal = length input div PG_PAGE_SIZE_DEFAULT; pageRemainder = length input mod PG_PAGE_SIZE_DEFAULT
     in if pageRemainder \<noteq> 0 then
          if \<not> align this then (Inl AssertError, this)
          else if pageRemainder \<ge> 512 then (Inr (pageTotal + 1), this\<lparr>align := False\<rparr>)
          else (Inr pageTotal, this\<lparr>align := False, valid := False\<rparr>)
        else (Inr pageTotal, this))"

definition pageChecksumProcess :: "byte list \<Rightarrow> (PageChecksum, unit) prog" where
  "pageChecksumProcess input =
     bindP (pageRemainderTest input) (\<lambda>pageTotal.
     bindP (getP valid) (\<lambda>v.
     whenP v
       (bindP (forP [0..<pageTotal] (pageCheck input pageTotal)) (\<lambda>_.
        modifyP (\<lambda>this. this\<lparr>pageNoOffset := pageNoOffset this + of_nat pageTotal\<rparr>)))))"

section \<open>The result\<close>

datatype PageError = PageNo u32 | PageRange u32 u32

text \<open>The last of the pages that follow one another.\<close>

fun rangeLast :: "u32 \<Rightarrow> u32 list \<Rightarrow> u32 \<times> u32 list" where
  "rangeLast pageIdLast [] = (pageIdLast, [])"
| "rangeLast pageIdLast (pageIdNext # rest) =
     (if pageIdNext > pageIdLast + 1 then (pageIdLast, pageIdNext # rest) else rangeLast pageIdNext rest)"

lemma rangeLast_length: "length (snd (rangeLast p ps)) \<le> length ps"
  by (induction p ps rule: rangeLast.induct) auto

lemma rangeLast_shorter: "(p', ps') = rangeLast p ps \<Longrightarrow> length ps' < Suc (Suc (length ps))"
  using rangeLast_length [of p ps] by (metis le_imp_less_Suc less_SucI snd_conv)

function pageErrorList :: "u32 list \<Rightarrow> PageError list" where
  "pageErrorList [] = []"
| "pageErrorList [pageId] = [PageNo pageId]"
| "pageErrorList (pageId # pageIdNext # rest) =
     (if pageIdNext > pageId + 1 then PageNo pageId # pageErrorList (pageIdNext # rest)
      else (case rangeLast pageIdNext rest of (pageIdLast, rest') \<Rightarrow> PageRange pageId pageIdLast # pageErrorList rest'))"
  by pat_completeness auto
termination by (relation "measure length") (auto dest: rangeLast_shorter)

record PageChecksumResult =
  resultError :: "PageError list option"
  resultValid :: bool
  resultAlign :: bool

definition pageChecksumResult :: "PageChecksum \<Rightarrow> PageChecksumResult" where
  "pageChecksumResult this = (case error_pc this of
     None \<Rightarrow> \<lparr>resultError = None, resultValid = valid this, resultAlign = align this\<rparr>
   | Some es \<Rightarrow> \<lparr>resultError = Some (pageErrorList (map fst es)), resultValid = False, resultAlign = align this\<rparr>)"

text \<open>A file that goes through the filter in buffers of the given size.\<close>

function chunks :: "nat \<Rightarrow> 'a list \<Rightarrow> 'a list list" where
  "chunks n xs = (if n = 0 \<or> xs = [] then [] else take n xs # chunks n (drop n xs))"
  by pat_completeness auto
termination by (relation "measure (\<lambda>(_, xs). length xs)") auto

declare chunks.simps [simp del]

definition pageChecksumFile :: "nat \<Rightarrow> u32 \<Rightarrow> u64 \<Rightarrow> byte list \<Rightarrow> PageChecksumResult result" where
  "pageChecksumFile ioBufferSize segmentNo limit content =
     (case forP (chunks ioBufferSize content) pageChecksumProcess (pageChecksumNew segmentNo PG_SEGMENT_PAGE_DEFAULT limit) of
        (Inl e, _) \<Rightarrow> Inl e
      | (Inr _, this) \<Rightarrow> Inr (pageChecksumResult this))"

section \<open>The pages that fail\<close>

abbreviation pageFails :: "u64 \<Rightarrow> bool \<Rightarrow> byte list \<Rightarrow> u32 \<Rightarrow> bool" where
  "pageFails limit full page blockNo \<equiv> pageTest limit full page blockNo = Inr False"

lemma pageTest_total: "pageTest limit full page blockNo = Inr (\<not> pageFails limit full page blockNo)"
  by (auto simp: pageTest_def pgPageChecksum_def pg_checksum_page_def Let_def)

definition failing :: "u64 \<Rightarrow> u32 \<Rightarrow> byte list \<Rightarrow> nat \<Rightarrow> nat list" where
  "failing limit off c m = filter (\<lambda>i. pageFails limit (i < length c div PG_PAGE_SIZE_DEFAULT) (pageAt c i) (off + of_nat i)) [0..<m]"

definition badPages :: "u64 \<Rightarrow> u32 \<Rightarrow> byte list \<Rightarrow> nat \<Rightarrow> (u32 \<times> u64) list" where
  "badPages limit off c m = map (\<lambda>i. (off + of_nat i, PageXLogRecPtrGet (pd_lsn (pageHeader (pageAt c i))))) (failing limit off c m)"

definition filterState :: "u64 \<Rightarrow> u32 \<Rightarrow> bool \<Rightarrow> bool \<Rightarrow> (u32 \<times> u64) list \<Rightarrow> PageChecksum" where
  "filterState limit off v a es =
     \<lparr>pageNoOffset = off, lsnLimit = limit, valid = v, align = a, error_pc = (if es = [] then None else Some es)\<rparr>"

lemma filterState_simps [simp]:
  "pageNoOffset (filterState limit off v a es) = off" "lsnLimit (filterState limit off v a es) = limit"
  "valid (filterState limit off v a es) = v" "align (filterState limit off v a es) = a"
  "error_pc (filterState limit off v a es) = (if es = [] then None else Some es)"
  "(filterState limit off v a es)\<lparr>align := a'\<rparr> = filterState limit off v a' es"
  "(filterState limit off v a es)\<lparr>valid := v'\<rparr> = filterState limit off v' a es"
  "(filterState limit off v a es)\<lparr>pageNoOffset := off'\<rparr> = filterState limit off' v a es"
  by (simp_all add: filterState_def)

text \<open>The loop over the pages of a buffer.\<close>

lemma pageCheck_loop:
  assumes "\<And>i. i < n \<Longrightarrow> (a \<or> i < n - 1) \<longleftrightarrow> i < length input div PG_PAGE_SIZE_DEFAULT" "m \<le> n"
  shows "forP [0..<m] (pageCheck input n) (filterState limit off v a es) =
    (Inr (), filterState limit off v a (es @ badPages limit off input m))"
  using assms(2)
proof (induction m)
  case (Suc m)
  let ?page = "pageAt input m" and ?full = "m < length input div PG_PAGE_SIZE_DEFAULT"
  have full: "(a \<or> m < n - 1) = ?full" using assms(1) [of m] Suc.prems by simp
  have step: "pageCheck input n m (filterState limit off v a es') =
      (Inr (), filterState limit off v a (if pageFails limit ?full ?page (off + of_nat m)
        then es' @ [(off + of_nat m, PageXLogRecPtrGet (pd_lsn (pageHeader ?page)))] else es'))" for es'
    unfolding pageCheck_def Let_def filterState_simps full
    using pageTest_total [of limit ?full ?page "off + of_nat m"]
    by (cases "pageFails limit ?full ?page (off + of_nat m)") (simp_all add: filterState_def)
  show ?case using Suc by (simp add: forP_append run_simps step badPages_def failing_def)
qed (simp add: run_simps badPages_def failing_def)

lemma length_div_mod: "length c = length c div PG_PAGE_SIZE_DEFAULT * PG_PAGE_SIZE_DEFAULT + length c mod PG_PAGE_SIZE_DEFAULT"
  by simp

text \<open>One buffer, by the size of the part of a page at its end.\<close>

lemma process_buffer:
  fixes input :: "byte list"
  defines "n \<equiv> length input div PG_PAGE_SIZE_DEFAULT" and "r \<equiv> length input mod PG_PAGE_SIZE_DEFAULT"
  shows "pageChecksumProcess input (filterState limit off True True es) = (Inr (),
    if r = 0 then filterState limit (off + of_nat n) True True (es @ badPages limit off input n)
    else if r \<ge> 512 then filterState limit (off + of_nat (n + 1)) True False (es @ badPages limit off input (n + 1))
    else filterState limit off False False es)"
proof -
  have loop: "forP [0..<n] (pageCheck input n) (filterState limit off True True es) =
      (Inr (), filterState limit off True True (es @ badPages limit off input n))"
    by (rule pageCheck_loop) (simp_all add: n_def)
  have loop': "forP [0..<n + 1] (pageCheck input (n + 1)) (filterState limit off True False es) =
      (Inr (), filterState limit off True False (es @ badPages limit off input (n + 1)))"
    by (rule pageCheck_loop) (simp_all add: n_def)
  show ?thesis
    using loop loop' by (simp add: pageChecksumProcess_def pageRemainderTest_def run_simps Let_def n_def r_def)
qed

section \<open>All buffers of a file\<close>

lemma pageAt_take: "i < k \<Longrightarrow> pageAt (take (k * PG_PAGE_SIZE_DEFAULT) c) i = pageAt c i"
proof -
  assume "i < k"
  then have "i * PG_PAGE_SIZE_DEFAULT + PG_PAGE_SIZE_DEFAULT \<le> k * PG_PAGE_SIZE_DEFAULT"
    using mult_le_mono1 [of "Suc i" k PG_PAGE_SIZE_DEFAULT] by simp
  then show ?thesis by (simp add: pageAt_def drop_take min_absorb1)
qed

lemma pageAt_drop: "pageAt (drop (k * PG_PAGE_SIZE_DEFAULT) c) i = pageAt c (k + i)"
  by (simp add: pageAt_def add_mult_distrib add.commute)

lemma badPages_split:
  assumes "k * PG_PAGE_SIZE_DEFAULT \<le> length c"
  shows "badPages limit off (take (k * PG_PAGE_SIZE_DEFAULT) c) k @ badPages limit (off + of_nat k) (drop (k * PG_PAGE_SIZE_DEFAULT) c) m =
    badPages limit off c (k + m)"
proof -
  let ?P = PG_PAGE_SIZE_DEFAULT and ?full = "\<lambda>i. i < length c div PG_PAGE_SIZE_DEFAULT"
  have P: "?P > 0" by (simp add: PG_PAGE_SIZE_DEFAULT_def)
  have n: "k \<le> length c div ?P" using assms P by (simp add: less_eq_div_iff_mult_less_eq)
  have d: "length (drop (k * ?P) c) div ?P = length c div ?P - k"
  proof -
    obtain d where "length c = d + k * ?P" using assms le_Suc_ex by (metis add.commute)
    then show ?thesis using P by simp
  qed
  have t: "length (take (k * ?P) c) div ?P = k" using assms P by (simp add: min_absorb2)
  have up: "[0..<k + m] = [0..<k] @ map (\<lambda>i. k + i) [0..<m]"
    using upt_add_eq_append [of 0 k m] map_add_upt [of k m] by (simp add: add.commute)
  have f1: "failing limit off (take (k * ?P) c) k = filter (\<lambda>i. pageFails limit (?full i) (pageAt c i) (off + of_nat i)) [0..<k]"
    unfolding failing_def t using n by (intro filter_cong) (simp_all add: pageAt_take)
  have f2: "failing limit (off + of_nat k) (drop (k * ?P) c) m =
      filter (\<lambda>i. pageFails limit (?full (k + i)) (pageAt c (k + i)) (off + of_nat (k + i))) [0..<m]"
    unfolding failing_def d using n by (intro filter_cong) (auto simp: pageAt_drop less_diff_conv add.commute add.left_commute)
  have "failing limit off c (k + m) = failing limit off (take (k * ?P) c) k @ map (\<lambda>i. k + i) (failing limit (off + of_nat k) (drop (k * ?P) c) m)"
    unfolding f1 f2 by (simp add: failing_def up filter_map o_def)
  moreover have "map (\<lambda>i. (off + of_nat i, PageXLogRecPtrGet (pd_lsn (pageHeader (pageAt (take (k * ?P) c) i))))) (failing limit off (take (k * ?P) c) k) =
      map (\<lambda>i. (off + of_nat i, PageXLogRecPtrGet (pd_lsn (pageHeader (pageAt c i))))) (failing limit off (take (k * ?P) c) k)"
    by (rule map_cong) (auto simp: failing_def pageAt_take)
  ultimately show ?thesis by (simp add: badPages_def pageAt_drop o_def add.assoc)
qed

text \<open>How many pages are tested: a part of a page that is too small spoils the buffer that it is in.\<close>

definition pagesTested :: "nat \<Rightarrow> byte list \<Rightarrow> nat" where
  "pagesTested k c =
     (let n = length c div PG_PAGE_SIZE_DEFAULT; r = length c mod PG_PAGE_SIZE_DEFAULT
      in if r = 0 then n else if r \<ge> 512 then n + 1 else n div k * k)"

definition wellSized :: "byte list \<Rightarrow> bool" where
  "wellSized c \<longleftrightarrow> length c mod PG_PAGE_SIZE_DEFAULT = 0 \<or> length c mod PG_PAGE_SIZE_DEFAULT \<ge> 512"

lemma process_chunks:
  assumes "0 < k"
  shows "forP (chunks (k * PG_PAGE_SIZE_DEFAULT) c) pageChecksumProcess (filterState limit off True True es) =
    (Inr (), filterState limit (off + of_nat (pagesTested k c)) (wellSized c) (length c mod PG_PAGE_SIZE_DEFAULT = 0)
      (es @ badPages limit off c (pagesTested k c)))"
proof (induction c arbitrary: off es rule: measure_induct_rule [of length])
  case (less c)
  let ?P = PG_PAGE_SIZE_DEFAULT
  let ?b = "k * ?P"
  have P: "?P > 0" "?b > 0" using assms by (simp_all add: PG_PAGE_SIZE_DEFAULT_def)
  show ?case
  proof (cases "?b \<le> length c")
    case True
    define d where "d = drop ?b c"
    have c: "length c = length d + ?b" using True by (simp add: d_def)
    have m: "length c mod ?P = length d mod ?P" "length c div ?P = length d div ?P + k"
      using c P by simp_all
    have pt: "pagesTested k c = k + pagesTested k d" using assms by (simp add: pagesTested_def m Let_def div_add_self2)
    have t: "length (take ?b c) = ?b" using True by simp
    have buf: "pageChecksumProcess (take ?b c) (filterState limit off True True es) =
        (Inr (), filterState limit (off + of_nat k) True True (es @ badPages limit off (take ?b c) k))"
      unfolding process_buffer t using P by simp
    have "chunks ?b c = take ?b c # chunks ?b d" using True P by (subst chunks.simps) (auto simp: d_def)
    moreover have "length d < length c" using c P by simp
    ultimately show ?thesis
      using buf less.IH [of d "off + of_nat k" "es @ badPages limit off (take ?b c) k"] badPages_split [OF True, of limit off "pagesTested k d"]
      by (simp add: run_simps pt m wellSized_def d_def add.assoc)
  next
    case False
    then have ch: "chunks ?b c = (if c = [] then [] else [c])"
      using P by (subst chunks.simps) (auto simp: chunks.simps)
    have n: "length c div ?P div k = 0" using False by (simp add: div_mult2_eq [symmetric] mult.commute)
    show ?thesis
      using process_buffer [of c limit off es] ch n
      by (auto simp: run_simps pagesTested_def wellSized_def Let_def badPages_def failing_def)
  qed
qed

section \<open>The abbreviated list\<close>

fun pagesOf :: "PageError \<Rightarrow> nat list" where
  "pagesOf (PageNo p) = [unat p]"
| "pagesOf (PageRange p q) = [unat p..<Suc (unat q)]"

lemma word_next:
  fixes p q :: u32
  assumes "p < q"
  shows "\<not> q > p + 1 \<Longrightarrow> unat q = Suc (unat p)" "unat (p + 1) = Suc (unat p)"
proof -
  have "unat p < unat q" using assms by (simp add: word_less_nat_alt)
  then have "Suc (unat p) < 2 ^ 32" using unsigned_less [where ?'a = nat, of q] by simp
  then show s: "unat (p + 1) = Suc (unat p)" by (simp add: unat_word_ariths)
  show "unat q = Suc (unat p)" if "\<not> q > p + 1"
    using that \<open>unat p < unat q\<close> s by (simp add: word_less_nat_alt)
qed

lemma rangeLast_pages:
  assumes "sorted_wrt (<) (p # ps)" "rangeLast p ps = (q, qs)"
  shows "map unat (p # ps) = [unat p..<Suc (unat q)] @ map unat qs \<and> p \<le> q \<and> sorted_wrt (<) qs"
  using assms
proof (induction p ps arbitrary: q qs rule: rangeLast.induct)
  case (2 p p' ps)
  show ?case
  proof (cases "p' > p + 1")
    case False
    then have u: "unat p' = Suc (unat p)" using word_next(1) [of p p'] 2(2) by simp
    have IH: "map unat (p' # ps) = [unat p'..<Suc (unat q)] @ map unat qs \<and> p' \<le> q \<and> sorted_wrt (<) qs"
      by (rule 2(1)) (use False 2(2,3) in auto)
    then have "p \<le> q" using 2(2) by auto
    moreover have "[unat p..<Suc (unat q)] = unat p # [Suc (unat p)..<Suc (unat q)]"
      using \<open>p \<le> q\<close> by (simp add: upt_conv_Cons word_le_nat_alt del: upt_Suc)
    ultimately show ?thesis using IH u by (simp del: upt_Suc)
  qed (use 2(2,3) in auto)
qed auto

lemma pageErrorList_pages: "sorted_wrt (<) ps \<Longrightarrow> concat (map pagesOf (pageErrorList ps)) = map unat ps"
proof (induction ps rule: pageErrorList.induct)
  case (3 p p' ps)
  show ?case
  proof (cases "p' > p + 1")
    case False
    obtain q qs where q: "rangeLast p' ps = (q, qs)" by fastforce
    have u: "unat p' = Suc (unat p)" using word_next(1) [of p p'] 3(3) False by simp
    have r: "map unat (p' # ps) = [unat p'..<Suc (unat q)] @ map unat qs" "p' \<le> q" "sorted_wrt (<) qs"
      using rangeLast_pages [OF _ q] 3(3) by auto
    have "[unat p..<Suc (unat q)] = unat p # [unat p'..<Suc (unat q)]"
      using r(2) u by (simp add: upt_conv_Cons word_le_nat_alt del: upt_Suc)
    moreover have "concat (map pagesOf (pageErrorList qs)) = map unat qs" by (rule 3(2)) (use False q r in auto)
    ultimately show ?thesis using False q r(1) by (simp del: upt_Suc)
  qed (use 3 in simp)
qed auto


text \<open>A new page and a part of a page of the second segment. The part has no checksum that could be tested, so it fails.\<close>

abbreviation samplePages :: "byte list" where
  "samplePages \<equiv> replicate 8192 0 @ replicate 600 1"


end
