(* ===== verification/FileCopy.thy ===== *)
theory FileCopy
  imports Jobs PageChecksum
begin

text \<open>
  Copying a file to the repository (src/command/backup/file.c) and back (src/command/restore/file.c), which is the
  work of the local processes. Files are their content; the data directory is a POSIX file system
  (src/storage/posix/write.c), the repository any storage. The libraries for hashes, compression and
  encryption are parameters. Every operation on a file can fail, and a copy that fails leaves what
  the environment says.
\<close>

section \<open>Compression types\<close>

text \<open>The table of src/common/compress/helper.c: name, extension, and whether the build has the type.\<close>

record CompressHelperLocal =
  typeCh :: string
  extCh :: string
  newCh :: bool

definition compressHelperLocal :: "bool \<Rightarrow> bool \<Rightarrow> CompressHelperLocal list" where
  "compressHelperLocal haveLz4 haveZst =
     [\<lparr>typeCh = ''none'', extCh = '''', newCh = False\<rparr>,
      \<lparr>typeCh = ''bz2'', extCh = ''.bz2'', newCh = True\<rparr>,
      \<lparr>typeCh = ''gz'', extCh = ''.gz'', newCh = True\<rparr>,
      \<lparr>typeCh = ''lz4'', extCh = ''.lz4'', newCh = haveLz4\<rparr>,
      \<lparr>typeCh = ''zst'', extCh = ''.zst'', newCh = haveZst\<rparr>,
      \<lparr>typeCh = ''xz'', extCh = ''.xz'', newCh = False\<rparr>,
      \<lparr>typeCh = ''bz2'', extCh = ''.bz2'', newCh = False\<rparr>]"

abbreviation (input) "compressTypeNone \<equiv> 0 :: u32"

text \<open>The libraries the file copies use, and the build.\<close>

record Libraries =
  hashSha1 :: "byte list \<Rightarrow> string"
  compressData :: "u32 \<Rightarrow> u32 \<Rightarrow> byte list \<Rightarrow> byte list"
  decompressData :: "u32 \<Rightarrow> byte list \<Rightarrow> byte list result"
  encryptData :: "u64 \<Rightarrow> string \<Rightarrow> byte list \<Rightarrow> byte list"
  decryptData :: "u64 \<Rightarrow> string \<Rightarrow> byte list \<Rightarrow> byte list result"
  haveLibLz4 :: bool
  haveLibZst :: bool

abbreviation helpers :: "'a Libraries_scheme \<Rightarrow> CompressHelperLocal list" where
  "helpers lib \<equiv> compressHelperLocal (haveLibLz4 lib) (haveLibZst lib)"

definition compressTypePresent :: "'a Libraries_scheme \<Rightarrow> u32 \<Rightarrow> unit result" where
  "compressTypePresent lib t =
     bindE (ASSERT (unat t < length (helpers lib))) (\<lambda>_.
     if t \<noteq> compressTypeNone \<and> \<not> newCh (helpers lib ! unat t) then Inl OptionInvalidValueError else Inr ())"

definition compressExtStr :: "'a Libraries_scheme \<Rightarrow> u32 \<Rightarrow> string result" where
  "compressExtStr lib t = bindE (ASSERT (unat t < length (helpers lib))) (\<lambda>_. Inr (extCh (helpers lib ! unat t)))"

text \<open>A filter for compression, and one for decompression.\<close>

definition compressFilter :: "'a Libraries_scheme \<Rightarrow> u32 \<Rightarrow> u32 \<Rightarrow> (byte list \<Rightarrow> byte list) result" where
  "compressFilter lib t level =
     bindE (ASSERT (unat t < length (helpers lib))) (\<lambda>_.
     bindE (ASSERT (t \<noteq> compressTypeNone)) (\<lambda>_.
     bindE (compressTypePresent lib t) (\<lambda>_.
     Inr (compressData lib t level))))"

definition decompressFilter :: "'a Libraries_scheme \<Rightarrow> u32 \<Rightarrow> (byte list \<Rightarrow> byte list result) result" where
  "decompressFilter lib t =
     bindE (ASSERT (unat t < length (helpers lib))) (\<lambda>_.
     bindE (ASSERT (t \<noteq> compressTypeNone)) (\<lambda>_.
     bindE (compressTypePresent lib t) (\<lambda>_.
     Inr (decompressData lib t))))"

section \<open>Files\<close>

record PgFile =
  content :: "byte list"
  modePf :: u32
  userPf :: string
  groupPf :: string
  modifiedPf :: u64

record CopyState =
  pgFiles :: "string \<Rightarrow> PgFile option"
  repoFiles :: "string \<Rightarrow> byte list option"

text \<open>
  What happens outside: errors of opening, reading, writing and closing, what a copy that fails leaves
  behind, the user of the process and the time.
\<close>

record CopyEnv = Libraries +
  ioBufferSize :: nat
  pgOpenError :: "string \<Rightarrow> ErrorType option"
  pgReadError :: "string \<Rightarrow> ErrorType option"
  pgWriteOpenError :: "string \<Rightarrow> ErrorType option"
  pgWriteError :: "string \<Rightarrow> ErrorType option"
  pgCloseError :: "string \<Rightarrow> ErrorType option"
  pgLeft :: "string \<Rightarrow> byte list"
  chownFails :: "string \<Rightarrow> bool"
  utimeFails :: "string \<Rightarrow> bool"
  repoOpenError :: "string \<Rightarrow> ErrorType option"
  repoReadError :: "string \<Rightarrow> ErrorType option"
  repoWriteOpenError :: "string \<Rightarrow> ErrorType option"
  repoWriteError :: "string \<Rightarrow> ErrorType option"
  repoRemoveError :: "string \<Rightarrow> ErrorType option"
  repoLeft :: "string \<Rightarrow> byte list option"
  repoSizeAtRest :: "byte list \<Rightarrow> u64"
  repoFeatureCompress :: bool
  processUser :: string
  processGroup :: string
  userKnown :: "string \<Rightarrow> bool"
  groupKnown :: "string \<Rightarrow> bool"
  timeNow :: u64

definition maybeP :: "ErrorType option \<Rightarrow> ('s, unit) prog" where
  "maybeP e = (case e of None \<Rightarrow> retP () | Some x \<Rightarrow> throwP x)"

definition sizeOf64 :: "byte list \<Rightarrow> u64" where
  "sizeOf64 bytes = of_nat (length bytes)"

definition pgPut :: "string \<Rightarrow> PgFile \<Rightarrow> (CopyState, unit) prog" where
  "pgPut name f = modifyP (\<lambda>s. s\<lparr>pgFiles := (pgFiles s)(name \<mapsto> f)\<rparr>)"

definition pgUpdate :: "string \<Rightarrow> (PgFile \<Rightarrow> PgFile) \<Rightarrow> (CopyState, unit) prog" where
  "pgUpdate name f = modifyP (\<lambda>s. s\<lparr>pgFiles := (pgFiles s)(name := map_option f (pgFiles s name))\<rparr>)"

definition repoPut :: "string \<Rightarrow> byte list option \<Rightarrow> (CopyState, unit) prog" where
  "repoPut name c = modifyP (\<lambda>s. s\<lparr>repoFiles := (repoFiles s)(name := c)\<rparr>)"

subsection \<open>Writing to the data directory\<close>

text \<open>The attributes a file is written with.\<close>

record PgWrite =
  writeName :: string
  writeMode :: u32
  writeUser :: "string option"
  writeGroup :: "string option"
  writeTime :: u64

text \<open>
  Opening truncates a file or creates it with the mode and the user of the process. The owner is then changed,
  but not to the user or group of the process or to one that is not known.
\<close>

definition chownTo :: "(string \<Rightarrow> bool) \<Rightarrow> string \<Rightarrow> string option \<Rightarrow> string \<Rightarrow> string" where
  "chownTo known process requested owner = (case requested of None \<Rightarrow> owner | Some u \<Rightarrow> if \<not> known u \<or> u = process then owner else u)"

definition storageWritePosixOpen :: "CopyEnv \<Rightarrow> PgWrite \<Rightarrow> (CopyState, unit) prog" where
  "storageWritePosixOpen env w =
     bindP (maybeP (pgWriteOpenError env (writeName w))) (\<lambda>_.
     bindP (getP (\<lambda>s. pgFiles s (writeName w))) (\<lambda>old.
     bindP (pgPut (writeName w) (case old of
         Some f \<Rightarrow> f\<lparr>content := [], modifiedPf := timeNow env\<rparr>
       | None \<Rightarrow> \<lparr>content = [], modePf = writeMode w, userPf = processUser env, groupPf = processGroup env, modifiedPf = timeNow env\<rparr>)) (\<lambda>_.
     whenP (writeUser w \<noteq> None \<or> writeGroup w \<noteq> None)
       (if chownFails env (writeName w) then throwP FileOwnerError
        else pgUpdate (writeName w) (\<lambda>f. f\<lparr>userPf := chownTo (userKnown env) (processUser env) (writeUser w) (userPf f),
          groupPf := chownTo (groupKnown env) (processGroup env) (writeGroup w) (groupPf f)\<rparr>)))))"

definition storageWritePosix :: "CopyEnv \<Rightarrow> PgWrite \<Rightarrow> byte list \<Rightarrow> (CopyState, unit) prog" where
  "storageWritePosix env w bytes = (case pgWriteError env (writeName w) of
     Some e \<Rightarrow> bindP (pgUpdate (writeName w) (\<lambda>f. f\<lparr>content := pgLeft env (writeName w)\<rparr>)) (\<lambda>_. throwP e)
   | None \<Rightarrow> pgUpdate (writeName w) (\<lambda>f. f\<lparr>content := content f @ bytes\<rparr>))"

definition storageWritePosixClose :: "CopyEnv \<Rightarrow> PgWrite \<Rightarrow> (CopyState, unit) prog" where
  "storageWritePosixClose env w =
     bindP (maybeP (pgCloseError env (writeName w))) (\<lambda>_.
     whenP (writeTime w \<noteq> 0)
       (if utimeFails env (writeName w) then throwP FileInfoError
        else pgUpdate (writeName w) (\<lambda>f. f\<lparr>modifiedPf := writeTime w\<rparr>)))"

section \<open>Restoring a file\<close>

definition STORAGE_REPO_BACKUP :: string where "STORAGE_REPO_BACKUP = ''<REPO:BACKUP>''"

definition repoPathFileOf :: "'a Libraries_scheme \<Rightarrow> string \<Rightarrow> string \<Rightarrow> u32 \<Rightarrow> string result" where
  "repoPathFileOf lib label repoFile' t =
     bindE (compressExtStr lib t) (\<lambda>ext. Inr (STORAGE_REPO_BACKUP @ ''/'' @ label @ ''/'' @ repoFile' @ ext))"

text \<open>What is read from the repository goes through decryption and decompression.\<close>

definition decodeFilter :: "'a Libraries_scheme \<Rightarrow> u64 \<Rightarrow> string option \<Rightarrow> u32 \<Rightarrow> (byte list \<Rightarrow> byte list result) result" where
  "decodeFilter lib cipher pass t =
     bindE (if t \<noteq> compressTypeNone then decompressFilter lib t else Inr Inr) (\<lambda>decompress.
     Inr (\<lambda>bytes. bindE (case pass of Some p \<Rightarrow> decryptData lib cipher p bytes | None \<Rightarrow> Inr bytes) decompress))"

definition repoOpen :: "CopyEnv \<Rightarrow> string \<Rightarrow> (CopyState, byte list) prog" where
  "repoOpen env name =
     bindP (maybeP (repoOpenError env name)) (\<lambda>_.
     bindP (getP (\<lambda>s. repoFiles s name)) (\<lambda>f.
     case f of None \<Rightarrow> throwP FileMissingError | Some bytes \<Rightarrow> retP bytes))"

text \<open>The check whether a file has to be copied at all.\<close>

definition restoreDelta :: "CopyEnv \<Rightarrow> RestoreFileParam \<Rightarrow> string \<Rightarrow> (CopyState, bool) prog" where
  "restoreDelta env p name =
     (if delta_rf p \<and> \<not> pgFileZero p then
        bindP (getP (\<lambda>s. pgFiles s name)) (\<lambda>info.
        case info of
          None \<Rightarrow> retP True
        | Some f \<Rightarrow>
            if deltaForce p then
              retP (\<not> (sizeOf64 (content f) = pgFileSize p \<and> modifiedPf f = pgFileModified p \<and> modifiedPf f <s copyTimeBegin p))
            else if sizeOf64 (content f) = pgFileSize p then
              bindP (whenP (sizeOf64 (content f) \<noteq> 0)
                (bindP (maybeP (pgOpenError env name)) (\<lambda>_. maybeP (pgReadError env name)))) (\<lambda>_.
              if pgFileSize p = 0 \<or> pgFileChecksum p = Some (hashSha1 env (content f)) then
                bindP (whenP (modifiedPf f \<noteq> pgFileModified p)
                  (if utimeFails env name then throwP FileInfoError
                   else pgUpdate name (\<lambda>f. f\<lparr>modifiedPf := pgFileModified p\<rparr>))) (\<lambda>_.
                retP False)
              else retP True)
            else retP True)
      else retP True)"

text \<open>A file of zeroes or without content.\<close>

definition restoreZero :: "CopyEnv \<Rightarrow> RestoreFileParam \<Rightarrow> PgWrite \<Rightarrow> (CopyState, bool) prog" where
  "restoreZero env p w =
     bindP (storageWritePosixOpen env w) (\<lambda>_.
     bindP (if pgFileZero p
            then bindP (if pgWriteError env (writeName w) \<noteq> None then throwP FileWriteError
                        else pgUpdate (writeName w) (\<lambda>f. f\<lparr>content := replicate (unat (pgFileSize p)) 0\<rparr>)) (\<lambda>_. retP False)
            else retP True) (\<lambda>result.
     bindP (storageWritePosixClose env w) (\<lambda>_.
     retP result)))"

definition restoreCopy :: "CopyEnv \<Rightarrow> RestoreFileParam \<Rightarrow> PgWrite \<Rightarrow> string \<Rightarrow> string \<Rightarrow> (CopyState, bool) prog" where
  "restoreCopy env p w label repoFile' =
     bindP (liftP (decodeFilter env cipherTypeAes256Cbc (cipherPass p) (repoFileCompressType p))) (\<lambda>decode.
     bindP (liftP (repoPathFileOf env label repoFile' (repoFileCompressType p))) (\<lambda>source.
     bindP (repoOpen env source) (\<lambda>bytes.
     bindP (storageWritePosixOpen env w) (\<lambda>_.
     case (case repoReadError env source of Some e \<Rightarrow> Inl e | None \<Rightarrow> decode bytes) of
       Inl e \<Rightarrow> bindP (pgUpdate (writeName w) (\<lambda>f. f\<lparr>content := pgLeft env (writeName w)\<rparr>)) (\<lambda>_. throwP e)
     | Inr data \<Rightarrow>
         bindP (storageWritePosix env w data) (\<lambda>_.
         bindP (storageWritePosixClose env w) (\<lambda>_.
         if pgFileChecksum p = Some (hashSha1 env data) then retP True else throwP ChecksumError))))))"

definition restoreFile :: "CopyEnv \<Rightarrow> RestoreFileParam \<Rightarrow> (CopyState, bool) prog" where
  "restoreFile env p = (case (repoFile p, repoFileReference p, pgFile p) of
     (Some repoFile', Some label, Some name) \<Rightarrow>
       bindP (restoreDelta env p name) (\<lambda>copy.
       if copy then
         (let w = \<lparr>writeName = name, writeMode = pgFileMode p, writeUser = pgFileUser p, writeGroup = pgFileGroup p, writeTime = pgFileModified p\<rparr>
          in if pgFileSize p = 0 \<or> pgFileZero p then restoreZero env p w else restoreCopy env p w label repoFile')
       else retP False)
   | _ \<Rightarrow> throwP AssertError)"

section \<open>Backing up a file\<close>

datatype BackupCopyResult =
    backupCopyResultChecksum | backupCopyResultCopy | backupCopyResultReCopy | backupCopyResultSkip | backupCopyResultNoOp

record BackupFileResult =
  backupCopyResult :: BackupCopyResult
  copySize :: u64
  copyChecksum :: "string option"
  repoSizeBf :: u64
  pageChecksumResultBf :: "PageChecksumResult option"

definition segmentNumber :: "string \<Rightarrow> u32 result" where
  "segmentNumber pgFile' =
     bindE (regExpMatchOne (CHR 0x5C # ''.[0-9]+$'') pgFile') (\<lambda>match.
     if match then mapE of_nat (cvtZToUInt (rev (takeWhile (\<lambda>c. c \<noteq> CHR ''.'') (rev pgFile')))) else Inr 0)"

text \<open>Reading a file of the data directory, up to the limit; \<^term>\<open>None\<close> when a missing file is ignored.\<close>

definition pgOpen :: "CopyEnv \<Rightarrow> string \<Rightarrow> bool \<Rightarrow> u64 option \<Rightarrow> (CopyState, byte list option) prog" where
  "pgOpen env name ignoreMissing limit =
     bindP (maybeP (pgOpenError env name)) (\<lambda>_.
     bindP (getP (\<lambda>s. pgFiles s name)) (\<lambda>f.
     case f of
       None \<Rightarrow> if ignoreMissing then retP None else throwP FileMissingError
     | Some x \<Rightarrow> retP (Some (case limit of None \<Rightarrow> content x | Some l \<Rightarrow> take (unat l) (content x)))))"

definition backupLimit :: "BackupFileParam \<Rightarrow> u64 option" where
  "backupLimit p = (if pgFileCopyExactSize p then Some (pgFileSize_bf p) else None)"

text \<open>The check of the file in the data directory; also whether it matches.\<close>

definition backupDelta :: "CopyEnv \<Rightarrow> BackupFileParam \<Rightarrow> string \<Rightarrow> string \<Rightarrow> BackupFileResult \<Rightarrow> (CopyState, BackupFileResult \<times> bool) prog" where
  "backupDelta env p name checksum result =
     bindP (pgOpen env name (pgFileIgnoreMissing p) (backupLimit p)) (\<lambda>read.
     case read of
       None \<Rightarrow> retP (result\<lparr>backupCopyResult := backupCopyResultSkip\<rparr>, False)
     | Some bytes \<Rightarrow>
         bindP (maybeP (pgReadError env name)) (\<lambda>_.
         if pgFileSize_bf p = sizeOf64 bytes \<and> checksum = hashSha1 env bytes then
           retP (if repoFileHasReference p
                 then result\<lparr>backupCopyResult := backupCopyResultNoOp, copySize := sizeOf64 bytes, copyChecksum := Some (hashSha1 env bytes)\<rparr>
                 else result, True)
         else retP (result, False)))"

text \<open>The check of the file in the repository.\<close>

definition backupRepoRead :: "CopyEnv \<Rightarrow> BackupFileParam \<Rightarrow> string \<Rightarrow> (CopyState, byte list) prog" where
  "backupRepoRead env p path =
     bindP (liftP (decodeFilter env (cipherType p) (if cipherType p \<noteq> cipherTypeNone then cipherPass_bf p else None) (repoFileCompressType_bf p))) (\<lambda>decode.
     bindP (repoOpen env path) (\<lambda>bytes.
     bindP (maybeP (repoReadError env path)) (\<lambda>_.
     liftP (decode bytes))))"

definition backupRepoCheck :: "CopyEnv \<Rightarrow> BackupFileParam \<Rightarrow> string \<Rightarrow> string \<Rightarrow> BackupFileResult \<Rightarrow> (CopyState, BackupFileResult) prog" where
  "backupRepoCheck env p path checksum result =
     tryP
       (bindP (backupRepoRead env p path) (\<lambda>bytes.
        if pgFileSize_bf p = sizeOf64 bytes \<and> checksum = hashSha1 env bytes
        then retP (result\<lparr>backupCopyResult := backupCopyResultChecksum, copySize := sizeOf64 bytes, copyChecksum := Some (hashSha1 env bytes)\<rparr>)
        else retP (result\<lparr>backupCopyResult := backupCopyResultReCopy\<rparr>)))
       (\<lambda>_. retP (result\<lparr>backupCopyResult := backupCopyResultReCopy\<rparr>))"

definition backupCheck :: "CopyEnv \<Rightarrow> BackupFileParam \<Rightarrow> string \<Rightarrow> string \<Rightarrow> BackupFileResult \<Rightarrow> (CopyState, BackupFileResult) prog" where
  "backupCheck env p name path result = (case pgFileChecksum_bf p of
     None \<Rightarrow> retP result
   | Some checksum \<Rightarrow>
       bindP (if delta_bf p then backupDelta env p name checksum result else retP (result, False)) (\<lambda>(result', pgFileMatch).
       if \<not> delta_bf p \<or> \<not> repoFileHasReference p then
         (if backupCopyResult result' = backupCopyResultSkip then
            bindP (maybeP (repoRemoveError env path)) (\<lambda>_.
            bindP (repoPut path None) (\<lambda>_.
            retP result'))
          else if \<not> delta_bf p \<or> pgFileMatch then backupRepoCheck env p path checksum result'
          else retP result')
       else retP result'))"

text \<open>The filters between the two files, from the data that is read to the data that is written.\<close>

definition encodeFilter :: "'a Libraries_scheme \<Rightarrow> BackupFileParam \<Rightarrow> (byte list \<Rightarrow> byte list) result" where
  "encodeFilter lib p =
     bindE (if repoFileCompressType_bf p \<noteq> compressTypeNone
            then compressFilter lib (repoFileCompressType_bf p) (repoFileCompressLevel p) else Inr id) (\<lambda>compress.
     Inr (\<lambda>bytes. if cipherType p \<noteq> cipherTypeNone
       then encryptData lib (cipherType p) (case cipherPass_bf p of Some pass \<Rightarrow> pass | None \<Rightarrow> []) (compress bytes) else compress bytes))"

definition pageFilter :: "CopyEnv \<Rightarrow> BackupFileParam \<Rightarrow> u32 option \<Rightarrow> byte list \<Rightarrow> PageChecksumResult option result" where
  "pageFilter env p segmentNo bytes = (case segmentNo of
     None \<Rightarrow> Inr None
   | Some n \<Rightarrow> mapE Some (pageChecksumFile (ioBufferSize env) n (pgFileChecksumPageLsnLimit p) bytes))"

definition backupCopy :: "CopyEnv \<Rightarrow> BackupFileParam \<Rightarrow> string \<Rightarrow> string \<Rightarrow> BackupFileResult \<Rightarrow> (CopyState, BackupFileResult) prog" where
  "backupCopy env p name path result =
     bindP (liftP (if pgFileChecksumPage p then mapE Some (segmentNumber name) else Inr None)) (\<lambda>segmentNo.
     bindP (liftP (encodeFilter env p)) (\<lambda>encode.
     bindP (pgOpen env name (pgFileIgnoreMissing p) (backupLimit p)) (\<lambda>read.
     case read of
       None \<Rightarrow> retP (result\<lparr>backupCopyResult := backupCopyResultSkip\<rparr>)
     | Some bytes \<Rightarrow>
         bindP (maybeP (repoWriteOpenError env path)) (\<lambda>_.
         case (case (pgReadError env name, repoWriteError env path) of
                 (Some e, _) \<Rightarrow> Inl e
               | (None, Some e) \<Rightarrow> Inl e
               | (None, None) \<Rightarrow> pageFilter env p segmentNo bytes) of
           Inl e \<Rightarrow> bindP (repoPut path (repoLeft env path)) (\<lambda>_. throwP e)
         | Inr pages \<Rightarrow>
             bindP (repoPut path (Some (encode bytes))) (\<lambda>_.
             retP (result\<lparr>copySize := sizeOf64 bytes, copyChecksum := Some (hashSha1 env bytes), repoSizeBf := sizeOf64 (encode bytes),
               pageChecksumResultBf := pages\<rparr>))))))"

definition backupFile :: "CopyEnv \<Rightarrow> BackupFileParam \<Rightarrow> (CopyState, BackupFileResult) prog" where
  "backupFile env p = (case (pgFile_bf p, repoFile_bf p, backupLabel_bf p) of
     (Some name, Some repoFile', Some label) \<Rightarrow>
       bindP (liftP (ASSERT (cipherType p = cipherTypeNone \<longleftrightarrow> cipherPass_bf p = None))) (\<lambda>_.
       bindP (liftP (repoPathFileOf env label repoFile' (repoFileCompressType_bf p))) (\<lambda>path.
       bindP (backupCheck env p name path \<lparr>backupCopyResult = backupCopyResultCopy, copySize = 0, copyChecksum = None, repoSizeBf = 0,
         pageChecksumResultBf = None\<rparr>) (\<lambda>result.
       bindP (if backupCopyResult result \<in> {backupCopyResultCopy, backupCopyResultReCopy} then backupCopy env p name path result else retP result) (\<lambda>result'.
       if backupCopyResult result' \<in> {backupCopyResultCopy, backupCopyResultReCopy} \<and> repoFeatureCompress env \<or>
          backupCopyResult result' = backupCopyResultChecksum then
         bindP (getP (\<lambda>s. repoFiles s path)) (\<lambda>f.
         case f of
           None \<Rightarrow> throwP FileOpenError
         | Some bytes \<Rightarrow> retP (result'\<lparr>repoSizeBf := repoSizeAtRest env bytes\<rparr>))
       else retP result'))))
   | _ \<Rightarrow> throwP AssertError)"

end
