(* ===== verification/FileCopyProof.thy ===== *)
theory FileCopyProof
  imports FileCopy
begin

text \<open>
  What is known after a file was backed up or restored: the result of backupFile describes what is in the
  repository, restoreFile leaves the file that was asked for, and what was backed up is what
  a restore writes.
\<close>

section \<open>The libraries\<close>

text \<open>What the libraries promise: decompression and decryption give back what went in.\<close>

definition librariesOk :: "'a Libraries_scheme \<Rightarrow> bool" where
  "librariesOk lib \<longleftrightarrow>
     (\<forall>t level bytes. decompressData lib t (compressData lib t level bytes) = Inr bytes) \<and>
     (\<forall>cipher pass bytes. decryptData lib cipher pass (encryptData lib cipher pass bytes) = Inr bytes)"

text \<open>What the bytes of a file in the repository stand for.\<close>

definition decodes :: "'a Libraries_scheme \<Rightarrow> u64 \<Rightarrow> string option \<Rightarrow> u32 \<Rightarrow> byte list \<Rightarrow> byte list \<Rightarrow> bool" where
  "decodes lib cipher pass t bytes data \<longleftrightarrow> (\<exists>decode. decodeFilter lib cipher pass t = Inr decode \<and> decode bytes = Inr data)"

lemma encode_decodes:
  assumes "librariesOk lib" "encodeFilter lib p = Inr encode" "cipherType p = cipherTypeNone \<longleftrightarrow> cipherPass_bf p = None"
  shows "decodes lib (cipherType p) (cipherPass_bf p) (repoFileCompressType_bf p) (encode data) data"
  using assms
  by (auto simp: decodes_def encodeFilter_def decodeFilter_def compressFilter_def decompressFilter_def bindE_eq_Inr librariesOk_def
      split: option.splits if_splits)

lemma maybeP_Inr [simp]: "maybeP e s = (Inr u, s') \<longleftrightarrow> e = None \<and> s' = s"
  by (auto simp: maybeP_def run_simps split: option.splits)

section \<open>Backing up\<close>

definition pgData :: "BackupFileParam \<Rightarrow> CopyState \<Rightarrow> string \<Rightarrow> byte list option" where
  "pgData p s name = map_option (\<lambda>f. case backupLimit p of None \<Rightarrow> content f | Some l \<Rightarrow> take (unat l) (content f)) (pgFiles s name)"

lemma pgData_None: "pgData p s name = None \<longleftrightarrow> pgFiles s name = None"
  by (auto simp: pgData_def)

lemma pgOpen_Inr:
  "pgOpen env name ignore (backupLimit p) s = (Inr read, s') \<Longrightarrow> s' = s \<and> read = pgData p s name \<and> (read = None \<longrightarrow> ignore)"
  by (auto simp: pgOpen_def run_bind_Inr pgData_def run_basic split: option.splits if_splits)

lemma repoRead_Inr:
  assumes "backupRepoRead env p path s = (Inr data, s')" "cipherType p = cipherTypeNone \<longleftrightarrow> cipherPass_bf p = None"
  shows "s' = s \<and> (\<exists>bytes. repoFiles s path = Some bytes \<and> decodes env (cipherType p) (cipherPass_bf p) (repoFileCompressType_bf p) bytes data)"
proof -
  have "(if cipherType p \<noteq> cipherTypeNone then cipherPass_bf p else None) = cipherPass_bf p" using assms(2) by auto
  then show ?thesis using assms(1)
    by (auto simp: backupRepoRead_def repoOpen_def run_bind_Inr run_basic decodes_def split: option.splits)
qed

lemma backupRepoRead_state: "snd (backupRepoRead env p path s) = s"
  by (auto simp: backupRepoRead_def repoOpen_def maybeP_def run_simps split: prod.splits sum.splits option.splits)

text \<open>The outcomes of the check before the copy.\<close>

definition checked :: "CopyEnv \<Rightarrow> BackupFileParam \<Rightarrow> string \<Rightarrow> string \<Rightarrow> CopyState \<Rightarrow> BackupFileResult \<Rightarrow> CopyState \<Rightarrow> bool" where
  "checked env p name path s r s' \<longleftrightarrow> pgFiles s' = pgFiles s \<and> (\<forall>q. q \<noteq> path \<longrightarrow> repoFiles s' q = repoFiles s q) \<and> (case backupCopyResult r of
     backupCopyResultSkip \<Rightarrow> pgFiles s name = None \<and> pgFileIgnoreMissing p \<and> (repoFileHasReference p \<and> repoFiles s' = repoFiles s \<or> repoFiles s' path = None)
   | backupCopyResultNoOp \<Rightarrow> repoFiles s' = repoFiles s \<and> repoFileHasReference p \<and> (\<exists>data. pgData p s name = Some data \<and>
       pgFileChecksum_bf p = Some (hashSha1 env data) \<and> copyChecksum r = pgFileChecksum_bf p \<and> pgFileSize_bf p = sizeOf64 data \<and> copySize r = pgFileSize_bf p)
   | backupCopyResultChecksum \<Rightarrow> repoFiles s' = repoFiles s \<and> (\<exists>bytes data. repoFiles s' path = Some bytes \<and>
       decodes env (cipherType p) (cipherPass_bf p) (repoFileCompressType_bf p) bytes data \<and>
       pgFileChecksum_bf p = Some (hashSha1 env data) \<and> copyChecksum r = pgFileChecksum_bf p \<and> pgFileSize_bf p = sizeOf64 data \<and> copySize r = pgFileSize_bf p)
   | _ \<Rightarrow> repoFiles s' = repoFiles s)"

lemma backupRepoCheck_Inr:
  assumes "backupRepoCheck env p path checksum r0 s = (Inr r, s')" "cipherType p = cipherTypeNone \<longleftrightarrow> cipherPass_bf p = None" "pgFileChecksum_bf p = Some checksum"
  shows "checked env p name path s r s'"
proof -
  obtain x s1 where x: "backupRepoRead env p path s = (x, s1)" by fastforce
  have s1: "s1 = s" using backupRepoRead_state [of env p path s] x by simp
  show ?thesis
  proof (cases x)
    case (Inl e)
    then show ?thesis using assms(1) x s1
      by (auto simp: backupRepoCheck_def run_simps checked_def split: if_splits)
  next
    case (Inr data)
    then show ?thesis using assms x s1 repoRead_Inr [of env p path s data s]
      by (auto simp: backupRepoCheck_def run_simps checked_def split: if_splits)
  qed
qed

lemma backupDelta_Inr:
  assumes "backupDelta env p name checksum r0 s = (Inr (r, match), s')" "backupCopyResult r0 = backupCopyResultCopy" "pgFileChecksum_bf p = Some checksum"
  shows "s' = s \<and> (case backupCopyResult r of
     backupCopyResultSkip \<Rightarrow> pgFiles s name = None \<and> pgFileIgnoreMissing p
   | backupCopyResultNoOp \<Rightarrow> repoFileHasReference p \<and> (\<exists>data. pgData p s name = Some data \<and>
       pgFileChecksum_bf p = Some (hashSha1 env data) \<and> copyChecksum r = pgFileChecksum_bf p \<and> pgFileSize_bf p = sizeOf64 data \<and> copySize r = pgFileSize_bf p)
   | backupCopyResultCopy \<Rightarrow> True | _ \<Rightarrow> False)"
proof -
  obtain read s1 where "pgOpen env name (pgFileIgnoreMissing p) (backupLimit p) s = (Inr read, s1)"
    using assms(1) by (auto simp: backupDelta_def run_bind_Inr)
  with pgOpen_Inr [OF this] have read: "pgOpen env name (pgFileIgnoreMissing p) (backupLimit p) s = (Inr (pgData p s name), s)"
    "pgFiles s name = None \<longrightarrow> pgFileIgnoreMissing p" using pgData_None [of p s name] by auto
  show ?thesis
  proof (cases "pgData p s name")
    case None
    then show ?thesis using assms read pgData_None [of p s name] by (auto simp: backupDelta_def run_bind_Inr run_basic)
  next
    case (Some data)
    then show ?thesis using assms read by (auto simp: backupDelta_def run_bind_Inr run_basic split: if_splits)
  qed
qed

lemma backupCheck_Inr:
  assumes "backupCheck env p name path r0 s = (Inr r, s')" "backupCopyResult r0 = backupCopyResultCopy"
    and "cipherType p = cipherTypeNone \<longleftrightarrow> cipherPass_bf p = None"
  shows "checked env p name path s r s'"
proof (cases "pgFileChecksum_bf p")
  case None
  then show ?thesis using assms(1,2) by (auto simp: backupCheck_def run_simps checked_def)
next
  case (Some checksum)
  obtain r1 match s1 where 1: "(if delta_bf p then backupDelta env p name checksum r0 else retP (r0, False)) s = (Inr (r1, match), s1)"
    and 2: "(if \<not> delta_bf p \<or> \<not> repoFileHasReference p then
         (if backupCopyResult r1 = backupCopyResultSkip then
            bindP (maybeP (repoRemoveError env path)) (\<lambda>_. bindP (repoPut path None) (\<lambda>_. retP r1))
          else if \<not> delta_bf p \<or> match then backupRepoCheck env p path checksum r1
          else retP r1)
       else retP r1) s1 = (Inr r, s')"
    using assms(1) Some by (auto simp: backupCheck_def run_bind_Inr)
  have d: "s1 = s" "case backupCopyResult r1 of
     backupCopyResultSkip \<Rightarrow> pgFiles s name = None \<and> pgFileIgnoreMissing p
   | backupCopyResultNoOp \<Rightarrow> repoFileHasReference p \<and> (\<exists>data. pgData p s name = Some data \<and>
       pgFileChecksum_bf p = Some (hashSha1 env data) \<and> copyChecksum r1 = pgFileChecksum_bf p \<and> pgFileSize_bf p = sizeOf64 data \<and> copySize r1 = pgFileSize_bf p)
   | backupCopyResultCopy \<Rightarrow> True | _ \<Rightarrow> False"
    using 1 backupDelta_Inr [of env p name checksum r0 s r1 match s1] Some assms(2) by (auto simp: run_simps split: if_splits)
  show ?thesis
    using 2 d backupRepoCheck_Inr [of env p path checksum r1 s r s'] assms(3) Some
    by (cases "backupCopyResult r1") (auto simp: checked_def run_bind_Inr run_basic repoPut_def split: if_splits)
qed

lemma backupCopy_Inr:
  assumes "backupCopy env p name path r0 s = (Inr r, s')"
  shows "backupCopyResult r = backupCopyResultSkip \<and> s' = s \<and> pgFiles s name = None \<and> pgFileIgnoreMissing p \<or>
    backupCopyResult r = backupCopyResult r0 \<and> (\<exists>data encode. pgData p s name = Some data \<and> encodeFilter env p = Inr encode \<and>
      s' = s\<lparr>repoFiles := (repoFiles s)(path \<mapsto> encode data)\<rparr> \<and> copySize r = sizeOf64 data \<and> copyChecksum r = Some (hashSha1 env data))"
proof -
  obtain encode read s1 where e: "encodeFilter env p = Inr encode"
    and "pgOpen env name (pgFileIgnoreMissing p) (backupLimit p) s = (Inr read, s1)"
    using assms by (auto simp: backupCopy_def run_bind_Inr run_basic split: if_splits)
  with pgOpen_Inr [of env name "pgFileIgnoreMissing p" p s] have
    read: "pgOpen env name (pgFileIgnoreMissing p) (backupLimit p) s = (Inr (pgData p s name), s)" "pgFiles s name = None \<longrightarrow> pgFileIgnoreMissing p"
    using pgData_None [of p s name] by auto
  show ?thesis
  proof (cases "pgData p s name")
    case None
    then show ?thesis using assms read pgData_None [of p s name] by (auto simp: backupCopy_def run_bind_Inr run_basic split: if_splits)
  next
    case (Some data)
    then show ?thesis using assms read e
      by (auto simp: backupCopy_def repoPut_def run_bind_Inr run_basic split: if_splits option.splits sum.splits)
  qed
qed

text \<open>The copy is stored under the path of the file.\<close>

definition stored :: "CopyEnv \<Rightarrow> BackupFileParam \<Rightarrow> string \<Rightarrow> CopyState \<Rightarrow> byte list \<Rightarrow> bool" where
  "stored env p path s data \<longleftrightarrow> (\<exists>bytes. repoFiles s path = Some bytes \<and>
     decodes env (cipherType p) (cipherPass_bf p) (repoFileCompressType_bf p) bytes data)"

lemma backupFile_parts:
  assumes "backupFile env p s = (Inr r, s')" "pgFile_bf p = Some name" "repoFile_bf p = Some repoFile'" "backupLabel_bf p = Some label"
    and "repoPathFileOf env label repoFile' (repoFileCompressType_bf p) = Inr path"
  obtains r1 s1 r2 where "cipherType p = cipherTypeNone \<longleftrightarrow> cipherPass_bf p = None" "checked env p name path s r1 s1"
    "(if backupCopyResult r1 \<in> {backupCopyResultCopy, backupCopyResultReCopy} then backupCopy env p name path r1 else retP r1) s1 = (Inr r2, s')"
    "backupCopyResult r = backupCopyResult r2" "copySize r = copySize r2" "copyChecksum r = copyChecksum r2"
proof -
  let ?r0 = "\<lparr>backupCopyResult = backupCopyResultCopy, copySize = 0, copyChecksum = None, repoSizeBf = 0, pageChecksumResultBf = None\<rparr>"
  let ?copy = "\<lambda>r1. if backupCopyResult r1 \<in> {backupCopyResultCopy, backupCopyResultReCopy} then backupCopy env p name path r1 else retP r1"
  let ?size = "\<lambda>r2. if backupCopyResult r2 \<in> {backupCopyResultCopy, backupCopyResultReCopy} \<and> repoFeatureCompress env \<or>
      backupCopyResult r2 = backupCopyResultChecksum then
        bindP (getP (\<lambda>s. repoFiles s path)) (\<lambda>f. case f of None \<Rightarrow> throwP FileOpenError | Some bytes \<Rightarrow> retP (r2\<lparr>repoSizeBf := repoSizeAtRest env bytes\<rparr>))
      else retP r2"
  obtain r1 s1 r2 s2 where c: "cipherType p = cipherTypeNone \<longleftrightarrow> cipherPass_bf p = None"
    and 1: "backupCheck env p name path ?r0 s = (Inr r1, s1)" and 2: "?copy r1 s1 = (Inr r2, s2)" and 4: "?size r2 s2 = (Inr r, s')"
    using assms(1) unfolding backupFile_def assms(2-4) prod.case option.case run_bind_Inr [where m = "liftP _"] run_basic assms(5)
    by (simp only: run_bind_Inr) auto
  have 3: "s' = s2" "backupCopyResult r = backupCopyResult r2" "copySize r = copySize r2" "copyChecksum r = copyChecksum r2"
    using 4 by (auto simp: run_bind_Inr run_basic split: if_splits option.splits)
  from that [OF c backupCheck_Inr [OF 1 _ c] 2 [folded 3(1)] 3(2-4)] show thesis by simp
qed

lemma backupFile_outcome:
  assumes "librariesOk env" "backupFile env p s = (Inr r, s')"
    and "pgFile_bf p = Some name" "repoFile_bf p = Some repoFile'" "backupLabel_bf p = Some label"
    and "repoPathFileOf env label repoFile' (repoFileCompressType_bf p) = Inr path"
  shows "pgFiles s' = pgFiles s \<and> (\<forall>q. q \<noteq> path \<longrightarrow> repoFiles s' q = repoFiles s q) \<and> (case backupCopyResult r of
     backupCopyResultSkip \<Rightarrow> pgFiles s name = None \<and> pgFileIgnoreMissing p
   | backupCopyResultNoOp \<Rightarrow> repoFiles s' = repoFiles s \<and> repoFileHasReference p \<and> (\<exists>data. pgData p s name = Some data \<and>
       copyChecksum r = Some (hashSha1 env data) \<and> copySize r = sizeOf64 data \<and> copyChecksum r = pgFileChecksum_bf p \<and> copySize r = pgFileSize_bf p)
   | backupCopyResultChecksum \<Rightarrow> repoFiles s' = repoFiles s \<and> (\<exists>data. stored env p path s' data \<and>
       copyChecksum r = Some (hashSha1 env data) \<and> copySize r = sizeOf64 data \<and> copyChecksum r = pgFileChecksum_bf p \<and> copySize r = pgFileSize_bf p)
   | _ \<Rightarrow> (\<exists>data. pgData p s name = Some data \<and> stored env p path s' data \<and>
       copyChecksum r = Some (hashSha1 env data) \<and> copySize r = sizeOf64 data))"
proof -
  obtain r1 s1 r2 where c: "cipherType p = cipherTypeNone \<longleftrightarrow> cipherPass_bf p = None"
    and 1: "checked env p name path s r1 s1"
    and 2: "(if backupCopyResult r1 \<in> {backupCopyResultCopy, backupCopyResultReCopy} then backupCopy env p name path r1 else retP r1) s1 = (Inr r2, s')"
    and 3: "backupCopyResult r = backupCopyResult r2" "copySize r = copySize r2" "copyChecksum r = copyChecksum r2"
    using backupFile_parts [OF assms(2-6)] .
  show ?thesis
  proof (cases "backupCopyResult r1 \<in> {backupCopyResultCopy, backupCopyResultReCopy}")
    case True
    have s1: "pgFiles s1 = pgFiles s" "repoFiles s1 = repoFiles s" using 1 True by (auto simp: checked_def)
    then have "pgData p s1 name = pgData p s name" by (simp add: pgData_def)
    moreover have "stored env p path (s1\<lparr>repoFiles := (repoFiles s1)(path \<mapsto> encode data)\<rparr>) data" if "encodeFilter env p = Inr encode" for encode data
      using encode_decodes [OF assms(1) that c] by (simp add: stored_def)
    ultimately show ?thesis
      using backupCopy_Inr [of env p name path r1 s1 r2 s'] 2 3 True s1 by (auto split: if_splits)
  next
    case False
    then show ?thesis using 1 2 3 by (auto simp: checked_def stored_def run_basic split: BackupCopyResult.splits)
  qed
qed

text \<open>
  C5. The manifest can trust the result of a backup: when backupFile returns, the data directory and
  all other files of the repository are as before, and the result says what is true. A copy is in
  the repository and decodes to the data of the file, whose checksum and size are returned; a file that was
  checksummed is in the repository with the checksum that was asked for; a file that needs no copy
  has that checksum in the data directory; only a file that is missing is skipped.
\<close>

theorem backupFile_truthful:
  assumes "librariesOk env" "backupFile env p s = (Inr r, s')"
    and "pgFile_bf p = Some name" "repoFile_bf p = Some repoFile'" "backupLabel_bf p = Some label"
    and "repoPathFileOf env label repoFile' (repoFileCompressType_bf p) = Inr path"
  shows "pgFiles s' = pgFiles s \<and> (\<forall>q. q \<noteq> path \<longrightarrow> repoFiles s' q = repoFiles s q) \<and> (case backupCopyResult r of
     backupCopyResultSkip \<Rightarrow> pgFiles s name = None \<and> pgFileIgnoreMissing p
   | backupCopyResultNoOp \<Rightarrow> repoFiles s' = repoFiles s \<and> repoFileHasReference p \<and> (\<exists>data. pgData p s name = Some data \<and>
       copyChecksum r = Some (hashSha1 env data) \<and> copySize r = sizeOf64 data \<and> copyChecksum r = pgFileChecksum_bf p \<and> copySize r = pgFileSize_bf p)
   | backupCopyResultChecksum \<Rightarrow> repoFiles s' = repoFiles s \<and> (\<exists>data. stored env p path s' data \<and>
       copyChecksum r = Some (hashSha1 env data) \<and> copySize r = sizeOf64 data \<and> copyChecksum r = pgFileChecksum_bf p \<and> copySize r = pgFileSize_bf p)
   | _ \<Rightarrow> (\<exists>data. pgData p s name = Some data \<and> stored env p path s' data \<and>
       copyChecksum r = Some (hashSha1 env data) \<and> copySize r = sizeOf64 data))"
  using backupFile_outcome [OF assms] .

section \<open>Restoring\<close>

text \<open>States that differ only in one file of the data directory.\<close>

definition onlyFile :: "string \<Rightarrow> CopyState \<Rightarrow> CopyState \<Rightarrow> PgFile \<Rightarrow> bool" where
  "onlyFile name s s' f \<longleftrightarrow> repoFiles s' = repoFiles s \<and> (\<forall>q. q \<noteq> name \<longrightarrow> pgFiles s' q = pgFiles s q) \<and> pgFiles s' name = Some f"

lemma open_Inr:
  "storageWritePosixOpen env w s = (Inr u, s') \<Longrightarrow> \<exists>f. onlyFile (writeName w) s s' f \<and> content f = []"
  by (auto simp: storageWritePosixOpen_def onlyFile_def pgPut_def pgUpdate_def run_bind_Inr run_basic split: if_splits option.splits)

lemma write_Inr:
  "storageWritePosix env w bytes s1 = (Inr u, s') \<Longrightarrow> onlyFile (writeName w) s s1 f \<Longrightarrow>
     onlyFile (writeName w) s s' (f\<lparr>content := content f @ bytes\<rparr>)"
  by (auto simp: storageWritePosix_def onlyFile_def pgUpdate_def run_bind_Inr run_basic split: if_splits option.splits)

lemma close_Inr:
  "storageWritePosixClose env w s1 = (Inr u, s') \<Longrightarrow> onlyFile (writeName w) s s1 f \<Longrightarrow>
     onlyFile (writeName w) s s' (if writeTime w \<noteq> 0 then f\<lparr>modifiedPf := writeTime w\<rparr> else f)"
  by (auto simp: storageWritePosixClose_def onlyFile_def pgUpdate_def run_bind_Inr run_basic split: if_splits option.splits)

lemma restoreZero_Inr:
  assumes "restoreZero env p w s = (Inr copied, s')" "writeTime w \<noteq> 0"
  shows "\<exists>f. onlyFile (writeName w) s s' f \<and> modifiedPf f = writeTime w \<and> copied = (\<not> pgFileZero p) \<and>
    content f = (if pgFileZero p then replicate (unat (pgFileSize p)) 0 else [])"
proof -
  obtain u s1 where o: "storageWritePosixOpen env w s = (Inr u, s1)" using assms(1) by (auto simp: restoreZero_def run_bind_Inr)
  obtain f where f: "onlyFile (writeName w) s s1 f" "content f = []" using open_Inr [OF o] by blast
  let ?f = "if pgFileZero p then f\<lparr>content := replicate (unat (pgFileSize p)) 0\<rparr> else f"
  obtain v s2 where c: "storageWritePosixClose env w s2 = (Inr v, s')" "copied = (\<not> pgFileZero p)" "onlyFile (writeName w) s s2 ?f"
    using assms(1) o f(1) by (auto simp: restoreZero_def run_bind_Inr run_basic pgUpdate_def onlyFile_def split: if_splits)
  show ?thesis using close_Inr [OF c(1,3)] c(2) f(2) assms(2) by (auto split: if_splits)
qed

lemma restoreCopy_Inr:
  assumes "restoreCopy env p w label repoFile' s = (Inr copied, s')" "writeTime w \<noteq> 0"
  shows "\<exists>f source bytes. onlyFile (writeName w) s s' f \<and> modifiedPf f = writeTime w \<and> copied \<and> pgFileChecksum p = Some (hashSha1 env (content f)) \<and>
    repoPathFileOf env label repoFile' (repoFileCompressType p) = Inr source \<and> repoFiles s source = Some bytes \<and>
    decodes env cipherTypeAes256Cbc (cipherPass p) (repoFileCompressType p) bytes (content f)"
proof -
  obtain decode source bytes s1 where d: "decodeFilter env cipherTypeAes256Cbc (cipherPass p) (repoFileCompressType p) = Inr decode"
    and src: "repoPathFileOf env label repoFile' (repoFileCompressType p) = Inr source" "repoFiles s source = Some bytes"
    and o: "storageWritePosixOpen env w s = (Inr (), s1)"
    and rest: "(case (case repoReadError env source of Some e \<Rightarrow> Inl e | None \<Rightarrow> decode bytes) of
       Inl e \<Rightarrow> bindP (pgUpdate (writeName w) (\<lambda>f. f\<lparr>content := pgLeft env (writeName w)\<rparr>)) (\<lambda>_. throwP e)
     | Inr data \<Rightarrow> bindP (storageWritePosix env w data) (\<lambda>_. bindP (storageWritePosixClose env w) (\<lambda>_.
         if pgFileChecksum p = Some (hashSha1 env data) then retP True else throwP ChecksumError))) s1 = (Inr copied, s')"
    using assms(1) by (auto simp: restoreCopy_def repoOpen_def run_bind_Inr run_basic split: option.splits)
  obtain f where f: "onlyFile (writeName w) s s1 f" "content f = []" using open_Inr [OF o] by blast
  obtain data where data: "decode bytes = Inr data" "repoReadError env source = None"
    using rest by (auto simp: run_bind_Inr run_basic split: option.splits sum.splits)
  obtain s2 s3 where w: "storageWritePosix env w data s1 = (Inr (), s2)" and c: "storageWritePosixClose env w s2 = (Inr (), s3)"
    and h: "pgFileChecksum p = Some (hashSha1 env data)" "copied" "s' = s3"
    using rest data by (auto simp: run_bind_Inr run_basic split: if_splits)
  have "onlyFile (writeName w) s s' (f\<lparr>content := data, modifiedPf := writeTime w\<rparr>)"
    using close_Inr [OF c write_Inr [OF w f(1)]] f(2) assms(2) h(3) by simp
  then show ?thesis using d src data(1) h unfolding decodes_def
    by (intro exI [of _ "f\<lparr>content := data, modifiedPf := writeTime w\<rparr>"] exI [of _ source] exI [of _ bytes]) auto
qed

lemma restoreDelta_Inr:
  assumes "restoreDelta env p name s = (Inr copy, s')"
  shows "copy \<and> s' = s \<or> \<not> copy \<and> delta_rf p \<and> \<not> pgFileZero p \<and> (\<exists>f. pgFiles s name = Some f \<and> sizeOf64 (content f) = pgFileSize p \<and>
    onlyFile name s s' (f\<lparr>modifiedPf := pgFileModified p\<rparr>) \<and>
    (deltaForce p \<and> modifiedPf f = pgFileModified p \<and> modifiedPf f <s copyTimeBegin p \<or>
     \<not> deltaForce p \<and> (pgFileSize p = 0 \<or> pgFileChecksum p = Some (hashSha1 env (content f)))))"
  using assms
  by (auto simp: restoreDelta_def onlyFile_def pgUpdate_def run_bind_Inr run_basic split: if_splits option.splits)


section \<open>Backup and restore\<close>

definition sameLibraries :: "'a Libraries_scheme \<Rightarrow> 'b Libraries_scheme \<Rightarrow> bool" where
  "sameLibraries lib lib' \<longleftrightarrow> hashSha1 lib = hashSha1 lib' \<and> compressData lib = compressData lib' \<and> decompressData lib = decompressData lib' \<and>
     encryptData lib = encryptData lib' \<and> decryptData lib = decryptData lib' \<and> haveLibLz4 lib = haveLibLz4 lib' \<and> haveLibZst lib = haveLibZst lib'"

lemma sameLibraries_eqs:
  assumes "sameLibraries lib lib'"
  shows "hashSha1 lib = hashSha1 lib'" "repoPathFileOf lib = repoPathFileOf lib'" "decodeFilter lib = decodeFilter lib'" "decodes lib = decodes lib'"
proof -
  have e: "hashSha1 lib = hashSha1 lib'" "decompressData lib = decompressData lib'" "decryptData lib = decryptData lib'" "helpers lib = helpers lib'"
    using assms unfolding sameLibraries_def by simp_all
  show d: "hashSha1 lib = hashSha1 lib'" "repoPathFileOf lib = repoPathFileOf lib'" "decodeFilter lib = decodeFilter lib'"
    unfolding repoPathFileOf_def compressExtStr_def decodeFilter_def decompressFilter_def compressTypePresent_def e by (rule refl)+
  show "decodes lib = decodes lib'" by (simp add: fun_eq_iff decodes_def d)
qed

text \<open>An environment in which nothing fails during a restore.\<close>

definition restoreWorks :: "CopyEnv \<Rightarrow> bool" where
  "restoreWorks env \<longleftrightarrow> (\<forall>n. pgOpenError env n = None \<and> pgReadError env n = None \<and> pgWriteOpenError env n = None \<and> pgWriteError env n = None \<and>
     pgCloseError env n = None \<and> \<not> chownFails env n \<and> \<not> utimeFails env n \<and> repoOpenError env n = None \<and> repoReadError env n = None)"

lemma maybeP_None [simp]: "maybeP None = retP ()"
  by (simp add: maybeP_def)

lemma writes_total:
  assumes "restoreWorks env"
  shows "\<exists>s'. storageWritePosixOpen env w s = (Inr (), s')" "\<exists>s'. storageWritePosix env w bytes s = (Inr (), s')"
    "\<exists>s'. storageWritePosixClose env w s = (Inr (), s')"
  using assms
  by (auto simp: restoreWorks_def storageWritePosixOpen_def storageWritePosix_def storageWritePosixClose_def pgPut_def pgUpdate_def run_simps)

lemma restoreDelta_total: "restoreWorks env \<Longrightarrow> \<exists>copy s'. restoreDelta env p name s = (Inr copy, s')"
  by (auto simp: restoreWorks_def restoreDelta_def pgUpdate_def run_simps split: option.splits)

lemma restoreCopy_total:
  assumes "restoreWorks env" "repoPathFileOf env label repoFile' (repoFileCompressType p) = Inr source" "repoFiles s source = Some bytes"
    and "decodes env cipherTypeAes256Cbc (cipherPass p) (repoFileCompressType p) bytes data" "pgFileChecksum p = Some (hashSha1 env data)"
  shows "\<exists>s'. restoreCopy env p w label repoFile' s = (Inr True, s')"
proof -
  obtain decode where d: "decodeFilter env cipherTypeAes256Cbc (cipherPass p) (repoFileCompressType p) = Inr decode" "decode bytes = Inr data"
    using assms(4) by (auto simp: decodes_def)
  obtain s1 where o: "storageWritePosixOpen env w s = (Inr (), s1)" using writes_total(1) [OF assms(1)] by blast
  obtain s2 where w: "storageWritePosix env w data s1 = (Inr (), s2)" using writes_total(2) [OF assms(1)] by blast
  obtain s3 where c: "storageWritePosixClose env w s2 = (Inr (), s3)" using writes_total(3) [OF assms(1)] by blast
  show ?thesis using assms d o w c by (simp add: restoreCopy_def repoOpen_def restoreWorks_def run_simps)
qed

lemma unat_sizeOf64: "length data < 2 ^ 64 \<Longrightarrow> unat (sizeOf64 data) = length data"
  by (simp add: sizeOf64_def unat_of_nat)

lemma sizeOf64_inj: "length a < 2 ^ 64 \<Longrightarrow> length b < 2 ^ 64 \<Longrightarrow> sizeOf64 a = sizeOf64 b \<longleftrightarrow> length a = length b"
  by (metis sizeOf64_def unat_sizeOf64)

lemma decodes_cipher:
  assumes "decodes lib cipher pass t bytes data" "pass \<noteq> None \<Longrightarrow> cipher = cipher'"
  shows "decodes lib cipher' pass t bytes data"
  using assms by (cases pass) (auto simp: decodes_def decodeFilter_def)

lemma decodes_unique: "decodes lib cipher pass t bytes data \<Longrightarrow> decodes lib cipher pass t bytes data' \<Longrightarrow> data = data'"
  by (auto simp: decodes_def)

text \<open>A restore of a file whose repository file stands for the data.\<close>

lemma restoreFile_total:
  assumes "restoreWorks env" "repoFile q = Some repoFile'" "repoFileReference q = Some label" "pgFile q = Some target"
    and "repoPathFileOf env label repoFile' (repoFileCompressType q) = Inr path" "repoFiles t path = Some bytes"
    and "decodes env cipherTypeAes256Cbc (cipherPass q) (repoFileCompressType q) bytes data"
    and "pgFileChecksum q = Some (hashSha1 env data)" "pgFileSize q = sizeOf64 data" "\<not> pgFileZero q" "\<not> deltaForce q" "pgFileModified q \<noteq> 0"
    and "length data < 2 ^ 64" "\<And>f. pgFiles t target = Some f \<Longrightarrow> length (content f) < 2 ^ 64"
  shows "\<exists>copied t' f. restoreFile env q t = (Inr copied, t') \<and> onlyFile target t t' f \<and>
    hashSha1 env (content f) = hashSha1 env data \<and> length (content f) = length data \<and> (copied \<or> \<not> delta_rf q \<longrightarrow> content f = data)"
proof -
  let ?w = "\<lparr>writeName = target, writeMode = pgFileMode q, writeUser = pgFileUser q, writeGroup = pgFileGroup q, writeTime = pgFileModified q\<rparr>"
  obtain copy t1 where d: "restoreDelta env q target t = (Inr copy, t1)" using restoreDelta_total [OF assms(1)] by blast
  have run: "restoreFile env q t = (if copy then if pgFileSize q = 0 then restoreZero env q ?w else restoreCopy env q ?w label repoFile' else retP False) t1"
    using d assms(2-4,10) by (simp add: restoreFile_def run_simps Let_def)
  have zero: "pgFileSize q = 0 \<longleftrightarrow> data = []" using unat_sizeOf64 [OF assms(13)] assms(9) by (metis length_0_conv unat_0 unat_eq_zero)
  show ?thesis
  proof (cases copy)
    case False
    then obtain f where f: "pgFiles t target = Some f" "sizeOf64 (content f) = pgFileSize q" "onlyFile target t t1 (f\<lparr>modifiedPf := pgFileModified q\<rparr>)"
        "pgFileSize q = 0 \<or> pgFileChecksum q = Some (hashSha1 env (content f))" "delta_rf q"
      using restoreDelta_Inr [OF d] assms(11) by blast
    have "sizeOf64 (content f) = sizeOf64 data" using f(2) assms(9) by (rule trans)
    then have l: "length (content f) = length data" unfolding sizeOf64_inj [OF assms(14) [OF f(1)] assms(13)] .
    have h: "hashSha1 env (content f) = hashSha1 env data" using f(4) l zero assms(8) by (cases "data = []") auto
    have r: "restoreFile env q t = (Inr False, t1)" using run False by (simp add: run_basic)
    show ?thesis
      by (rule exI [of _ False], rule exI [of _ t1], rule exI [of _ "f\<lparr>modifiedPf := pgFileModified q\<rparr>"]) (simp add: r f(3,5) h l)
  next
    case True
    then have t1: "t1 = t" using restoreDelta_Inr [OF d] by blast
    show ?thesis
    proof (cases "pgFileSize q = 0")
      case True
      obtain copied t' where z: "restoreZero env q ?w t = (Inr copied, t')"
        using writes_total [OF assms(1)] assms(10) by (fastforce simp: restoreZero_def run_bind_Inr run_basic)
      then show ?thesis using restoreZero_Inr [OF z] run t1 True zero \<open>copy\<close> assms(10,12) by fastforce
    next
      case False
      obtain t' where c: "restoreCopy env q ?w label repoFile' t = (Inr True, t')"
        using restoreCopy_total [OF assms(1,5-8)] by blast
      have "\<exists>f. onlyFile target t t' f \<and> content f = data"
        using restoreCopy_Inr [OF c] assms(5,6,12) decodes_unique [OF assms(7)] by fastforce
      then show ?thesis using run t1 False \<open>copy\<close> c by auto
    qed
  qed
qed

text \<open>
  C4. What was backed up is restored: after backupFile has copied a file, a restore of it with the checksum and size
  that were returned, into any data directory and when nothing fails, ends with a file of
  the same size and checksum. If the restore copies the file, as it does without delta, the content is exactly
  the data that was read by the backup.
\<close>

theorem backup_restore_file:
  assumes "librariesOk env" "backupFile env p s = (Inr r, s')" "backupCopyResult r \<in> {backupCopyResultCopy, backupCopyResultReCopy}"
    and "pgFile_bf p = Some name" "repoFile_bf p = Some repoFile'" "backupLabel_bf p = Some label"
    and "cipherType p \<in> {cipherTypeNone, cipherTypeAes256Cbc}"
    and "sameLibraries env env'" "restoreWorks env'" "repoFiles t = repoFiles s'"
    and "repoFile q = Some repoFile'" "repoFileReference q = Some label" "repoFileCompressType q = repoFileCompressType_bf p" "cipherPass q = cipherPass_bf p"
    and "pgFile q = Some target" "pgFileChecksum q = copyChecksum r" "pgFileSize q = copySize r" "\<not> pgFileZero q" "\<not> deltaForce q" "pgFileModified q \<noteq> 0"
    and "\<And>f. pgFiles s name = Some f \<Longrightarrow> length (content f) < 2 ^ 64" "\<And>f. pgFiles t target = Some f \<Longrightarrow> length (content f) < 2 ^ 64"
  shows "\<exists>copied t' f data. restoreFile env' q t = (Inr copied, t') \<and> pgFiles t' target = Some f \<and> pgData p s name = Some data \<and>
    hashSha1 env (content f) = hashSha1 env data \<and> length (content f) = length data \<and> (copied \<or> \<not> delta_rf q \<longrightarrow> content f = data)"
proof -
  obtain path where path: "repoPathFileOf env label repoFile' (repoFileCompressType_bf p) = Inr path"
    using assms(2,4-6) by (auto simp: backupFile_def run_bind_Inr run_basic)
  obtain data where data: "pgData p s name = Some data" "stored env p path s' data" "copyChecksum r = Some (hashSha1 env data)" "copySize r = sizeOf64 data"
    using backupFile_outcome [OF assms(1,2,4-6) path] assms(3) by auto
  have "cipherType p = cipherTypeNone \<longleftrightarrow> cipherPass_bf p = None" using backupFile_parts [OF assms(2,4-6) path] by blast
  then obtain bytes where bytes: "repoFiles t path = Some bytes" "decodes env cipherTypeAes256Cbc (cipherPass q) (repoFileCompressType q) bytes data"
    using data(2) decodes_cipher assms(7,10,13,14) by (fastforce simp: stored_def)
  have len: "length data < 2 ^ 64" using data(1) assms(21) by (auto simp: pgData_def le_less_trans [rotated] split: option.splits)
  note eqs = sameLibraries_eqs [OF assms(8)]
  show ?thesis
    using restoreFile_total [OF assms(9,11,12,15), of path t bytes data] path bytes data(1,3,4) assms(13,16-20,22) len
    by (fastforce simp: eqs onlyFile_def)
qed

section \<open>A file that is backed up and restored\<close>

text \<open>Libraries that mark what they encode, a file of three bytes that is compressed, and a restore to another name.\<close>

definition sampleEnv :: CopyEnv where
  "sampleEnv = \<lparr>hashSha1 = (\<lambda>b. CHR ''h'' # map (\<lambda>x. char_of (unat x)) b),
     compressData = (\<lambda>t level b. 1 # b), decompressData = (\<lambda>t b. Inr (tl b)),
     encryptData = (\<lambda>c pass b. 2 # b), decryptData = (\<lambda>c pass b. Inr (tl b)), haveLibLz4 = False, haveLibZst = False,
     ioBufferSize = 8192, pgOpenError = (\<lambda>_. None), pgReadError = (\<lambda>_. None), pgWriteOpenError = (\<lambda>_. None), pgWriteError = (\<lambda>_. None),
     pgCloseError = (\<lambda>_. None), pgLeft = (\<lambda>_. []), chownFails = (\<lambda>_. False), utimeFails = (\<lambda>_. False), repoOpenError = (\<lambda>_. None),
     repoReadError = (\<lambda>_. None), repoWriteOpenError = (\<lambda>_. None), repoWriteError = (\<lambda>_. None), repoRemoveError = (\<lambda>_. None),
     repoLeft = (\<lambda>_. None), repoSizeAtRest = sizeOf64, repoFeatureCompress = False, processUser = ''pg'', processGroup = ''pg'',
     userKnown = (\<lambda>_. True), groupKnown = (\<lambda>_. True), timeNow = 99\<rparr>"

definition sampleBackup :: BackupFileParam where
  "sampleBackup = \<lparr>pgFile_bf = Some ''base/1'', pgFileIgnoreMissing = True, pgFileSize_bf = 3, pgFileCopyExactSize = True, pgFileChecksum_bf = None,
     pgFileChecksumPage = False, pgFileChecksumPageLsnLimit = 0, repoFile_bf = Some ''pg_data/base/1'', repoFileHasReference = False,
     repoFileCompressType_bf = 2, repoFileCompressLevel = 6, backupLabel_bf = Some ''20191002-070640F'', delta_bf = False,
     cipherType = cipherTypeAes256Cbc, cipherPass_bf = Some ''x''\<rparr>"

definition sampleFiles :: CopyState where
  "sampleFiles = \<lparr>pgFiles = [''base/1'' \<mapsto> \<lparr>content = [4, 5, 6, 7], modePf = 384, userPf = ''pg'', groupPf = ''pg'', modifiedPf = 8\<rparr>], repoFiles = (\<lambda>_. None)\<rparr>"

definition sampleRestore :: RestoreFileParam where
  "sampleRestore = \<lparr>repoFile = Some ''pg_data/base/1'', repoIdx_rf = 0, repoFileReference = Some ''20191002-070640F'', repoFileCompressType = 2,
     pgFile = Some ''new/1'', pgFileChecksum = Some (CHR ''h'' # map char_of [4, 5, 6 :: nat]), pgFileZero = False, pgFileSize = 3, pgFileModified = 8,
     pgFileMode = 384, pgFileUser = None, pgFileGroup = None, copyTimeBegin = 50, delta_rf = True, deltaForce = False, cipherPass = Some ''x''\<rparr>"

abbreviation samplePath :: string where
  "samplePath \<equiv> ''<REPO:BACKUP>/20191002-070640F/pg_data/base/1.gz''"

abbreviation sampleAfter :: CopyState where
  "sampleAfter \<equiv> sampleFiles\<lparr>repoFiles := [samplePath \<mapsto> [2, 1, 4, 5, 6]]\<rparr>"

lemmas sample_defs = sampleBackup_def sampleFiles_def sampleRestore_def

lemma sampleEnv_fields:
  "hashSha1 sampleEnv = (\<lambda>b. CHR ''h'' # map (\<lambda>x. char_of (unat x)) b)" "compressData sampleEnv = (\<lambda>t level b. 1 # b)"
  "decompressData sampleEnv = (\<lambda>t b. Inr (tl b))" "encryptData sampleEnv = (\<lambda>c pass b. 2 # b)" "decryptData sampleEnv = (\<lambda>c pass b. Inr (tl b))"
  "haveLibLz4 sampleEnv = False" "haveLibZst sampleEnv = False" "pgOpenError sampleEnv n = None" "pgReadError sampleEnv n = None"
  "pgWriteOpenError sampleEnv n = None" "pgWriteError sampleEnv n = None" "pgCloseError sampleEnv n = None" "\<not> chownFails sampleEnv n"
  "\<not> utimeFails sampleEnv n" "repoOpenError sampleEnv n = None" "repoReadError sampleEnv n = None" "repoWriteOpenError sampleEnv n = None"
  "repoWriteError sampleEnv n = None" "\<not> repoFeatureCompress sampleEnv" "processUser sampleEnv = ''pg''" "processGroup sampleEnv = ''pg''" "timeNow sampleEnv = 99"
  by (simp_all add: sampleEnv_def)

lemma sample_path: "repoPathFileOf sampleEnv ''20191002-070640F'' ''pg_data/base/1'' 2 = Inr samplePath"
  by code_simp

lemma sample_laws: "librariesOk sampleEnv" "restoreWorks sampleEnv" "sameLibraries sampleEnv sampleEnv"
  by (simp_all add: librariesOk_def restoreWorks_def sameLibraries_def sampleEnv_def)

lemma sample_run:
  "backupFile sampleEnv sampleBackup sampleFiles = (Inr \<lparr>backupCopyResult = backupCopyResultCopy, copySize = 3,
     copyChecksum = Some (CHR ''h'' # map char_of [4, 5, 6 :: nat]), repoSizeBf = 5, pageChecksumResultBf = None\<rparr>, sampleAfter)"
  using sample_path
  by (simp add: backupFile_def backupCheck_def backupCopy_def pgOpen_def backupLimit_def encodeFilter_def compressFilter_def compressTypePresent_def
      compressHelperLocal_def pageFilter_def repoPut_def sizeOf64_def run_simps sample_defs sampleEnv_fields cipherTypeNone_def cipherTypeAes256Cbc_def)

theorem backupFile_truthful_witness:
  "\<exists>data. pgData sampleBackup sampleFiles ''base/1'' = Some data \<and> stored sampleEnv sampleBackup samplePath sampleAfter data \<and> 3 = sizeOf64 data"
  using backupFile_truthful [OF sample_laws(1) sample_run, of "''base/1''" "''pg_data/base/1''" "''20191002-070640F''" samplePath] sample_path
  by (auto simp: sampleBackup_def)

theorem backup_restore_file_witness:
  "\<exists>copied t' f data. restoreFile sampleEnv sampleRestore sampleAfter = (Inr copied, t') \<and> pgFiles t' ''new/1'' = Some f \<and>
    pgData sampleBackup sampleFiles ''base/1'' = Some data \<and> hashSha1 sampleEnv (content f) = hashSha1 sampleEnv data \<and>
    length (content f) = length data \<and> (copied \<or> \<not> delta_rf sampleRestore \<longrightarrow> content f = data)"
  by (rule backup_restore_file [OF sample_laws(1) sample_run _ _ _ _ _ sample_laws(3,2)]) (simp_all add: sample_defs split: if_splits)

lemma sample_restored:
  "restoreFile sampleEnv sampleRestore sampleAfter = (Inr True, sampleAfter\<lparr>pgFiles := (pgFiles sampleAfter)(''new/1'' \<mapsto>
     \<lparr>content = [4, 5, 6], modePf = 384, userPf = ''pg'', groupPf = ''pg'', modifiedPf = 8\<rparr>)\<rparr>)"
  using sample_path
  by (simp add: restoreFile_def restoreDelta_def restoreCopy_def decodeFilter_def decompressFilter_def compressTypePresent_def compressHelperLocal_def
      repoOpen_def storageWritePosixOpen_def storageWritePosix_def storageWritePosixClose_def pgPut_def pgUpdate_def Let_def run_simps sample_defs sampleEnv_fields)


end
