(* ===== verification/RestoreWorker.thy ===== *)
theory RestoreWorker
  imports FileCopyProof
begin

text \<open>
  The handler of the local process that restores a file, between the protocol and the copy of the file:
  restoreFileProtocol() of src/command/restore/protocol.c. The state of the handler is the data
  directory and the repository. Put together with the command of a job, the exchange of the protocol and the
  result of the job, it restores the file the main process asked for.
\<close>

section \<open>The handler\<close>

text \<open>A program on the files, run in the state of the server.\<close>

definition onHandlerData :: "('h, 'a) prog \<Rightarrow> ('h ProtocolServer, 'a) prog" where
  "onHandlerData m = (\<lambda>server. let (r, d) = m (handlerData server) in (r, server\<lparr>handlerData := d\<rparr>))"

definition restoreFileProtocol :: "CopyEnv \<Rightarrow> CopyState handler" where
  "restoreFileProtocol env param = (case param of
     None \<Rightarrow> throwP AssertError
   | Some param' \<Rightarrow>
       bindP (liftP (fst (restoreFileParamRead param'))) (\<lambda>p.
       bindP (onHandlerData (restoreFile env p)) (\<lambda>result.
       case pckWriteBool result 0 False False protocolPackNew of
         (Inl e, _) \<Rightarrow> throwP e
       | (Inr _, resultPack) \<Rightarrow>
           bindP (protocolServerDataPut (ioBufferSize env) (Some resultPack)) (\<lambda>_.
           protocolServerDataEndPut (ioBufferSize env)))))"

section \<open>A job from end to end\<close>

lemma packOf_bool: "pckWriteBool x 0 False False protocolPackNew = (Inr (), packOf [PackBool x])"
  using writeFields_packOf [of "[PackBool x]"] by (simp only: writeFields.simps writeField.simps bindP_unit)

lemma read_bool: "fst (pckReadBool 0 False (the (pckReadNewBuf (Some (packBytes [PackBool x]))))) = Inr x"
  by (rule readsFields [OF yields_run [OF yields_fields(1)]]) simp_all

lemma restoreFileProtocol_run:
  assumes "fst (restoreFileParamRead r) = Inr p" "restoreFile env p (handlerData server) = (Inr copied, d')"
  shows "restoreFileProtocol env (Some r) server =
    bindP (modifyP (\<lambda>s. s\<lparr>handlerData := d'\<rparr>)) (\<lambda>_.
    bindP (protocolServerDataPut (ioBufferSize env) (Some (packOf [PackBool copied]))) (\<lambda>_.
    protocolServerDataEndPut (ioBufferSize env))) server"
  using assms by (simp add: restoreFileProtocol_def onHandlerData_def packOf_bool run_simps)

lemma packBytes_bool: "length (packBytes [PackBool x]) < 2 ^ 64"
proof -
  have "length (packBytes [PackBool True]) = 2" "length (packBytes [PackBool False]) = 1" by code_simp+
  then show ?thesis by (cases x) simp_all
qed

text \<open>
  C38. A restore job from end to end: when the job of a file is sent to a local process whose copy of the file
  returns, the local process runs restoreFile with exactly the file, backup, options and passphrase of the
  job, both streams are empty again, and the result of the job adds the size of the file to the size
  that was restored.
\<close>

theorem restore_job_executed:
  assumes "restoreFilePgPath manifest (name_mf f) = Inr pgPath" "manifest_rd jobData = manifest"
    and "\<forall>s \<in> {name_mf f, backupLabel_jm manifest, pgPath, checksumSha1 f} \<union> set_option (reference f) \<union> set_option (user_mf f) \<union>
      set_option (group_mf f) \<union> set_option (cipherSubPass jobData). int (length s) \<le> STRING_SIZE_MAX"
    and "length (packBytes (restoreFields delta force jobData f pgPath)) < 2 ^ 64"
    and "0 < ioBufferSize env" "map_of handlers PROTOCOL_COMMAND_RESTORE_FILE = Some (restoreFileProtocol env)"
    and "restoreFile env (restoreParams delta force jobData f pgPath) files = (Inr copied, files')"
    and "manifestFileFind manifest (name_mf f) = Inr f" "sizeTotal \<noteq> 0"
  shows "\<exists>cmd r. restoreJobNew delta force jobData f = Inr cmd \<and>
    protocolExchange (retP ()) message stack (ioBufferSize env) retries handlers logDebug cmd True (idle files) = (Inr (Some r), idle files') \<and>
    fst (pckReadBool 0 False r) = Inr copied \<and>
    restoreJobResult manifest sizeTotal \<lparr>jobKey = name_mf f, jobCommand = cmd, processId = pid, jobState = jst, jobCode = None, jobResult = Some (Some r)\<rparr>
      sizeRestored = Inr (sizeRestored + size_mf f)"
proof -
  let ?fs = "restoreFields delta force jobData f pgPath" and ?r = "the (pckReadNewBuf (Some (packBytes [PackBool copied])))"
  have reader: "pckReadNewBuf (Some bytes) = Some (the (pckReadNewBuf (Some bytes)))" for bytes by (simp add: pckReadNewBuf_def)
  have "restoreFileProtocol env (pckReadNewBuf (Some (packBytes ?fs))) (snd (idle files)) =
      bindP (modifyP (\<lambda>s. s\<lparr>handlerData := files'\<rparr>)) (\<lambda>_.
      bindP (protocolServerDataPut (ioBufferSize env) (Some (packOf [PackBool copied]))) (\<lambda>_.
      protocolServerDataEndPut (ioBufferSize env))) (snd (idle files))"
    using restoreFileProtocol_run [OF restoreFileParamRead_fields, of f jobData pgPath env delta force "snd (idle files)" copied files'] assms(2,3,7) reader [of "packBytes ?fs"]
    by simp
  from exchange_run [OF assms(5,6) this assms(4) packBytes_bool]
  have "protocolExchange (retP ()) message stack (ioBufferSize env) retries handlers logDebug \<lparr>command = PROTOCOL_COMMAND_RESTORE_FILE, pack = Some (packOf ?fs)\<rparr>
      True (idle files) = (Inr (Some ?r), idle files')"
    using reader by metis
  moreover have "restoreJobNew delta force jobData f = Inr \<lparr>command = PROTOCOL_COMMAND_RESTORE_FILE, pack = Some (packOf ?fs)\<rparr>"
    using restoreJobNew_run assms(1,2) by simp
  ultimately show ?thesis using read_bool [of copied] assms(1,8,9) by (intro exI conjI) (auto simp: restoreJobResult_def)
qed

text \<open>A file of five bytes that is compressed in the repository.\<close>

abbreviation workerEnv :: CopyEnv where
  "workerEnv \<equiv> sampleEnv\<lparr>hashSha1 := \<lambda>_. ''0a''\<rparr>"

abbreviation workerFiles :: CopyState where
  "workerFiles \<equiv> sampleFiles\<lparr>repoFiles := [''<REPO:BACKUP>/20191002-070640F/pg_data/a.bz2'' \<mapsto> [1, 4, 5, 6, 7, 8]]\<rparr>"

lemma workerRun:
  "restoreFile workerEnv (restoreParams False False sampleJobData (sampleFile ''pg_data/a'' 5) ''/pg/a'') workerFiles =
     (Inr True, workerFiles\<lparr>pgFiles := (pgFiles workerFiles)(''/pg/a'' \<mapsto>
       \<lparr>content = [4, 5, 6, 7, 8], modePf = 384, userPf = ''pg'', groupPf = ''pg'', modifiedPf = 7\<rparr>)\<rparr>)"
proof -
  have "repoPathFileOf workerEnv ''20191002-070640F'' ''pg_data/a'' 1 = Inr ''<REPO:BACKUP>/20191002-070640F/pg_data/a.bz2''" by code_simp
  then show ?thesis
    by (simp add: restoreFile_def restoreDelta_def restoreCopy_def decodeFilter_def decompressFilter_def compressTypePresent_def compressHelperLocal_def
        restoreParams_def restoreFileZeroed_def repoOpen_def storageWritePosixOpen_def storageWritePosix_def storageWritePosixClose_def chownTo_def pgPut_def pgUpdate_def
        Let_def run_simps sample_defs sampleEnv_def)
qed

theorem restore_job_executed_witness:
  "\<exists>cmd r. restoreJobNew False False sampleJobData (sampleFile ''pg_data/a'' 5) = Inr cmd \<and>
    protocolExchange (retP ()) (\<lambda>_. []) (\<lambda>_. []) (ioBufferSize workerEnv) 2 [(PROTOCOL_COMMAND_RESTORE_FILE, restoreFileProtocol workerEnv)] False cmd True (idle workerFiles) =
      (Inr (Some r), idle (snd (restoreFile workerEnv (restoreParams False False sampleJobData (sampleFile ''pg_data/a'' 5) ''/pg/a'') workerFiles))) \<and>
    fst (pckReadBool 0 False r) = Inr True \<and>
    restoreJobResult sampleManifest 17 \<lparr>jobKey = ''pg_data/a'', jobCommand = cmd, processId = 1, jobState = JobStateDone, jobCode = None,
      jobResult = Some (Some r)\<rparr> 9 = Inr 14"
proof -
  have path: "restoreFilePgPath sampleManifest ''pg_data/a'' = Inr ''/pg/a''" by code_simp
  have len: "length (packBytes (restoreFields False False sampleJobData (sampleFile ''pg_data/a'' 5) ''/pg/a'')) < 200" by code_simp
  show ?thesis
    using restore_job_executed [of sampleManifest "sampleFile ''pg_data/a'' 5" "''/pg/a''" sampleJobData False False workerEnv
        "[(PROTOCOL_COMMAND_RESTORE_FILE, restoreFileProtocol workerEnv)]" workerFiles True _ 17 "\<lambda>_. []" "\<lambda>_. []" 2 False 1 JobStateDone 9]
      path len workerRun
    by (simp add: STRING_SIZE_MAX_def sampleEnv_def manifestFileFind_def)
qed

end
