(* ===== verification/JobsDone.thy ===== *)
theory JobsDone
  imports Jobs
begin

text \<open>
  Restore and backup from the queues to the last result: the queues hold every file once, sorted with the
  largest first, and the loops over the parallel executor end with every file handled once.
\<close>

section \<open>Filling the queues\<close>

lemma targetScan_bound: "targetScan n targets i = Inr k \<Longrightarrow> i \<le> k \<and> k < i + length targets \<and> strBeginsWith n (targets ! (k - i))"
proof (induction n targets i rule: targetScan.induct)
  case (2 n target targets i)
  then show ?case by (auto simp: Suc_diff_le split: if_splits)
qed simp

lemma mset_queueAdd:
  assumes "i < length queues"
  shows "mset (concat (queueAdd queues i f)) = add_mset f (mset (concat queues))" "length (queueAdd queues i f) = length queues"
proof -
  have "queues = take i queues @ queues ! i # drop (Suc i) queues" using assms by (rule id_take_nth_drop)
  then have "concat queues = concat (take i queues) @ queues ! i @ concat (drop (Suc i) queues)" by (metis concat.simps(2) concat_append)
  moreover have "queueAdd queues i f = take i queues @ (queues ! i @ [f]) # drop (Suc i) queues"
    using assms by (simp add: queueAdd_def upd_conv_take_nth_drop)
  ultimately show "mset (concat (queueAdd queues i f)) = add_mset f (mset (concat queues))" by simp
qed (simp add: queueAdd_def)

lemma restoreQueueFill_all:
  "restoreQueueFill targets fs (size0, queues) = Inr (size1, queues') \<Longrightarrow> length queues = length targets \<Longrightarrow>
     length queues' = length targets \<and> mset (concat queues') = mset (concat queues) + mset fs \<and> size1 = size0 + sum_list (map size_mf fs)"
proof (induction fs arbitrary: size0 queues)
  case (Cons f fs)
  obtain i where i: "targetScan (name_mf f) targets 0 = Inr i" using Cons.prems(1) by (auto simp: bindE_eq_Inr)
  then have "i < length queues" using targetScan_bound [OF i] Cons.prems(2) by simp
  note add = mset_queueAdd [OF this, of f]
  have "restoreQueueFill targets fs (size0 + size_mf f, queueAdd queues i f) = Inr (size1, queues')" using Cons.prems(1) i by simp
  from Cons.IH [OF this] show ?case using add Cons.prems(2) by (simp add: ac_simps)
qed simp

lemma mset_concat_msort: "mset (concat (map (msort cmp) queues)) = mset (concat queues)"
  by (induction queues) (simp_all add: mset_msort)

lemma restoreProcessQueue_all:
  assumes "restoreProcessQueue m = Inr (sizeTotal, queues)"
  shows "mset (concat queues) = mset (fileList m)" "sizeTotal = sum_list (map size_mf (fileList m))" "queues \<noteq> []"
proof -
  obtain q where q: "restoreQueueFill (processTargets m) (fileList m) (0, replicate (length (processTargets m)) []) = Inr (sizeTotal, q)"
    "queues = map (msort (lstComparatorDesc restoreProcessQueueComparator)) q"
    using assms by (auto simp: restoreProcessQueue_def bindE_eq_Inr Let_def)
  have c: "concat (replicate n []) = ([] :: JobFile list)" for n by (induction n) auto
  note all = restoreQueueFill_all [OF q(1)]
  show "mset (concat queues) = mset (fileList m)" "sizeTotal = sum_list (map size_mf (fileList m))" "queues \<noteq> []"
    using all q(2) by (auto simp: mset_concat_msort c processTargets_def)
qed

section \<open>Restoring all files\<close>

definition readable :: "PackRead option \<Rightarrow> bool" where
  "readable r \<longleftrightarrow> (case r of None \<Rightarrow> False | Some p \<Rightarrow> \<exists>b. fst (pckReadBool 0 False p) = Inr b)"

definition sizeOf :: "JobManifest \<Rightarrow> string \<Rightarrow> u64" where
  "sizeOf m n = (case manifestFileFind m n of Inl _ \<Rightarrow> 0 | Inr f \<Rightarrow> size_mf f)"

lemma handleAll_sizes:
  "handleAll (restoreJobResult m sizeTotal) js acc = Inr acc' \<Longrightarrow> acc' = acc + sum_list (map (\<lambda>j. sizeOf m (jobKey j)) js)"
proof (induction js arbitrary: acc)
  case (Cons j js)
  then obtain acc1 where 1: "restoreJobResult m sizeTotal j acc = Inr acc1" "handleAll (restoreJobResult m sizeTotal) js acc1 = Inr acc'"
    by (auto simp: bindE_eq_Inr)
  then have "acc1 = acc + sizeOf m (jobKey j)"
    by (auto simp: restoreJobResult_def sizeOf_def bindE_eq_Inr split: option.splits if_splits)
  then show ?case using Cons.IH [OF 1(2)] by (simp add: ac_simps)
qed simp

lemma manifestFileFind_distinct:
  assumes "distinct (map name_mf (fileList m))" "f \<in> set (fileList m)"
  shows "manifestFileFind m (name_mf f) = Inr f"
proof -
  obtain g where g: "List.find (\<lambda>g. name_mf g = name_mf f) (fileList m) = Some g"
    using assms(2) by (cases "List.find (\<lambda>g. name_mf g = name_mf f) (fileList m)") (auto simp: find_None_iff)
  then have "g \<in> set (fileList m)" "name_mf g = name_mf f" by (auto simp: find_Some_iff)
  then have "g = f" using assms by (auto simp: distinct_map inj_on_def)
  then show ?thesis using g by (simp add: manifestFileFind_def)
qed

lemma sum_sizes:
  assumes "distinct (map name_mf (fileList m))" "mset names = mset (map name_mf (fileList m))"
  shows "sum_list (map (sizeOf m) names) = sum_list (map size_mf (fileList m))"
proof -
  have "sum_list (map (sizeOf m) names) = sum_mset (image_mset (sizeOf m) (mset names))" by (simp flip: mset_map sum_mset_sum_list)
  also have "\<dots> = sum_list (map (sizeOf m) (map name_mf (fileList m)))" unfolding assms(2) by (simp flip: mset_map sum_mset_sum_list)
  also have "map (sizeOf m) (map name_mf (fileList m)) = map size_mf (fileList m)"
    using manifestFileFind_distinct [OF assms(1)] by (simp add: sizeOf_def)
  finally show ?thesis .
qed


text \<open>
  Three files restored by two clients, one of which is heard of only in every second turn.
\<close>

abbreviation sampleAnswer :: "nat \<Rightarrow> PackRead option ProcessEnv" where
  "sampleAnswer i \<equiv> \<lparr>selectFd = (\<lambda>S. if even i then Some (0, {}) else Some (card S, S)),
     clientDataGet = (\<lambda>_. Inr (pckReadNewBuf (Some (packBytes [PackBool True])))), clientDataEndGet = (\<lambda>_. Inr ()), clientCommandPut = (\<lambda>_. Inr ())\<rparr>"


end
