(* ===== verification/Json.thy ===== *)
theory Json
  imports Convert StringType
begin

text \<open>
  JSON text from src/common/type/json.c, and the variants and key/value lists of
  src/common/type/variant.c and keyValue.c it is read into and written from. The text that is left to read
  is a list of characters, at its end the code sees the terminating zero; strings have no zero
  characters. Reading takes fuel, one for each call of the recursive functions; twice the size of the text and
  one more is enough for every text.
\<close>

section \<open>Variants\<close>

text \<open>A missing variant is a value of its own, as is a string, list or key/value list that is missing in a variant.\<close>

datatype Variant =
    VarNull | VarBool bool | VarInt int | VarInt64 int | VarKeyValue "(string \<times> Variant) list option"
  | VarString "string option" | VarUInt nat | VarUInt64 nat | VarVariantList "Variant list option"

type_synonym KeyValue = "(string \<times> Variant) list"

definition kvGet :: "KeyValue \<Rightarrow> string \<Rightarrow> Variant" where
  "kvGet this key = (case map_of this key of None \<Rightarrow> VarNull | Some v \<Rightarrow> v)"

definition kvPut :: "KeyValue \<Rightarrow> string \<Rightarrow> Variant \<Rightarrow> KeyValue" where
  "kvPut this key v = (if key \<in> fst ` set this then map (\<lambda>(k, w). (k, if k = key then v else w)) this else this @ [(key, v)])"

definition varIntForce :: "Variant \<Rightarrow> int result" where
  "varIntForce this = (case this of
     VarBool b \<Rightarrow> Inr (of_bool b)
   | VarInt n \<Rightarrow> Inr n
   | VarInt64 n \<Rightarrow> if n > 2 ^ 31 - 1 \<or> n < - (2 ^ 31) then Inl FormatError else Inr n
   | VarString (Some s) \<Rightarrow> cvtZToInt s
   | VarString None \<Rightarrow> Inl UndefinedBehavior
   | VarUInt n \<Rightarrow> if n > 2 ^ 31 - 1 then Inl FormatError else Inr (int n)
   | VarUInt64 n \<Rightarrow> if n > 2 ^ 31 - 1 then Inl FormatError else Inr (int n)
   | _ \<Rightarrow> Inl AssertError)"

definition varInt64Force :: "Variant \<Rightarrow> int result" where
  "varInt64Force this = (case this of
     VarBool b \<Rightarrow> Inr (of_bool b)
   | VarInt n \<Rightarrow> Inr n
   | VarInt64 n \<Rightarrow> Inr n
   | VarString (Some s) \<Rightarrow> cvtZToInt64 s
   | VarString None \<Rightarrow> Inl UndefinedBehavior
   | VarUInt n \<Rightarrow> Inr (int n)
   | VarUInt64 n \<Rightarrow> if n \<le> 2 ^ 63 - 1 then Inr (int n) else Inl FormatError
   | _ \<Rightarrow> Inl AssertError)"

definition varUIntForce :: "Variant \<Rightarrow> nat result" where
  "varUIntForce this = (case this of
     VarBool b \<Rightarrow> Inr (of_bool b)
   | VarInt n \<Rightarrow> if n \<ge> 0 then Inr (nat n) else Inl FormatError
   | VarInt64 n \<Rightarrow> if n \<ge> 0 \<and> n \<le> 2 ^ 32 - 1 then Inr (nat n) else Inl FormatError
   | VarString (Some s) \<Rightarrow> cvtZToUInt s
   | VarString None \<Rightarrow> Inl UndefinedBehavior
   | VarUInt n \<Rightarrow> Inr n
   | VarUInt64 n \<Rightarrow> if n \<le> 2 ^ 32 - 1 then Inr n else Inl FormatError
   | _ \<Rightarrow> Inl AssertError)"

definition varUInt64Force :: "Variant \<Rightarrow> nat result" where
  "varUInt64Force this = (case this of
     VarBool b \<Rightarrow> Inr (of_bool b)
   | VarInt n \<Rightarrow> if n \<ge> 0 then Inr (nat n) else Inl FormatError
   | VarInt64 n \<Rightarrow> if n \<ge> 0 then Inr (nat n) else Inl FormatError
   | VarString (Some s) \<Rightarrow> cvtZToUInt64 s
   | VarString None \<Rightarrow> Inl UndefinedBehavior
   | VarUInt n \<Rightarrow> Inr n
   | VarUInt64 n \<Rightarrow> Inr n
   | _ \<Rightarrow> Inl AssertError)"

section \<open>Reading\<close>

text \<open>The character at the position.\<close>

definition jsonChr :: "string \<Rightarrow> char" where
  "jsonChr json = (case json of [] \<Rightarrow> CHR 0x00 | c # _ \<Rightarrow> c)"

definition isJsonSpace :: "char \<Rightarrow> bool" where
  "isJsonSpace c \<longleftrightarrow> c \<in> {CHR 0x20, CHR 0x09, CHR 0x0A, CHR 0x0D}"

definition jsonConsumeWhiteSpace :: "string \<Rightarrow> string" where
  "jsonConsumeWhiteSpace json = dropWhile isJsonSpace json"

definition jsonToBoolInternal :: "string \<Rightarrow> (bool \<times> string) result" where
  "jsonToBoolInternal json =
     (if take 4 json = ''true'' then Inr (True, drop 4 json)
      else if take 5 json = ''false'' then Inr (False, drop 5 json)
      else Inl JsonFormatError)"

text \<open>
  A number. When there is neither a sign nor a digit the test for a single sign looks at the character before
  the number, which does not exist at the start of the text.
\<close>

definition jsonToNumberInternal :: "char option \<Rightarrow> string \<Rightarrow> (Variant \<times> string) result" where
  "jsonToNumberInternal before json =
     (let intSigned = (jsonChr json = CHR ''-''); body = (if intSigned then tl json else json);
          digits = takeWhile decimalDigit body; rest = dropWhile decimalDigit body
      in bindE (if digits \<noteq> [] then Inr ()
                else if intSigned then Inl JsonFormatError
                else case before of None \<Rightarrow> Inl UndefinedBehavior | Some c \<Rightarrow> if c = CHR ''-'' then Inl JsonFormatError else Inr ()) (\<lambda>_.
         if intSigned then mapE (\<lambda>n. (VarInt64 n, rest)) (cvtZToInt64 (CHR ''-'' # digits))
         else mapE (\<lambda>n. (VarUInt64 n, rest)) (cvtZToUInt64 digits)))"

text \<open>The characters after the first quote, up to the last.\<close>

definition catChr :: "char \<Rightarrow> (string \<times> string) result \<Rightarrow> (string \<times> string) result" where
  "catChr c r = bindE (ASSERT (c \<noteq> CHR 0x00)) (\<lambda>_. mapE (apfst (Cons c)) r)"

fun jsonStrLoop :: "string \<Rightarrow> (string \<times> string) result" where
  "jsonStrLoop [] = Inl JsonFormatError"
| "jsonStrLoop (c # json) =
     (if c = CHR 0x22 then Inr ([], json)
      else if c = CHR 0x5C then
        (case json of
           [] \<Rightarrow> Inl JsonFormatError
         | e # rest \<Rightarrow>
             if e = CHR 0x22 \<or> e = CHR 0x5C \<or> e = CHR ''/'' then catChr e (jsonStrLoop rest)
             else if e = CHR ''n'' then catChr (CHR 0x0A) (jsonStrLoop rest)
             else if e = CHR ''r'' then catChr (CHR 0x0D) (jsonStrLoop rest)
             else if e = CHR ''t'' then catChr (CHR 0x09) (jsonStrLoop rest)
             else if e = CHR ''b'' then catChr (CHR 0x08) (jsonStrLoop rest)
             else if e = CHR ''f'' then catChr (CHR 0x0C) (jsonStrLoop rest)
             else if e = CHR ''u'' then
               if take 2 rest \<noteq> ''00'' then Inl JsonFormatError
               else bindE (cvtZToUIntBase (take 2 (drop 2 rest)) 16) (\<lambda>n.
                 if length rest < 4 then Inl UndefinedBehavior else catChr (char_of n) (jsonStrLoop (drop 4 rest)))
             else Inl JsonFormatError)
      else if c = CHR 0x00 then Inl JsonFormatError
      else catChr c (jsonStrLoop json))"

definition jsonToStrInternal :: "string \<Rightarrow> (string \<times> string) result" where
  "jsonToStrInternal json = (if jsonChr json \<noteq> CHR 0x22 then Inl JsonFormatError else jsonStrLoop (tl json))"

text \<open>After the comma between two items.\<close>

definition jsonSkipComma :: "string \<Rightarrow> string" where
  "jsonSkipComma json = (if jsonChr json = CHR '','' then jsonConsumeWhiteSpace (tl json) else json)"

definition jsonClose :: "char \<Rightarrow> 'a \<times> string \<Rightarrow> ('a \<times> string) result" where
  "jsonClose c r = (if jsonChr (snd r) \<noteq> c then Inl JsonFormatError else Inr (fst r, tl (snd r)))"

text \<open>The key of an object and the colon.\<close>

definition jsonKey :: "string \<Rightarrow> (string \<times> string) result" where
  "jsonKey json =
     bindE (jsonToStrInternal (jsonSkipComma json)) (\<lambda>(key, rest).
     if jsonChr (jsonConsumeWhiteSpace rest) \<noteq> CHR '':'' then Inl JsonFormatError
     else Inr (key, jsonConsumeWhiteSpace (tl (jsonConsumeWhiteSpace rest))))"

text \<open>Objects and arrays, around the loops over their items.\<close>

definition jsonToKvInternal :: "(string \<Rightarrow> (KeyValue \<times> string) result) \<Rightarrow> string \<Rightarrow> (KeyValue \<times> string) result" where
  "jsonToKvInternal loop json =
     (let json' = jsonConsumeWhiteSpace (tl json)
      in bindE (if jsonChr json' \<noteq> CHR 0x7D then loop json' else Inr ([], json')) (jsonClose (CHR 0x7D)))"

definition jsonToVarLstInternal :: "(string \<Rightarrow> (Variant list \<times> string) result) \<Rightarrow> string \<Rightarrow> (Variant list \<times> string) result" where
  "jsonToVarLstInternal loop json =
     (if jsonChr json \<noteq> CHR ''['' then Inl JsonFormatError
      else let json' = jsonConsumeWhiteSpace (tl json)
      in bindE (if jsonChr json' \<noteq> CHR '']'' then loop json' else Inr ([], json')) (jsonClose (CHR '']'')))"

function jsonToVarInternal :: "nat \<Rightarrow> string \<Rightarrow> (Variant \<times> string) result"
  and jsonKvLoop :: "nat \<Rightarrow> KeyValue \<Rightarrow> string \<Rightarrow> (KeyValue \<times> string) result"
  and jsonLstLoop :: "nat \<Rightarrow> Variant list \<Rightarrow> string \<Rightarrow> (Variant list \<times> string) result" where
  "jsonToVarInternal 0 json = Inl NoReturn"
| "jsonToVarInternal (Suc fuel) json =
     (let json' = jsonConsumeWhiteSpace json; c = jsonChr json'
      in mapE (apsnd jsonConsumeWhiteSpace)
           (if c = CHR 0x00 then Inl JsonFormatError
            else if c = CHR 0x22 then mapE (apfst (VarString \<circ> Some)) (jsonToStrInternal json')
            else if c = CHR ''-'' \<or> decimalDigit c then jsonToNumberInternal None json'
            else if c = CHR ''t'' \<or> c = CHR ''f'' then mapE (apfst VarBool) (jsonToBoolInternal json')
            else if c = CHR ''n'' then if take 4 json' = ''null'' then Inr (VarNull, drop 4 json') else Inl JsonFormatError
            else if c = CHR ''['' then mapE (apfst (VarVariantList \<circ> Some)) (jsonToVarLstInternal (\<lambda>x. jsonLstLoop fuel [] x) json')
            else if c = CHR 0x7B then mapE (apfst (VarKeyValue \<circ> Some)) (jsonToKvInternal (\<lambda>x. jsonKvLoop fuel [] x) json')
            else Inl JsonFormatError))"
| "jsonKvLoop 0 result json = Inl NoReturn"
| "jsonKvLoop (Suc fuel) result json =
     bindE (jsonKey json) (\<lambda>(key, rest).
     bindE (jsonToVarInternal fuel rest) (\<lambda>(v, rest').
     if jsonChr rest' = CHR '','' then jsonKvLoop fuel (kvPut result key v) rest' else Inr (kvPut result key v, rest')))"
| "jsonLstLoop 0 result json = Inl NoReturn"
| "jsonLstLoop (Suc fuel) result json =
     bindE (jsonToVarInternal fuel (jsonSkipComma json)) (\<lambda>(v, rest).
     if jsonChr (jsonConsumeWhiteSpace rest) = CHR '','' then jsonLstLoop fuel (result @ [v]) (jsonConsumeWhiteSpace rest)
     else Inr (result @ [v], jsonConsumeWhiteSpace rest))"
  by pat_completeness auto
termination by (relation "measure (case_sum fst (case_sum fst fst))") auto

definition jsonFuel :: "string \<Rightarrow> nat" where
  "jsonFuel json = 2 * length json + 3"

definition jsonEnd :: "'a \<times> string \<Rightarrow> 'a result" where
  "jsonEnd r = (if jsonConsumeWhiteSpace (snd r) \<noteq> [] then Inl JsonFormatError else Inr (fst r))"

definition jsonToVar :: "string \<Rightarrow> Variant result" where
  "jsonToVar json =
     bindE (jsonToVarInternal (jsonFuel json) json) (\<lambda>(v, rest). if rest \<noteq> [] then Inl JsonFormatError else Inr v)"

definition jsonToBool :: "string \<Rightarrow> bool result" where
  "jsonToBool json = bindE (jsonToBoolInternal (jsonConsumeWhiteSpace json)) jsonEnd"

definition jsonToNumber :: "string \<Rightarrow> Variant result" where
  "jsonToNumber json =
     (let space = takeWhile isJsonSpace json
      in bindE (jsonToNumberInternal (if space = [] then None else Some (last space)) (jsonConsumeWhiteSpace json)) jsonEnd)"

definition jsonToInt :: "string \<Rightarrow> int result" where
  "jsonToInt json = bindE (jsonToNumber json) varIntForce"

definition jsonToInt64 :: "string \<Rightarrow> int result" where
  "jsonToInt64 json = bindE (jsonToNumber json) varInt64Force"

definition jsonToUInt :: "string \<Rightarrow> nat result" where
  "jsonToUInt json = bindE (jsonToNumber json) varUIntForce"

definition jsonToUInt64 :: "string \<Rightarrow> nat result" where
  "jsonToUInt64 json = bindE (jsonToNumber json) varUInt64Force"

text \<open>The test for null looks at the start of the text, and skips four characters after the white space.\<close>

definition jsonToStr :: "string \<Rightarrow> string option result" where
  "jsonToStr json =
     (let json' = jsonConsumeWhiteSpace json
      in if take 4 json = ''null'' then jsonEnd (None, drop 4 json')
         else bindE (jsonToStrInternal json') (\<lambda>(s, rest). jsonEnd (Some s, rest)))"

definition jsonToKv :: "string \<Rightarrow> KeyValue result" where
  "jsonToKv json =
     (let json' = jsonConsumeWhiteSpace json
      in if jsonChr json' \<noteq> CHR 0x7B then Inl JsonFormatError
         else bindE (jsonToKvInternal (jsonKvLoop (jsonFuel json) []) json') jsonEnd)"

definition jsonToVarLst :: "string \<Rightarrow> Variant list result" where
  "jsonToVarLst json = bindE (jsonToVarLstInternal (jsonLstLoop (jsonFuel json) []) (jsonConsumeWhiteSpace json)) jsonEnd"

section \<open>Writing\<close>

definition CVT_BASE10_BUFFER_SIZE :: nat where "CVT_BASE10_BUFFER_SIZE = 64"

definition jsonFromBool :: "bool \<Rightarrow> string" where
  "jsonFromBool v = (if v then ''true'' else ''false'')"

definition jsonFromInt :: "int \<Rightarrow> string result" where
  "jsonFromInt number = cvtIntToZ number CVT_BASE10_BUFFER_SIZE"

definition jsonFromInt64 :: "int \<Rightarrow> string result" where
  "jsonFromInt64 number = cvtInt64ToZ number CVT_BASE10_BUFFER_SIZE"

definition jsonFromUInt :: "nat \<Rightarrow> string result" where
  "jsonFromUInt number = cvtUIntToZ number CVT_BASE10_BUFFER_SIZE"

definition jsonFromUInt64 :: "nat \<Rightarrow> string result" where
  "jsonFromUInt64 number = cvtUInt64ToZ number CVT_BASE10_BUFFER_SIZE"

definition jsonEscape :: "char \<Rightarrow> string" where
  "jsonEscape c =
     (if c = CHR 0x22 \<or> c = CHR 0x5C then [CHR 0x5C, c]
      else if c = CHR 0x0A then [CHR 0x5C, CHR ''n'']
      else if c = CHR 0x0D then [CHR 0x5C, CHR ''r'']
      else if c = CHR 0x09 then [CHR 0x5C, CHR ''t'']
      else if c = CHR 0x08 then [CHR 0x5C, CHR ''b'']
      else if c = CHR 0x0C then [CHR 0x5C, CHR ''f'']
      else [c])"

definition jsonFromStrInternal :: "string option \<Rightarrow> string" where
  "jsonFromStrInternal s = (case s of None \<Rightarrow> ''null'' | Some x \<Rightarrow> CHR 0x22 # concat (map jsonEscape x) @ [CHR 0x22])"

definition jsonFromStr :: "string option \<Rightarrow> string" where
  "jsonFromStr s = jsonFromStrInternal s"

text \<open>The items of an array or object, with commas between them.\<close>

fun jsonJoin :: "string result list \<Rightarrow> string result" where
  "jsonJoin [] = Inr []"
| "jsonJoin [x] = x"
| "jsonJoin (x # y # xs) = bindE x (\<lambda>a. bindE (jsonJoin (y # xs)) (\<lambda>b. Inr (a @ '','' @ b)))"

definition jsonFromLst :: "string result list option \<Rightarrow> string result" where
  "jsonFromLst items = (case items of None \<Rightarrow> Inr ''null'' | Some xs \<Rightarrow> mapE (\<lambda>s. ''['' @ s @ '']'') (jsonJoin xs))"

text \<open>An object, from its keys and the text of its values. Keys are sorted and written as they are.\<close>

definition jsonFromKvInternal :: "(string \<times> string result) list \<Rightarrow> string result" where
  "jsonFromKvInternal kv =
     mapE (\<lambda>s. CHR 0x7B # s @ [CHR 0x7D])
       (jsonJoin (map (\<lambda>key. mapE (\<lambda>s. CHR 0x22 # key @ [CHR 0x22, CHR '':''] @ s) (case map_of kv key of Some r \<Rightarrow> r | None \<Rightarrow> Inr ''null''))
         (strLstSort (map fst kv) sortOrderAsc)))"

text \<open>What is written for a value of an object and for an item of an array.\<close>

primrec jsonFromItem :: "Variant \<Rightarrow> string result" where
  "jsonFromItem VarNull = Inr ''null''"
| "jsonFromItem (VarBool b) = Inr (jsonFromBool b)"
| "jsonFromItem (VarInt n) = jsonFromInt n"
| "jsonFromItem (VarInt64 n) = jsonFromInt64 n"
| "jsonFromItem (VarKeyValue kv) = (case map_option (map (map_prod id jsonFromItem)) kv of None \<Rightarrow> Inl AssertError | Some xs \<Rightarrow> jsonFromKvInternal xs)"
| "jsonFromItem (VarString s) = Inr (jsonFromStrInternal s)"
| "jsonFromItem (VarUInt n) = jsonFromUInt n"
| "jsonFromItem (VarUInt64 n) = jsonFromUInt64 n"
| "jsonFromItem (VarVariantList vl) = jsonFromLst (map_option (map jsonFromItem) vl)"

definition jsonFromKv :: "KeyValue \<Rightarrow> string result" where
  "jsonFromKv kv = jsonFromItem (VarKeyValue (Some kv))"

text \<open>On its own, a signed integer is not written.\<close>

definition jsonFromVar :: "Variant \<Rightarrow> string result" where
  "jsonFromVar var = (case var of VarInt _ \<Rightarrow> Inl JsonFormatError | VarInt64 _ \<Rightarrow> Inl JsonFormatError | _ \<Rightarrow> jsonFromItem var)"

section \<open>Reading always ends\<close>

lemma whiteSpace_length: "length (jsonConsumeWhiteSpace json) \<le> length json"
  by (simp add: jsonConsumeWhiteSpace_def length_dropWhile_le)

lemma jsonChr_ne: "jsonChr json \<noteq> CHR 0x00 \<Longrightarrow> json \<noteq> []"
  by (auto simp: jsonChr_def)

lemma catChr_Inr: "catChr c r = Inr (s, rest) \<longleftrightarrow> c \<noteq> CHR 0x00 \<and> (\<exists>s'. r = Inr (s', rest) \<and> s = c # s')"
  by (cases r) (auto simp: catChr_def ASSERT_def)

lemma jsonStrLoop_step:
  assumes "jsonStrLoop (c # json) = Inr (s, rest)"
  shows "c = CHR 0x22 \<and> rest = json \<or> (\<exists>x n. catChr x (jsonStrLoop (drop n json)) = Inr (s, rest))"
proof (cases "c = CHR 0x5C")
  case True
  then obtain e json' where json: "json = e # json'" using assms by (cases json) auto
  have "\<exists>x r. (r = json' \<or> r = drop 4 json') \<and> catChr x (jsonStrLoop r) = Inr (s, rest)"
    using assms True unfolding json by (auto simp: bindE_eq_Inr split: if_splits)
  then obtain x r where "r = drop 1 json \<or> r = drop 5 json" "catChr x (jsonStrLoop r) = Inr (s, rest)" by (auto simp: json)
  then show ?thesis by blast
next
  case False
  then have "c = CHR 0x22 \<and> rest = json \<or> catChr c (jsonStrLoop (drop 0 json)) = Inr (s, rest)"
    using assms by (auto split: if_splits)
  then show ?thesis by blast
qed

lemma jsonStrLoop_length: "jsonStrLoop json = Inr (s, rest) \<Longrightarrow> length rest < length json"
proof (induction json arbitrary: s rest rule: length_induct)
  case (1 json)
  obtain c json' where json: "json = c # json'" using 1(2) by (cases json) auto
  from jsonStrLoop_step [OF 1(2) [unfolded json]] show ?case
  proof
    assume "\<exists>x n. catChr x (jsonStrLoop (drop n json')) = Inr (s, rest)"
    then obtain n s' where "jsonStrLoop (drop n json') = Inr (s', rest)" by (auto simp: catChr_Inr)
    moreover have "length (drop n json') < length json" by (simp add: json)
    ultimately have "length rest < length (drop n json')" using 1(1) by blast
    then show ?thesis by (simp add: json)
  qed (simp add: json)
qed

lemma jsonToStrInternal_length: "jsonToStrInternal json = Inr (s, rest) \<Longrightarrow> length rest < length json"
  using jsonStrLoop_length [of "tl json"] by (cases json) (auto simp: jsonToStrInternal_def jsonChr_def split: if_splits)

lemma jsonToNumberInternal_length: "jsonToNumberInternal None json = Inr (v, rest) \<Longrightarrow> length rest < length json"
proof -
  assume a: "jsonToNumberInternal None json = Inr (v, rest)"
  let ?body = "if jsonChr json = CHR ''-'' then tl json else json"
  have r: "rest = dropWhile decimalDigit ?body" "takeWhile decimalDigit ?body \<noteq> []"
    using a by (auto simp: jsonToNumberInternal_def Let_def bindE_def mapE_def split: if_splits sum.splits)
  then have "length rest < length ?body"
    by (metis append_Nil2 length_append length_greater_0_conv less_add_same_cancel2 takeWhile_dropWhile_id)
  then show ?thesis by (auto split: if_splits)
qed

lemma jsonToBoolInternal_length: "jsonToBoolInternal json = Inr (b, rest) \<Longrightarrow> length rest < length json"
  by (cases json) (auto simp: jsonToBoolInternal_def split: if_splits)

lemma skipComma_length: "length (jsonSkipComma json) \<le> length json"
  using whiteSpace_length [of "tl json"] by (cases json) (auto simp: jsonSkipComma_def)

lemma jsonKey_length:
  assumes "jsonKey json = Inr (key, rest)"
  shows "length rest < length json"
proof -
  obtain rest' where r: "jsonToStrInternal (jsonSkipComma json) = Inr (key, rest')"
      "rest = jsonConsumeWhiteSpace (tl (jsonConsumeWhiteSpace rest'))"
    using assms by (auto simp: jsonKey_def bindE_def split: sum.splits if_splits)
  have "length rest \<le> length rest'"
    using r(2) whiteSpace_length [of rest'] whiteSpace_length [of "tl (jsonConsumeWhiteSpace rest')"] by simp
  then show ?thesis using jsonToStrInternal_length [OF r(1)] skipComma_length [of json] by linarith
qed

lemma jsonClose_length: "jsonClose c r = Inr (x, rest) \<Longrightarrow> length rest \<le> length (snd r)"
  by (auto simp: jsonClose_def split: if_splits)

lemma jsonItems_length:
  assumes "bindE (if b then loop (jsonConsumeWhiteSpace (tl x)) else Inr (y, jsonConsumeWhiteSpace (tl x))) (jsonClose c) = Inr (z, r)"
    and "\<And>j y r. loop j = Inr (y, r) \<Longrightarrow> length r < length j" "x \<noteq> []"
  shows "length r < length x"
proof -
  let ?x = "jsonConsumeWhiteSpace (tl x)"
  obtain w where w: "(if b then loop ?x else Inr (y, ?x)) = Inr w" "jsonClose c w = Inr (z, r)"
    using assms(1) by (auto simp: bindE_eq_Inr)
  then have "length (snd w) \<le> length ?x" using assms(2) [of ?x "fst w" "snd w"] by (cases b) auto
  then show ?thesis using jsonClose_length [OF w(2)] whiteSpace_length [of "tl x"] assms(3) by (cases x) auto
qed

text \<open>A reader that leaves less text than it was given.\<close>

definition shortens :: "(string \<Rightarrow> ('a \<times> string) result) \<Rightarrow> bool" where
  "shortens m \<longleftrightarrow> (\<forall>json x rest. m json = Inr (x, rest) \<longrightarrow> length rest < length json)"

lemma shortensD: "shortens m \<Longrightarrow> m json = Inr (x, rest) \<Longrightarrow> length rest < length json"
  by (auto simp: shortens_def)

lemma shortens_kv: "shortens loop \<Longrightarrow> jsonToKvInternal loop x = Inr (kv, r) \<Longrightarrow> x \<noteq> [] \<Longrightarrow> length r < length x"
  unfolding jsonToKvInternal_def Let_def by (erule jsonItems_length) (auto dest: shortensD)

lemma shortens_lst: "shortens loop \<Longrightarrow> jsonToVarLstInternal loop x = Inr (vl, r) \<Longrightarrow> x \<noteq> [] \<Longrightarrow> length r < length x"
  by (cases "jsonChr x = CHR ''[''") (auto simp: jsonToVarLstInternal_def Let_def dest: shortensD elim!: jsonItems_length simp del: jsonConsumeWhiteSpace_def)

lemma shortens_all: "shortens (jsonToVarInternal fuel) \<and> (\<forall>kv. shortens (jsonKvLoop fuel kv)) \<and> (\<forall>vl. shortens (jsonLstLoop fuel vl))"
proof (induction fuel)
  case 0
  show ?case by (simp add: shortens_def)
next
  case (Suc fuel)
  have v: "length rest < length json" if a: "jsonToVarInternal (Suc fuel) json = Inr (v, rest)" for json v rest
  proof -
    let ?json = "jsonConsumeWhiteSpace json"
    have null: "length (drop 4 ?json) < length ?json" if "jsonChr ?json \<noteq> CHR 0x00" using jsonChr_ne [OF that] by simp
    note items = shortens_kv [of "jsonKvLoop fuel []"] shortens_lst [of "jsonLstLoop fuel []"] jsonToStrInternal_length jsonToNumberInternal_length
      jsonToBoolInternal_length
    obtain rest' where r: "rest = jsonConsumeWhiteSpace rest'" "length rest' < length ?json"
      using a Suc jsonChr_ne [of ?json] null by (auto simp: Let_def split: if_splits dest: items)
    then show ?thesis using whiteSpace_length [of json] whiteSpace_length [of rest'] by simp
  qed
  have kv: "length rest < length json" if a: "jsonKvLoop (Suc fuel) kv json = Inr (kv', rest)" for json kv kv' rest
  proof -
    obtain key r v r' where r: "jsonKey json = Inr (key, r)" "jsonToVarInternal fuel r = Inr (v, r')"
        "(if jsonChr r' = CHR '','' then jsonKvLoop fuel (kvPut kv key v) r' else Inr (kvPut kv key v, r')) = Inr (kv', rest)"
      using a by (auto simp: bindE_eq_Inr)
    have "length r' < length r" "length rest \<le> length r'"
      using shortensD r(2,3) Suc by (fastforce split: if_splits)+
    then show ?thesis using jsonKey_length [OF r(1)] by simp
  qed
  have vl: "length rest < length json" if a: "jsonLstLoop (Suc fuel) vl json = Inr (vl', rest)" for json vl vl' rest
  proof -
    obtain v r where r: "jsonToVarInternal fuel (jsonSkipComma json) = Inr (v, r)"
        "(if jsonChr (jsonConsumeWhiteSpace r) = CHR '','' then jsonLstLoop fuel (vl @ [v]) (jsonConsumeWhiteSpace r) else Inr (vl @ [v], jsonConsumeWhiteSpace r)) = Inr (vl', rest)"
      using a by (auto simp: bindE_eq_Inr)
    have "length r < length (jsonSkipComma json)" "length rest \<le> length (jsonConsumeWhiteSpace r)"
      using shortensD r Suc by (fastforce split: if_splits)+
    then show ?thesis using skipComma_length [of json] whiteSpace_length [of r] by simp
  qed
  show ?case unfolding shortens_def using v kv vl by blast
qed

text \<open>Readers that do not use fuel return.\<close>

lemma cvt_returns [simp]: "cvtZToUIntBase s b \<noteq> Inl NoReturn" "cvtZToInt64 s \<noteq> Inl NoReturn" "cvtZToUInt64 s \<noteq> Inl NoReturn"
  by (auto simp: cvtZToUIntBase_def cvtZToUInt64Internal_def cvtZToInt64_def cvtZToInt64Base_def cvtZToInt64Internal_def cvtZToUInt64_def
      cvtZToUInt64Base_def cvtZToIntValid_def bindE_eq_Inl split: prod.splits if_splits)

lemma catChr_returns [simp]: "catChr c r = Inl NoReturn \<longleftrightarrow> c \<noteq> CHR 0x00 \<and> r = Inl NoReturn"
  by (cases r) (auto simp: catChr_def ASSERT_def)

lemma jsonStrLoop_returns [simp]: "jsonStrLoop json \<noteq> Inl NoReturn"
proof (induction json rule: length_induct)
  case (1 json)
  then have IH: "length j < length json \<Longrightarrow> jsonStrLoop j \<noteq> Inl NoReturn" for j by blast
  show ?case
  proof (cases json)
    case (Cons c json')
    have d: "jsonStrLoop (drop n json') \<noteq> Inl NoReturn" for n by (rule IH) (simp add: Cons)
    show ?thesis
    proof (cases json')
      case (Cons e json'')
      then show ?thesis using d [of 0] d [of 1] d [of 5] by (auto simp: \<open>json = c # json'\<close> bindE_eq_Inl split: if_splits)
    qed (auto simp: Cons)
  qed simp
qed

lemma jsonKey_returns [simp]: "jsonKey json \<noteq> Inl NoReturn"
  by (auto simp: jsonKey_def jsonToStrInternal_def bindE_eq_Inl split: if_splits prod.splits)

lemma jsonToNumberInternal_returns [simp]: "jsonToNumberInternal b json \<noteq> Inl NoReturn"
  by (auto simp: jsonToNumberInternal_def Let_def bindE_eq_Inl split: if_splits option.splits)

lemma jsonClose_returns [simp]: "jsonClose c r \<noteq> Inl NoReturn"
  by (simp add: jsonClose_def)

lemma jsonItems_returns:
  "loop (jsonConsumeWhiteSpace (tl x)) \<noteq> Inl NoReturn \<Longrightarrow> jsonToKvInternal loop x \<noteq> Inl NoReturn"
  "loop' (jsonConsumeWhiteSpace (tl x)) \<noteq> Inl NoReturn \<Longrightarrow> jsonToVarLstInternal loop' x \<noteq> Inl NoReturn"
  by (auto simp: jsonToKvInternal_def jsonToVarLstInternal_def Let_def bindE_eq_Inl split: if_splits)

lemma jsonFuel_enough:
  "(\<forall>json. 2 * length json + 1 \<le> fuel \<longrightarrow> jsonToVarInternal fuel json \<noteq> Inl NoReturn) \<and>
   (\<forall>kv json. 2 * length json + 2 \<le> fuel \<longrightarrow> jsonKvLoop fuel kv json \<noteq> Inl NoReturn) \<and>
   (\<forall>vl json. 2 * length json + 2 \<le> fuel \<longrightarrow> jsonLstLoop fuel vl json \<noteq> Inl NoReturn)"
proof (induction fuel)
  case (Suc fuel)
  have v: "jsonToVarInternal (Suc fuel) json \<noteq> Inl NoReturn" if a: "2 * length json + 1 \<le> Suc fuel" for json
  proof -
    let ?json = "jsonConsumeWhiteSpace json"
    have "2 * length (jsonConsumeWhiteSpace (tl ?json)) + 2 \<le> fuel" if ne: "?json \<noteq> []"
    proof -
      have "length ?json = Suc (length (tl ?json))" using ne by simp
      then show ?thesis using a whiteSpace_length [of json] whiteSpace_length [of "tl ?json"] by linarith
    qed
    then have "jsonToKvInternal (jsonKvLoop fuel []) ?json \<noteq> Inl NoReturn" "jsonToVarLstInternal (jsonLstLoop fuel []) ?json \<noteq> Inl NoReturn"
      if "?json \<noteq> []" using jsonItems_returns Suc that by blast+
    then show ?thesis using jsonChr_ne [of ?json] by (auto simp: Let_def jsonToStrInternal_def jsonToBoolInternal_def)
  qed
  have kv: "jsonKvLoop (Suc fuel) kv json \<noteq> Inl NoReturn" if a: "2 * length json + 2 \<le> Suc fuel" for kv json
  proof
    assume e: "jsonKvLoop (Suc fuel) kv json = Inl NoReturn"
    then obtain key r where r: "jsonKey json = Inr (key, r)" by (cases "jsonKey json") (auto simp: bindE_eq_Inl)
    then have "2 * length r + 1 \<le> fuel" using jsonKey_length [OF r] a by simp
    then have "jsonToVarInternal fuel r \<noteq> Inl NoReturn" using Suc by blast
    then obtain v r' where v: "jsonToVarInternal fuel r = Inr (v, r')" using e r by (cases "jsonToVarInternal fuel r") auto
    have "length r' < length r" by (rule shortensD [OF shortens_all [THEN conjunct1] v])
    then have "jsonKvLoop fuel (kvPut kv key v) r' \<noteq> Inl NoReturn" using \<open>2 * length r + 1 \<le> fuel\<close> Suc by simp
    then show False using e r v by (simp split: if_splits)
  qed
  have vl: "jsonLstLoop (Suc fuel) vl json \<noteq> Inl NoReturn" if a: "2 * length json + 2 \<le> Suc fuel" for vl json
  proof
    assume e: "jsonLstLoop (Suc fuel) vl json = Inl NoReturn"
    have l: "2 * length (jsonSkipComma json) + 1 \<le> fuel" using skipComma_length [of json] a by simp
    then have "jsonToVarInternal fuel (jsonSkipComma json) \<noteq> Inl NoReturn" using Suc by blast
    then obtain v r where v: "jsonToVarInternal fuel (jsonSkipComma json) = Inr (v, r)" using e by (cases "jsonToVarInternal fuel (jsonSkipComma json)") auto
    have "length r < length (jsonSkipComma json)" by (rule shortensD [OF shortens_all [THEN conjunct1] v])
    then have "2 * length (jsonConsumeWhiteSpace r) + 2 \<le> fuel" using l whiteSpace_length [of r] by simp
    then have "jsonLstLoop fuel (vl @ [v]) (jsonConsumeWhiteSpace r) \<noteq> Inl NoReturn" using Suc by simp
    then show False using e v by (simp split: if_splits)
  qed
  show ?case using v kv vl by blast
qed simp

lemma jsonItems_mono:
  assumes "\<And>j. loop j \<noteq> Inl NoReturn \<Longrightarrow> loop' j = loop j"
  shows "jsonToKvInternal loop x \<noteq> Inl NoReturn \<Longrightarrow> jsonToKvInternal loop' x = jsonToKvInternal loop x"
  using assms [of "jsonConsumeWhiteSpace (tl x)"] by (cases "loop (jsonConsumeWhiteSpace (tl x)) = Inl NoReturn") (auto simp: jsonToKvInternal_def Let_def)

lemma jsonItemsLst_mono:
  assumes "\<And>j. loop j \<noteq> Inl NoReturn \<Longrightarrow> loop' j = loop j"
  shows "jsonToVarLstInternal loop x \<noteq> Inl NoReturn \<Longrightarrow> jsonToVarLstInternal loop' x = jsonToVarLstInternal loop x"
  using assms [of "jsonConsumeWhiteSpace (tl x)"] by (cases "loop (jsonConsumeWhiteSpace (tl x)) = Inl NoReturn") (auto simp: jsonToVarLstInternal_def Let_def)

lemma bindE_mono:
  assumes "m \<noteq> Inl e \<Longrightarrow> m' = m" "\<And>x. m = Inr x \<Longrightarrow> f x \<noteq> Inl e \<Longrightarrow> f' x = f x" "bindE m f \<noteq> Inl e"
  shows "bindE m' f' = bindE m f"
  using assms by (cases m) auto

lemma jsonFuel_step:
  "(\<forall>json. jsonToVarInternal fuel json \<noteq> Inl NoReturn \<longrightarrow> jsonToVarInternal (Suc fuel) json = jsonToVarInternal fuel json) \<and>
   (\<forall>kv json. jsonKvLoop fuel kv json \<noteq> Inl NoReturn \<longrightarrow> jsonKvLoop (Suc fuel) kv json = jsonKvLoop fuel kv json) \<and>
   (\<forall>vl json. jsonLstLoop fuel vl json \<noteq> Inl NoReturn \<longrightarrow> jsonLstLoop (Suc fuel) vl json = jsonLstLoop fuel vl json)"
proof (induction fuel)
  case (Suc fuel)
  have v: "jsonToVarInternal (Suc (Suc fuel)) json = jsonToVarInternal (Suc fuel) json" if a: "jsonToVarInternal (Suc fuel) json \<noteq> Inl NoReturn" for json
  proof -
    have "jsonToKvInternal (jsonKvLoop fuel []) x \<noteq> Inl NoReturn \<Longrightarrow> jsonToKvInternal (jsonKvLoop (Suc fuel) []) x = jsonToKvInternal (jsonKvLoop fuel []) x"
      "jsonToVarLstInternal (jsonLstLoop fuel []) x \<noteq> Inl NoReturn \<Longrightarrow> jsonToVarLstInternal (jsonLstLoop (Suc fuel) []) x = jsonToVarLstInternal (jsonLstLoop fuel []) x" for x
      using jsonItems_mono jsonItemsLst_mono Suc by blast+
    then show ?thesis using a unfolding jsonToVarInternal.simps(2) Let_def
      by (auto simp del: jsonKvLoop.simps jsonLstLoop.simps split: if_splits)
  qed
  have kv: "jsonKvLoop (Suc (Suc fuel)) kv json = jsonKvLoop (Suc fuel) kv json" if a: "jsonKvLoop (Suc fuel) kv json \<noteq> Inl NoReturn" for kv json
    using a unfolding jsonKvLoop.simps(2) [of "Suc fuel" kv json] jsonKvLoop.simps(2) [of fuel kv json]
    by (intro bindE_mono) (auto simp del: jsonKvLoop.simps jsonToVarInternal.simps simp: Suc intro!: bindE_mono split: if_splits)
  have vl: "jsonLstLoop (Suc (Suc fuel)) vl json = jsonLstLoop (Suc fuel) vl json" if a: "jsonLstLoop (Suc fuel) vl json \<noteq> Inl NoReturn" for vl json
    using a unfolding jsonLstLoop.simps(2) [of "Suc fuel" vl json] jsonLstLoop.simps(2) [of fuel vl json]
    by (intro bindE_mono) (auto simp del: jsonLstLoop.simps jsonToVarInternal.simps simp: Suc split: if_splits)
  show ?case using v kv vl by blast
qed simp

lemma jsonFuel_mono:
  "fuel \<le> fuel' \<Longrightarrow> jsonToVarInternal fuel json = Inr r \<Longrightarrow> jsonToVarInternal fuel' json = Inr r"
  "fuel \<le> fuel' \<Longrightarrow> jsonKvLoop fuel kv json = Inr r' \<Longrightarrow> jsonKvLoop fuel' kv json = Inr r'"
  "fuel \<le> fuel' \<Longrightarrow> jsonLstLoop fuel vl json = Inr r'' \<Longrightarrow> jsonLstLoop fuel' vl json = Inr r''"
  by (induction rule: dec_induct; use jsonFuel_step in fastforce)+

lemma jsonFuel_more:
  "fuel \<le> fuel' \<Longrightarrow> jsonToVarInternal fuel json \<noteq> Inl NoReturn \<Longrightarrow> jsonToVarInternal fuel' json = jsonToVarInternal fuel json"
  by (induction rule: dec_induct) (use jsonFuel_step in fastforce)+

lemma jsonToVar_fuel: "jsonToVarInternal (jsonFuel json) json \<noteq> Inl NoReturn"
  using jsonFuel_enough [of "jsonFuel json"] by (simp add: jsonFuel_def)

section \<open>What is written is read back\<close>

text \<open>The value that is read: numbers are 64 bits, missing strings and lists are null, and keys are in order.\<close>

abbreviation number64 :: "int \<Rightarrow> Variant" where
  "number64 n \<equiv> if n < 0 then VarInt64 n else VarUInt64 (nat n)"

primrec jsonNormal :: "Variant \<Rightarrow> Variant" where
  "jsonNormal VarNull = VarNull"
| "jsonNormal (VarBool b) = VarBool b"
| "jsonNormal (VarInt n) = number64 n"
| "jsonNormal (VarInt64 n) = number64 n"
| "jsonNormal (VarKeyValue kv) = VarKeyValue (map_option (\<lambda>xs. map (\<lambda>k. (k, the (map_of xs k))) (strLstSort (map fst xs) sortOrderAsc))
     (map_option (map (map_prod id jsonNormal)) kv))"
| "jsonNormal (VarString s) = (if s = None then VarNull else VarString s)"
| "jsonNormal (VarUInt n) = VarUInt64 n"
| "jsonNormal (VarUInt64 n) = VarUInt64 n"
| "jsonNormal (VarVariantList vl) = (case map_option (map jsonNormal) vl of None \<Rightarrow> VarNull | Some xs \<Rightarrow> VarVariantList (Some xs))"

definition jsonKeyOk :: "string \<Rightarrow> bool" where
  "jsonKeyOk key \<longleftrightarrow> CHR 0x22 \<notin> set key \<and> CHR 0x5C \<notin> set key \<and> CHR 0x00 \<notin> set key"

text \<open>The values that can be written: numbers within their types, and keys that need no escape.\<close>

primrec jsonOk :: "Variant \<Rightarrow> bool" where
  "jsonOk VarNull = True"
| "jsonOk (VarBool b) = True"
| "jsonOk (VarInt n) = (- (2 ^ 31) \<le> n \<and> n < 2 ^ 31)"
| "jsonOk (VarInt64 n) = (- (2 ^ 63) \<le> n \<and> n < 2 ^ 63)"
| "jsonOk (VarKeyValue kv) = (case map_option (map (map_prod id jsonOk)) kv of None \<Rightarrow> False
     | Some xs \<Rightarrow> distinct (map fst xs) \<and> list_all (\<lambda>(k, ok). jsonKeyOk k \<and> ok) xs)"
| "jsonOk (VarString s) = (CHR 0x00 \<notin> \<Union> (set ` set_option s))"
| "jsonOk (VarUInt n) = (n < 2 ^ 32)"
| "jsonOk (VarUInt64 n) = (n < 2 ^ 64)"
| "jsonOk (VarVariantList vl) = (case map_option (map jsonOk) vl of None \<Rightarrow> True | Some oks \<Rightarrow> list_all id oks)"

lemma jsonStrLoop_escaped: "CHR 0x00 \<notin> set s \<Longrightarrow> jsonStrLoop (concat (map jsonEscape s) @ CHR 0x22 # rest) = Inr (s, rest)"
  by (induction s) (auto simp: jsonEscape_def catChr_def ASSERT_def)

lemma jsonStrLoop_key: "jsonKeyOk key \<Longrightarrow> jsonStrLoop (key @ CHR 0x22 # rest) = Inr (key, rest)"
  by (induction key) (auto simp: jsonKeyOk_def catChr_def ASSERT_def)

text \<open>The text after a value, and the first character of a value.\<close>

definition follows :: "string \<Rightarrow> bool" where
  "follows rest \<longleftrightarrow> rest = [] \<or> hd rest \<in> {CHR '','', CHR '']'', CHR 0x7D}"

definition startsValue :: "string \<Rightarrow> bool" where
  "startsValue s \<longleftrightarrow> s \<noteq> [] \<and> hd s \<notin> {CHR '','', CHR '']'', CHR 0x7D, CHR 0x00} \<and> \<not> isJsonSpace (hd s)"

lemma follows_simps:
  assumes "follows rest"
  shows "jsonConsumeWhiteSpace rest = rest" "takeWhile decimalDigit rest = []" "dropWhile decimalDigit rest = rest"
  using assms by (cases rest; auto simp: follows_def jsonConsumeWhiteSpace_def isJsonSpace_def decimalDigit_def)+

lemma startsValue_simps:
  assumes "startsValue s"
  shows "jsonConsumeWhiteSpace (s @ rest) = s @ rest" "jsonChr (s @ rest) = hd s" "jsonSkipComma (s @ rest) = s @ rest"
    "jsonSkipComma (CHR '','' # s @ rest) = s @ rest"
  using assms by (cases s; auto simp: startsValue_def jsonConsumeWhiteSpace_def jsonChr_def jsonSkipComma_def)+

definition readsAs :: "string \<Rightarrow> Variant \<Rightarrow> bool" where
  "readsAs s v \<longleftrightarrow> startsValue s \<and> (\<forall>rest. follows rest \<longrightarrow> (\<exists>fuel. jsonToVarInternal fuel (s @ rest) = Inr (v, rest)))"

lemma readsAsI:
  "startsValue s \<Longrightarrow> (\<And>rest. follows rest \<Longrightarrow> jsonToVarInternal fuel (s @ rest) = Inr (v, rest)) \<Longrightarrow> readsAs s v"
  unfolding readsAs_def by blast

lemma decimal_digitsOf: "list_all decimalDigit (digitsOf 10 n)"
  using digitsOf_digits [of 10 n] by (simp add: digitValue_decimal list_all_iff)

lemma digits_split:
  "follows rest \<Longrightarrow> takeWhile decimalDigit (digitsOf 10 n @ rest) = digitsOf 10 n" "follows rest \<Longrightarrow> dropWhile decimalDigit (digitsOf 10 n @ rest) = rest"
  using decimal_digitsOf [of n] follows_simps [of rest] by (simp_all add: takeWhile_append2 dropWhile_append2 list_all_iff)

lemma readsAs_unsigned:
  assumes "n < 2 ^ 64"
  shows "readsAs (digitsOf 10 n) (VarUInt64 n)"
proof -
  obtain c ds where d: "digitsOf 10 n = c # ds" by (cases "digitsOf 10 n") auto
  have c: "decimalDigit c" using decimal_digitsOf [of n] d by simp
  have s: "startsValue (digitsOf 10 n)" using c by (auto simp: d startsValue_def decimalDigit_def isJsonSpace_def)
  have "cvtZToUInt64 (digitsOf 10 n) = Inr n"
    by (rule cvt_unsigned_roundtrip(1) [of n "Suc (length (digitsOf 10 n))"]) (use assms in \<open>auto simp: cvtUInt64ToZ_def snprintfBuffer_def\<close>)
  moreover have "jsonChr (digitsOf 10 n @ rest) = c" "c \<noteq> CHR ''-''" for rest using c by (auto simp: d jsonChr_def decimalDigit_def)
  ultimately have "jsonToNumberInternal None (digitsOf 10 n @ rest) = Inr (VarUInt64 n, rest)" if "follows rest" for rest
    using digits_split [OF that] by (simp add: jsonToNumberInternal_def)
  moreover have "c \<noteq> CHR 0x00" "c \<noteq> CHR 0x22" using c by (auto simp: decimalDigit_def)
  ultimately have "jsonToVarInternal 1 (digitsOf 10 n @ rest) = Inr (VarUInt64 n, rest)" if "follows rest" for rest
    using that c startsValue_simps [OF s, of rest] follows_simps by (simp add: d)
  then show ?thesis by (rule readsAsI [OF s])
qed

lemma readsAs_negative:
  assumes "- (2 ^ 63) \<le> n" "n < 0"
  shows "readsAs (intText n) (VarInt64 n)"
proof -
  have t: "intText n = CHR ''-'' # digitsOf 10 (nat (- n))" using assms(2) by (simp add: intText_def)
  have s: "startsValue (intText n)" by (simp add: t startsValue_def isJsonSpace_def)
  have "cvtZToInt64 (intText n) = Inr n"
    by (rule cvt_signed_roundtrip(1) [of n "Suc (length (intText n))"]) (use assms in \<open>auto simp: cvtInt64ToZ_def snprintfBuffer_def\<close>)
  then have "jsonToNumberInternal None (intText n @ rest) = Inr (VarInt64 n, rest)" if "follows rest" for rest
    using digits_split [OF that] by (simp add: jsonToNumberInternal_def t jsonChr_def)
  then have "jsonToVarInternal 1 (intText n @ rest) = Inr (VarInt64 n, rest)" if "follows rest" for rest
    using that startsValue_simps [OF s, of rest] follows_simps by (simp add: t)
  then show ?thesis by (rule readsAsI [OF s])
qed

lemma readsAs_number: "- (2 ^ 63) \<le> n \<Longrightarrow> n < 2 ^ 63 \<Longrightarrow> readsAs (intText n) (number64 n)"
  using readsAs_negative [of n] readsAs_unsigned [of "nat n"] by (auto simp: intText_def)

lemma readsAs_simple: "readsAs ''null'' VarNull" "readsAs (jsonFromBool b) (VarBool b)"
proof -
  have "jsonToVarInternal 1 (''null'' @ rest) = Inr (VarNull, rest)" "jsonToVarInternal 1 (jsonFromBool b @ rest) = Inr (VarBool b, rest)"
    if "follows rest" for rest
    using follows_simps(1) [OF that]
    by (auto simp: jsonConsumeWhiteSpace_def isJsonSpace_def jsonChr_def decimalDigit_def jsonFromBool_def jsonToBoolInternal_def)
  moreover have "startsValue ''null''" "startsValue (jsonFromBool b)" by (simp_all add: startsValue_def isJsonSpace_def jsonFromBool_def)
  ultimately show "readsAs ''null'' VarNull" "readsAs (jsonFromBool b) (VarBool b)" by (blast intro: readsAsI)+
qed

lemma readsAs_string:
  assumes "CHR 0x00 \<notin> set s"
  shows "readsAs (jsonFromStrInternal (Some s)) (VarString (Some s))"
proof -
  have "jsonToVarInternal 1 (jsonFromStrInternal (Some s) @ rest) = Inr (VarString (Some s), rest)" if "follows rest" for rest
    using follows_simps(1) [OF that] jsonStrLoop_escaped [OF assms, of rest]
    by (simp add: jsonFromStrInternal_def jsonConsumeWhiteSpace_def isJsonSpace_def jsonChr_def jsonToStrInternal_def)
  moreover have "startsValue (jsonFromStrInternal (Some s))" by (simp add: startsValue_def isJsonSpace_def jsonFromStrInternal_def)
  ultimately show ?thesis by (blast intro: readsAsI)
qed

lemma jsonLstLoop_join:
  assumes "list_all2 readsAs ss vs" "ss \<noteq> []" "sep \<in> {[], '',''}" "hd rest = CHR '']''" "rest \<noteq> []"
  shows "\<exists>fuel s. jsonJoin (map Inr ss) = Inr s \<and> startsValue s \<and> jsonLstLoop fuel acc (sep @ s @ rest) = Inr (acc @ vs, rest)"
  using assms(1,2,3)
proof (induction ss arbitrary: vs acc sep)
  case (Cons x ss)
  then obtain v vs' where vs: "vs = v # vs'" "readsAs x v" "list_all2 readsAs ss vs'" by (auto simp: list_all2_Cons1)
  have x: "startsValue x" using vs(2) by (simp add: readsAs_def)
  have skip: "jsonSkipComma (sep @ x @ r) = x @ r" for r using Cons(4) startsValue_simps(3,4) [OF x, of r] by auto
  show ?case
  proof (cases "ss = []")
    case True
    have "follows rest" using assms(4) by (simp add: follows_def)
    then obtain fuel where "jsonToVarInternal fuel (x @ rest) = Inr (v, rest)" using vs(2) by (auto simp: readsAs_def)
    then have "jsonLstLoop (Suc fuel) acc (sep @ x @ rest) = Inr (acc @ [v], rest)"
      using skip [of rest] follows_simps(1) [OF \<open>follows rest\<close>] assms(4,5) by (cases rest) (auto simp: jsonChr_def)
    then show ?thesis using True vs x by (intro exI [of _ "Suc fuel"]) auto
  next
    case False
    then obtain fuel s where s: "jsonJoin (map Inr ss) = Inr s" "startsValue s" "jsonLstLoop fuel (acc @ [v]) ('','' @ s @ rest) = Inr ((acc @ [v]) @ vs', rest)"
      using Cons(1) [OF vs(3), of "'',''" "acc @ [v]"] by auto
    have f: "follows ('','' @ s @ rest)" by (simp add: follows_def)
    then obtain fuel' where v: "jsonToVarInternal fuel' (x @ '','' @ s @ rest) = Inr (v, '','' @ s @ rest)" using vs(2) unfolding readsAs_def by blast
    let ?fuel = "max fuel fuel'"
    have "jsonLstLoop (Suc ?fuel) acc (sep @ x @ '','' @ s @ rest) = Inr (acc @ v # vs', rest)"
      using jsonFuel_mono(1) [OF _ v, of ?fuel] jsonFuel_mono(3) [OF _ s(3), of ?fuel] skip [of "'','' @ s @ rest"] follows_simps(1) [OF f]
      by (simp add: jsonChr_def)
    moreover have "jsonJoin (map Inr (x # ss)) = Inr (x @ '','' @ s)" using s(1) False by (cases ss) auto
    moreover have "startsValue (x @ '','' @ s)" using x by (auto simp: startsValue_def)
    ultimately show ?thesis using vs(1) by (intro exI [of _ "Suc ?fuel"] exI [of _ "x @ '','' @ s"]) simp
  qed
qed simp

text \<open>The text of one key and its value.\<close>

abbreviation jsonPair :: "string \<times> string \<Rightarrow> string" where
  "jsonPair p \<equiv> CHR 0x22 # fst p @ [CHR 0x22, CHR '':''] @ snd p"

lemma startsValue_pair: "startsValue (jsonPair p)"
  by (simp add: startsValue_def isJsonSpace_def)

lemma jsonKey_pair:
  assumes "jsonKeyOk (fst p)" "startsValue (snd p)" "sep \<in> {[], '',''}"
  shows "jsonKey (sep @ jsonPair p @ rest) = Inr (fst p, snd p @ rest)"
proof -
  have "jsonSkipComma (sep @ jsonPair p @ rest) = jsonPair p @ rest"
    using assms(3) startsValue_simps(3,4) [OF startsValue_pair, of p rest] by auto
  moreover have "jsonToStrInternal (jsonPair p @ rest) = Inr (fst p, CHR '':'' # snd p @ rest)"
    using jsonStrLoop_key [OF assms(1), of "CHR '':'' # snd p @ rest"] by (simp add: jsonToStrInternal_def jsonChr_def)
  moreover have "jsonConsumeWhiteSpace (CHR '':'' # snd p @ rest) = CHR '':'' # snd p @ rest"
    by (simp add: jsonConsumeWhiteSpace_def isJsonSpace_def)
  ultimately show ?thesis using startsValue_simps(1) [OF assms(2), of rest] by (simp add: jsonKey_def jsonChr_def)
qed

lemma kvPut_new: "key \<notin> fst ` set kv \<Longrightarrow> kvPut kv key v = kv @ [(key, v)]"
  by (simp add: kvPut_def)

lemma jsonKvLoop_join:
  assumes "list_all2 (\<lambda>p q. fst q = fst p \<and> jsonKeyOk (fst p) \<and> readsAs (snd p) (snd q)) ps qs" "ps \<noteq> []" "distinct (map fst (acc @ qs))"
    and "sep \<in> {[], '',''}" "hd rest = CHR 0x7D" "rest \<noteq> []"
  shows "\<exists>fuel s. jsonJoin (map (\<lambda>p. Inr (jsonPair p)) ps) = Inr s \<and> startsValue s \<and> jsonKvLoop fuel acc (sep @ s @ rest) = Inr (acc @ qs, rest)"
  using assms(1,2,3,4)
proof (induction ps arbitrary: qs acc sep)
  case (Cons p ps)
  then obtain v qs' where qs: "qs = (fst p, v) # qs'" "jsonKeyOk (fst p)" "readsAs (snd p) v"
      "list_all2 (\<lambda>p q. fst q = fst p \<and> jsonKeyOk (fst p) \<and> readsAs (snd p) (snd q)) ps qs'"
    by (auto simp: list_all2_Cons1)
  have p: "startsValue (snd p)" using qs(3) by (simp add: readsAs_def)
  have put: "kvPut acc (fst p) v = acc @ [(fst p, v)]" using Cons(4) qs(1) by (auto intro!: kvPut_new)
  note key = jsonKey_pair [OF qs(2) p Cons(5)]
  show ?case
  proof (cases "ps = []")
    case True
    have "follows rest" using assms(5) by (simp add: follows_def)
    then obtain fuel where "jsonToVarInternal fuel (snd p @ rest) = Inr (v, rest)" using qs(3) by (auto simp: readsAs_def)
    then have "jsonKvLoop (Suc fuel) acc (sep @ jsonPair p @ rest) = Inr (acc @ [(fst p, v)], rest)"
      using key [of rest] put assms(5,6) by (cases rest) (auto simp: jsonChr_def simp del: append_Cons)
    then show ?thesis using True qs startsValue_pair by (intro exI [of _ "Suc fuel"]) auto
  next
    case False
    then obtain fuel s where s: "jsonJoin (map (\<lambda>p. Inr (jsonPair p)) ps) = Inr s" "startsValue s"
        "jsonKvLoop fuel (acc @ [(fst p, v)]) ('','' @ s @ rest) = Inr ((acc @ [(fst p, v)]) @ qs', rest)"
      using Cons(1) [OF qs(4), of "acc @ [(fst p, v)]" "'',''"] Cons(4) qs(1) by auto
    have f: "follows ('','' @ s @ rest)" by (simp add: follows_def)
    then obtain fuel' where v: "jsonToVarInternal fuel' (snd p @ '','' @ s @ rest) = Inr (v, '','' @ s @ rest)" using qs(3) unfolding readsAs_def by blast
    let ?fuel = "max fuel fuel'"
    have "jsonKvLoop (Suc ?fuel) acc (sep @ jsonPair p @ '','' @ s @ rest) = Inr (acc @ (fst p, v) # qs', rest)"
      using jsonFuel_mono(1) [OF _ v, of ?fuel] jsonFuel_mono(2) [OF _ s(3), of ?fuel] key [of "'','' @ s @ rest"] put
      by (simp add: jsonChr_def)
    moreover have "jsonJoin (map (\<lambda>p. Inr (jsonPair p)) (p # ps)) = Inr (jsonPair p @ '','' @ s)" using s(1) False by (cases ps) auto
    moreover have "startsValue (jsonPair p @ '','' @ s)" by (simp add: startsValue_def isJsonSpace_def)
    ultimately show ?thesis using qs(1) by (intro exI [of _ "Suc ?fuel"] exI [of _ "jsonPair p @ '','' @ s"]) simp
  qed
qed simp

lemma readsAs_list:
  assumes "list_all2 readsAs ss vs"
  shows "\<exists>s. jsonFromLst (Some (map Inr ss)) = Inr s \<and> readsAs s (VarVariantList (Some vs))"
proof (cases "ss = []")
  case True
  then have "vs = []" using assms by simp
  have "jsonToVarInternal 1 (''[]'' @ rest) = Inr (VarVariantList (Some []), rest)" if "follows rest" for rest
    using follows_simps(1) [OF that]
    by (simp add: jsonConsumeWhiteSpace_def isJsonSpace_def jsonChr_def decimalDigit_def jsonToVarLstInternal_def jsonClose_def)
  then show ?thesis using True \<open>vs = []\<close> readsAsI [of "''[]''" 1 "VarVariantList (Some [])"]
    by (simp add: jsonFromLst_def startsValue_def isJsonSpace_def)
next
  case False
  obtain s where s: "jsonJoin (map Inr ss) = Inr s" "startsValue s"
    using jsonLstLoop_join [OF assms False, of "[]" "'']''" "[]"] by auto
  have "\<exists>fuel. jsonToVarInternal fuel ((''['' @ s @ '']'') @ rest) = Inr (VarVariantList (Some vs), rest)" if "follows rest" for rest
  proof -
    obtain fuel where "jsonLstLoop fuel [] ([] @ s @ '']'' @ rest) = Inr ([] @ vs, '']'' @ rest)"
      using jsonLstLoop_join [OF assms False, of "[]" "'']'' @ rest" "[]"] s(1) by auto
    then have "jsonToVarInternal (Suc fuel) ((''['' @ s @ '']'') @ rest) = Inr (VarVariantList (Some vs), rest)"
      using follows_simps(1) [OF that] startsValue_simps(1,2) [OF s(2), of "'']'' @ rest"] s(2)
      by (simp add: jsonConsumeWhiteSpace_def [of "CHR ''['' # _"] isJsonSpace_def [of "CHR ''[''"] jsonChr_def [of "CHR ''['' # _"]
          decimalDigit_def jsonToVarLstInternal_def jsonClose_def jsonChr_def [of "CHR '']'' # _"] startsValue_def)
    then show ?thesis by blast
  qed
  then show ?thesis using s by (auto simp: jsonFromLst_def readsAs_def startsValue_def isJsonSpace_def)
qed

lemma readsAs_pairs:
  assumes "list_all2 (\<lambda>p q. fst q = fst p \<and> jsonKeyOk (fst p) \<and> readsAs (snd p) (snd q)) ps qs" "distinct (map fst qs)"
  shows "\<exists>s. jsonJoin (map (\<lambda>p. Inr (jsonPair p)) ps) = Inr s \<and> readsAs (CHR 0x7B # s @ [CHR 0x7D]) (VarKeyValue (Some qs))"
proof (cases "ps = []")
  case True
  then have "qs = []" using assms(1) by simp
  have "jsonToVarInternal 1 ([CHR 0x7B, CHR 0x7D] @ rest) = Inr (VarKeyValue (Some []), rest)" if "follows rest" for rest
    using follows_simps(1) [OF that]
    by (simp add: jsonConsumeWhiteSpace_def isJsonSpace_def jsonChr_def decimalDigit_def jsonToKvInternal_def jsonClose_def)
  then show ?thesis using True \<open>qs = []\<close> readsAsI [of "[CHR 0x7B, CHR 0x7D]" 1 "VarKeyValue (Some [])"]
    by (simp add: startsValue_def isJsonSpace_def)
next
  case False
  have d: "distinct (map fst ([] @ qs))" using assms(2) by simp
  obtain s where s: "jsonJoin (map (\<lambda>p. Inr (jsonPair p)) ps) = Inr s" "startsValue s"
    using jsonKvLoop_join [OF assms(1) False d, of "[]" "[CHR 0x7D]"] by auto
  have "\<exists>fuel. jsonToVarInternal fuel ((CHR 0x7B # s @ [CHR 0x7D]) @ rest) = Inr (VarKeyValue (Some qs), rest)" if "follows rest" for rest
  proof -
    obtain fuel where "jsonKvLoop fuel [] ([] @ s @ CHR 0x7D # rest) = Inr ([] @ qs, CHR 0x7D # rest)"
      using jsonKvLoop_join [OF assms(1) False d, of "[]" "CHR 0x7D # rest"] s(1) by auto
    then have "jsonToVarInternal (Suc fuel) ((CHR 0x7B # s @ [CHR 0x7D]) @ rest) = Inr (VarKeyValue (Some qs), rest)"
      using follows_simps(1) [OF that] startsValue_simps(1,2) [OF s(2), of "CHR 0x7D # rest"] s(2)
      by (simp add: jsonConsumeWhiteSpace_def [of "CHR 0x7B # _"] isJsonSpace_def [of "CHR 0x7B"] jsonChr_def [of "CHR 0x7B # _"]
          decimalDigit_def jsonToKvInternal_def jsonClose_def jsonChr_def [of "CHR 0x7D # _"] startsValue_def)
    then show ?thesis by blast
  qed
  then show ?thesis using s by (auto simp: readsAs_def startsValue_def isJsonSpace_def)
qed

lemma lookup: "map_of (map (map_prod id f) kv) k = map_option f (map_of kv k)"
  by (induction kv) auto

lemma readsAs_object:
  assumes "distinct (map fst kv)" "\<And>k v. (k, v) \<in> set kv \<Longrightarrow> jsonKeyOk k \<and> (\<exists>s. jsonFromItem v = Inr s \<and> readsAs s (jsonNormal v))"
  shows "\<exists>s. jsonFromKvInternal (map (map_prod id jsonFromItem) kv) = Inr s \<and> readsAs s (jsonNormal (VarKeyValue (Some kv)))"
proof -
  let ?keys = "strLstSort (map fst kv) sortOrderAsc"
  let ?val = "\<lambda>k. the (map_of kv k)" and ?text = "\<lambda>k. projr (jsonFromItem (the (map_of kv k)))"
  have in_kv: "(k, ?val k) \<in> set kv" if "k \<in> set ?keys" for k
  proof -
    have "k \<in> fst ` set kv" using that by simp
    then obtain v where "(k, v) \<in> set kv" by auto
    then show ?thesis using map_of_is_SomeI [OF assms(1)] by simp
  qed
  have item: "jsonFromItem (?val k) = Inr (?text k)" "readsAs (?text k) (jsonNormal (?val k))" "jsonKeyOk k" if "k \<in> set ?keys" for k
    using assms(2) [OF in_kv [OF that]] by auto
  have some: "map_of kv k = Some (?val k)" if "k \<in> set ?keys" for k
    by (rule map_of_is_SomeI [OF assms(1) in_kv [OF that]])
  have "list_all2 (\<lambda>p q. fst q = fst p \<and> jsonKeyOk (fst p) \<and> readsAs (snd p) (snd q)) (map (\<lambda>k. (k, ?text k)) ?keys) (map (\<lambda>k. (k, jsonNormal (?val k))) ?keys)"
    unfolding list_all2_map1 list_all2_map2 using item by (auto intro!: list_all2_refl simp: list_all2_same)
  moreover have "distinct ?keys" using assms(1) strLstSort_mset [of "map fst kv" sortOrderAsc] by (metis mset_eq_imp_distinct_iff)
  then have "distinct (map fst (map (\<lambda>k. (k, jsonNormal (?val k))) ?keys))" by (simp add: comp_def)
  ultimately obtain s where s: "jsonJoin (map (\<lambda>p. Inr (jsonPair p)) (map (\<lambda>k. (k, ?text k)) ?keys)) = Inr s"
      "readsAs (CHR 0x7B # s @ [CHR 0x7D]) (VarKeyValue (Some (map (\<lambda>k. (k, jsonNormal (?val k))) ?keys)))"
    using readsAs_pairs by blast
  have "map (\<lambda>key. mapE (\<lambda>s. CHR 0x22 # key @ [CHR 0x22, CHR '':''] @ s) (case map_of (map (map_prod id jsonFromItem) kv) key of Some r \<Rightarrow> r | None \<Rightarrow> Inr ''null'')) ?keys =
      map (\<lambda>p. Inr (jsonPair p)) (map (\<lambda>k. (k, ?text k)) ?keys)"
  proof -
    have "(case map_of (map (map_prod id jsonFromItem) kv) k of Some r \<Rightarrow> r | None \<Rightarrow> Inr ''null'') = Inr (?text k)" if "k \<in> set ?keys" for k
      unfolding lookup by (subst some [OF that]) (use item(1) [OF that] in simp)
    then show ?thesis by (simp only: map_map comp_def) (rule map_cong [OF refl], simp)
  qed
  note texts = this
  have keys: "map fst (map (map_prod id jsonFromItem) kv) = map fst kv" by simp
  have "jsonFromKvInternal (map (map_prod id jsonFromItem) kv) = Inr (CHR 0x7B # s @ [CHR 0x7D])"
    unfolding jsonFromKvInternal_def keys texts s(1) by simp
  moreover have "jsonNormal (VarKeyValue (Some kv)) = VarKeyValue (Some (map (\<lambda>k. (k, jsonNormal (?val k))) ?keys))"
  proof -
    have "the (map_option jsonNormal (map_of kv k)) = jsonNormal (?val k)" if "k \<in> set ?keys" for k
      by (subst some [OF that]) simp
    then show ?thesis by (simp add: lookup comp_def)
  qed
  ultimately show ?thesis using s(2) by metis
qed

lemma digitsOf_length: "n < 10 ^ k \<Longrightarrow> 0 < k \<Longrightarrow> length (digitsOf 10 n) \<le> k"
proof (induction "10 :: nat" n arbitrary: k rule: digitsOf.induct)
  case (1 n)
  show ?case
  proof (cases "n < 10")
    case False
    then obtain j where k: "k = Suc j" "0 < j" using 1(2,3) by (cases k; cases "k - 1") auto
    have "n div 10 < 10 ^ j" using 1(2) k by (simp add: less_mult_imp_div_less mult.commute)
    then show ?thesis using 1(1) [of j] False k by (subst digitsOf.simps) simp
  qed (use 1(3) in \<open>simp add: Suc_leI digitsOf.simps [of 10 n]\<close>)
qed

lemma numbers_written:
  "n < 2 ^ 64 \<Longrightarrow> jsonFromUInt64 n = Inr (digitsOf 10 n) \<and> jsonFromUInt n = Inr (digitsOf 10 n)"
  "- (2 ^ 63) \<le> i \<Longrightarrow> i < 2 ^ 63 \<Longrightarrow> jsonFromInt64 i = Inr (intText i) \<and> jsonFromInt i = Inr (intText i)"
  using digitsOf_length [of n 20] digitsOf_length [of "nat i" 20] digitsOf_length [of "nat (- i)" 20]
  by (auto simp: nat_less_iff jsonFromUInt64_def jsonFromUInt_def jsonFromInt64_def jsonFromInt_def cvtUInt64ToZ_def cvtUIntToZ_def cvtInt64ToZ_def cvtIntToZ_def
      snprintfBuffer_def CVT_BASE10_BUFFER_SIZE_def intText_def)

lemma jsonFromItem_reads: "jsonOk v \<Longrightarrow> \<exists>s. jsonFromItem v = Inr s \<and> readsAs s (jsonNormal v)"
proof (induction v)
  case (VarKeyValue kv)
  then obtain xs where kv: "kv = Some xs" by (cases kv) auto
  show ?case using readsAs_object [of xs] VarKeyValue kv by (fastforce simp: list_all_iff comp_def)
next
  case (VarVariantList vl)
  show ?case
  proof (cases vl)
    case (Some xs)
    have "\<forall>x \<in> set xs. \<exists>s. jsonFromItem x = Inr s \<and> readsAs s (jsonNormal x)"
      using VarVariantList Some by (auto simp: list_all_iff)
    then obtain f where f: "\<forall>x \<in> set xs. jsonFromItem x = Inr (f x) \<and> readsAs (f x) (jsonNormal x)" by metis
    then have "map jsonFromItem xs = map Inr (map f xs)" "list_all2 readsAs (map f xs) (map jsonNormal xs)"
      by (auto simp: list_all2_map1 list_all2_map2 list_all2_same)
    then show ?thesis using readsAs_list Some by (metis jsonFromItem.simps(9) jsonNormal.simps(9) option.simps(5) option.simps(9))
  qed (simp add: jsonFromLst_def readsAs_simple)
next
  case (VarString s)
  then show ?case using readsAs_string readsAs_simple by (cases s) (auto simp: jsonFromStrInternal_def [of None])
qed (use numbers_written readsAs_number readsAs_unsigned readsAs_simple in \<open>auto simp del: intText_def split: if_splits\<close>)

section \<open>Properties\<close>

lemma jsonToVar_readsAs:
  assumes "readsAs s v"
  shows "jsonToVar s = Inr v"
proof -
  obtain fuel where "jsonToVarInternal fuel (s @ []) = Inr (v, [])" using assms unfolding readsAs_def follows_def by blast
  then have r: "jsonToVarInternal (max fuel (jsonFuel s)) s = Inr (v, [])" using jsonFuel_mono(1) [of fuel "max fuel (jsonFuel s)" s] by simp
  have "jsonToVarInternal (max fuel (jsonFuel s)) s = jsonToVarInternal (jsonFuel s) s"
    by (rule jsonFuel_more) (simp_all add: jsonToVar_fuel)
  with r have "jsonToVarInternal (jsonFuel s) s = Inr (v, [])" by simp
  then show ?thesis by (simp add: jsonToVar_def)
qed




end
