(* ===== verification/BackupManifest.thy ===== *)
theory BackupManifest
  imports RestoreWorker JobsDone Json
begin

text \<open>
  The manifest of a backup while the backup is made: src/info/manifest.c as far as it compares the new manifest
  with the manifest of the prior backup, updates and removes files and validates the result, and from
  src/command/backup the choice of the prior backup, the handler of the local process and the result of a
  job (backup.c and protocol.c). Building the list of files from the data directory and the text of a manifest
  are not part of it.
\<close>

section \<open>The manifest\<close>

record BuildFile = JobFile +
  checksumPageError :: bool
  checksumPageErrorList :: "Variant list option"

record BuildData = ManifestData +
  timestampCopyStart_md :: u64
  compressType_md :: u32
  compressLevel_md :: "u32 option"
  backupOptionDelta :: "bool option"

record BuildManifest =
  dataM :: BuildData
  filesM :: "BuildFile list"
  targetsM :: "ManifestTarget list"
  referencesM :: "string list"
  cipherSubPassM :: "string option"

text \<open>What the queues and jobs see of it.\<close>

definition jobManifest :: "BuildManifest \<Rightarrow> JobManifest" where
  "jobManifest this = \<lparr>targetList = targetsM this, fileList = map JobFile.truncate (filesM this), backupLabel_jm = backupLabel_md (dataM this),
     backupTimestampCopyStart = timestampCopyStart_md (dataM this), backupOptionCompressType = compressType_md (dataM this)\<rparr>"

definition manifestFileAdd :: "BuildManifest \<Rightarrow> BuildFile \<Rightarrow> BuildManifest" where
  "manifestFileAdd this f = this\<lparr>filesM := filesM this @ [f],
     referencesM := (case reference f of None \<Rightarrow> referencesM this | Some r \<Rightarrow> strLstAddIfMissing (referencesM this) r)\<rparr>"

definition manifestFileFindDefault :: "BuildManifest \<Rightarrow> string \<Rightarrow> BuildFile option" where
  "manifestFileFindDefault this n = List.find (\<lambda>f. name_mf f = n) (filesM this)"

fun fileReplace :: "string \<Rightarrow> (BuildFile \<Rightarrow> BuildFile) \<Rightarrow> BuildFile list \<Rightarrow> BuildFile list" where
  "fileReplace n g [] = []"
| "fileReplace n g (f # fs) = (if name_mf f = n then g f # fs else f # fileReplace n g fs)"

text \<open>A reference that is not set is left as it is, one that is set to nothing is removed.\<close>

definition manifestFileUpdate ::
  "BuildManifest \<Rightarrow> string \<Rightarrow> u64 \<Rightarrow> u64 \<Rightarrow> string option \<Rightarrow> string option option \<Rightarrow> bool \<Rightarrow> bool \<Rightarrow> Variant list option \<Rightarrow> BuildManifest result" where
  "manifestFileUpdate this n size0 sizeRepo0 checksum reference0 page pageError errorList =
     bindE (ASSERT (\<not> page \<and> \<not> pageError \<and> errorList = None \<or> page \<and> \<not> pageError \<and> errorList = None \<or> page \<and> pageError)) (\<lambda>_.
     case manifestFileFindDefault this n of
       None \<Rightarrow> Inl AssertError
     | Some _ \<Rightarrow> Inr (this\<lparr>
         referencesM := (case reference0 of Some (Some r) \<Rightarrow> strLstAddIfMissing (referencesM this) r | _ \<Rightarrow> referencesM this),
         filesM := fileReplace n (\<lambda>f. f\<lparr>reference := (case reference0 of None \<Rightarrow> reference f | Some r \<Rightarrow> r),
           checksumSha1 := (case checksum of None \<Rightarrow> checksumSha1 f | Some c \<Rightarrow> c), size_mf := size0, sizeRepo := sizeRepo0,
           checksumPage := page, checksumPageError := pageError, checksumPageErrorList := errorList\<rparr>) (filesM this)\<rparr>))"

fun fileRemoveFirst :: "string \<Rightarrow> BuildFile list \<Rightarrow> BuildFile list" where
  "fileRemoveFirst n [] = []"
| "fileRemoveFirst n (f # fs) = (if name_mf f = n then fs else f # fileRemoveFirst n fs)"

definition manifestFileRemove :: "BuildManifest \<Rightarrow> string \<Rightarrow> BuildManifest result" where
  "manifestFileRemove this n = (case manifestFileFindDefault this n of
     None \<Rightarrow> Inl AssertError | Some _ \<Rightarrow> Inr (this\<lparr>filesM := fileRemoveFirst n (filesM this)\<rparr>))"

definition manifestBackupLabelSet :: "BuildManifest \<Rightarrow> string \<Rightarrow> BuildManifest" where
  "manifestBackupLabelSet this label = this\<lparr>dataM := (dataM this)\<lparr>backupLabel_md := label\<rparr>\<rparr>"

section \<open>Building\<close>

text \<open>Files from the future enable the comparison of checksums.\<close>

definition manifestBuildValidate :: "BuildManifest \<Rightarrow> bool \<Rightarrow> u64 \<Rightarrow> u32 \<Rightarrow> BuildManifest result" where
  "manifestBuildValidate this delta copyStart compressType =
     bindE (ASSERT (0 <s copyStart)) (\<lambda>_.
     Inr (this\<lparr>dataM := (dataM this)\<lparr>
       backupOptionDelta := Some (delta \<or> list_ex (\<lambda>f. copyStart <s timestamp_mf f) (filesM this)),
       timestampCopyStart_md := copyStart + (if backupOptionOnline (dataM this) then 1 else 0),
       compressType_md := compressType\<rparr>\<rparr>))"

definition varBoolOf :: "bool option \<Rightarrow> bool result" where
  "varBoolOf v = (case v of None \<Rightarrow> Inl AssertError | Some b \<Rightarrow> Inr b)"

text \<open>Changes of the timeline or of the online option enable delta.\<close>

definition incrDelta :: "BuildData \<Rightarrow> BuildData \<Rightarrow> string option \<Rightarrow> bool option result" where
  "incrDelta this prior archiveStart0 =
     bindE (case (archiveStart0, archiveStop prior) of
              (Some start, Some stop) \<Rightarrow> bindE (strSubN start 0 8) (\<lambda>a. bindE (strSubN stop 0 8) (\<lambda>b. Inr (a \<noteq> b)))
            | _ \<Rightarrow> Inr False) (\<lambda>timeline.
     Inr (if timeline \<or> backupOptionOnline prior \<noteq> backupOptionOnline this then Some True else backupOptionDelta this))"

text \<open>A file that is older than in the prior backup, or that has another size at the same time.\<close>

definition incrAnomaly :: "BuildManifest \<Rightarrow> BuildFile \<Rightarrow> bool" where
  "incrAnomaly prior f = (case manifestFileFindDefault prior (name_mf f) of
     None \<Rightarrow> False
   | Some p \<Rightarrow> timestamp_mf f <s timestamp_mf p \<or> size_mf f \<noteq> size_mf p \<and> timestamp_mf f = timestamp_mf p)"

definition incrReference :: "BuildManifest \<Rightarrow> bool \<Rightarrow> nat \<Rightarrow> BuildManifest \<Rightarrow> BuildManifest result" where
  "incrReference prior delta fileIdx this =
     (let f = filesM this ! fileIdx
      in case manifestFileFindDefault prior (name_mf f) of
           None \<Rightarrow> Inr this
         | Some p \<Rightarrow>
             if size_mf f = size_mf p \<and> (delta \<or> size_mf f = 0 \<or> timestamp_mf f = timestamp_mf p) then
               manifestFileUpdate this (name_mf f) (size_mf f) (sizeRepo p) (Some (checksumSha1 p))
                 (Some (Some (case reference p of Some r \<Rightarrow> r | None \<Rightarrow> backupLabel_md (dataM prior))))
                 (checksumPage p) (checksumPageError p) (checksumPageErrorList p)
             else Inr this)"

fun incrReferences :: "BuildManifest \<Rightarrow> bool \<Rightarrow> nat list \<Rightarrow> BuildManifest \<Rightarrow> BuildManifest result" where
  "incrReferences prior delta [] this = Inr this"
| "incrReferences prior delta (i # is) this = bindE (incrReference prior delta i this) (incrReferences prior delta is)"

definition manifestBuildIncr :: "BuildManifest \<Rightarrow> BuildManifest \<Rightarrow> BackupType \<Rightarrow> string option \<Rightarrow> BuildManifest result" where
  "manifestBuildIncr this prior type0 archiveStart0 =
     bindE (ASSERT (type0 = backupTypeDiff \<or> type0 = backupTypeIncr)) (\<lambda>_.
     bindE (ASSERT (type0 \<noteq> backupTypeDiff \<or> backupType_md (dataM prior) = backupTypeFull)) (\<lambda>_.
     bindE (ASSERT (case archiveStart0 of None \<Rightarrow> True | Some s \<Rightarrow> length s = 24)) (\<lambda>_.
     bindE (incrDelta (dataM this) (dataM prior) archiveStart0) (\<lambda>delta0.
     bindE (varBoolOf delta0) (\<lambda>delta1.
     let delta = delta1 \<or> list_ex (incrAnomaly prior) (filesM this);
         this' = this\<lparr>dataM := (dataM this)\<lparr>backupLabelPrior := Some (backupLabel_md (dataM prior)), backupType_md := type0,
           backupOptionDelta := (if delta then Some True else delta0)\<rparr>\<rparr>
     in incrReferences prior delta [0..<length (filesM this)] this')))))"

definition HASH_TYPE_SHA1_ZERO :: string where
  "HASH_TYPE_SHA1_ZERO = ''da39a3ee5e6b4b0d3255bfef95601890afd80709''"

definition manifestValidate :: "BuildManifest \<Rightarrow> bool \<Rightarrow> unit result" where
  "manifestValidate this strict =
     (if list_ex (\<lambda>f. checksumSha1 f = [] \<or>
           strict \<and> (size_mf f = 0 \<and> checksumSha1 f \<noteq> HASH_TYPE_SHA1_ZERO \<or> sizeRepo f = 0 \<and> size_mf f \<noteq> 0)) (filesM this)
      then Inl FormatError else Inr ())"

section \<open>The prior backup\<close>

text \<open>The options of the command that the prior backup may change.\<close>

record BackupOptions =
  typeO :: BackupType
  compressTypeO :: u32
  compressLevelO :: u32
  hardLinkO :: bool
  checksumPageO :: bool

definition backupPriorLabel :: "BackupType \<Rightarrow> nat \<Rightarrow> InfoBackup \<Rightarrow> string option" where
  "backupPriorLabel type0 pgId info =
     map_option backupLabel (List.find (\<lambda>b. \<not> (type0 = backupTypeDiff \<and> backupType b \<noteq> backupTypeFull) \<and> pgId = backupPgId b) (rev (backup info)))"

definition backupBuildIncrPrior ::
  "(string \<Rightarrow> BuildManifest result) \<Rightarrow> nat \<Rightarrow> InfoBackup \<Rightarrow> BackupOptions \<Rightarrow> (BuildManifest option \<times> BackupOptions) result" where
  "backupBuildIncrPrior load pgId info opt =
     (if typeO opt = backupTypeFull then Inr (None, opt)
      else case backupPriorLabel (typeO opt) pgId info of
        None \<Rightarrow> Inr (None, opt\<lparr>typeO := backupTypeFull\<rparr>)
      | Some label \<Rightarrow>
          bindE (load label) (\<lambda>prior.
          bindE (if compressTypeO opt \<noteq> compressType_md (dataM prior) then
                   (case compressLevel_md (dataM prior) of
                      None \<Rightarrow> Inl AssertError
                    | Some level \<Rightarrow> Inr (opt\<lparr>compressTypeO := compressType_md (dataM prior), compressLevelO := level\<rparr>))
                 else Inr opt) (\<lambda>opt'.
          Inr (Some prior, opt'\<lparr>hardLinkO := backupOptionHardLink (dataM prior),
            checksumPageO := (case backupOptionChecksumPage (dataM prior) of None \<Rightarrow> False | Some b \<Rightarrow> b)\<rparr>))))"

definition backupBuildIncr :: "BackupOptions \<Rightarrow> BuildManifest \<Rightarrow> BuildManifest option \<Rightarrow> string option \<Rightarrow> (bool \<times> BuildManifest) result" where
  "backupBuildIncr opt manifest prior archiveStart0 = (case prior of
     None \<Rightarrow> Inr (False, manifest)
   | Some p \<Rightarrow>
       bindE (manifestBuildIncr manifest p (typeO opt) archiveStart0) (\<lambda>m.
       Inr (True, m\<lparr>cipherSubPassM := cipherSubPassM p\<rparr>)))"

section \<open>The handler of the local process\<close>

definition backupCopyResultCode :: "BackupCopyResult \<Rightarrow> u32" where
  "backupCopyResultCode r = (case r of
     backupCopyResultChecksum \<Rightarrow> 0 | backupCopyResultCopy \<Rightarrow> 1 | backupCopyResultReCopy \<Rightarrow> 2 | backupCopyResultSkip \<Rightarrow> 3 | backupCopyResultNoOp \<Rightarrow> 4)"

text \<open>The result of the page checksums as the filter returns it.\<close>

definition pageErrorVar :: "PageError \<Rightarrow> Variant" where
  "pageErrorVar e = (case e of
     PageNo n \<Rightarrow> VarUInt (unat n)
   | PageRange pageId pageIdLast \<Rightarrow> VarVariantList (Some [VarUInt (unat pageId), VarUInt (unat pageIdLast)]))"

definition pageResultKv :: "PageChecksumResult \<Rightarrow> KeyValue" where
  "pageResultKv r =
     (let kv = (case resultError r of None \<Rightarrow> [] | Some es \<Rightarrow> kvPut [] ''error'' (VarVariantList (Some (map pageErrorVar es))))
      in kvPut (kvPut kv ''valid'' (VarBool (resultValid r))) ''align'' (VarBool (resultAlign r)))"

definition pageResultJson :: "PageChecksumResult option \<Rightarrow> string option result" where
  "pageResultJson r = (case r of None \<Rightarrow> Inr None | Some x \<Rightarrow> mapE Some (jsonFromKv (pageResultKv x)))"

definition backupResultWrite :: "BackupFileResult \<Rightarrow> string option \<Rightarrow> (PackWrite, unit) prog" where
  "backupResultWrite r json =
     bindP (pckWriteU32 (backupCopyResultCode (backupCopyResult r)) 0 False 0) (\<lambda>_.
     bindP (pckWriteU64 (copySize r) 0 False 0) (\<lambda>_.
     bindP (pckWriteU64 (repoSizeBf r) 0 False 0) (\<lambda>_.
     bindP (pckWriteStr (copyChecksum r) 0 False None) (\<lambda>_.
     pckWriteStr json 0 False None))))"

definition backupFileProtocol :: "CopyEnv \<Rightarrow> CopyState handler" where
  "backupFileProtocol env param = (case param of
     None \<Rightarrow> throwP AssertError
   | Some param' \<Rightarrow>
       bindP (liftP (fst (backupFileParamRead param'))) (\<lambda>p.
       bindP (onHandlerData (backupFile env p)) (\<lambda>result.
       bindP (liftP (pageResultJson (pageChecksumResultBf result))) (\<lambda>json.
       case backupResultWrite result json protocolPackNew of
         (Inl e, _) \<Rightarrow> throwP e
       | (Inr _, resultPack) \<Rightarrow>
           bindP (protocolServerDataPut (ioBufferSize env) (Some resultPack)) (\<lambda>_.
           protocolServerDataEndPut (ioBufferSize env))))))"

section \<open>The result of a job\<close>

record BackupAnswer =
  answerCode :: u32
  answerSize :: u64
  answerRepoSize :: u64
  answerChecksum :: "string option"
  answerPages :: string

definition backupResultRead :: "(PackRead, BackupAnswer) prog" where
  "backupResultRead =
     bindP (pckReadU32 0 0) (\<lambda>code.
     bindP (pckReadU64 0 0) (\<lambda>size0.
     bindP (pckReadU64 0 0) (\<lambda>repoSize0.
     bindP (pckReadStr 0 None) (\<lambda>checksum.
     bindP (pckReadStr 0 (Some ''null'')) (\<lambda>pages.
     retP \<lparr>answerCode = code, answerSize = size0, answerRepoSize = repoSize0, answerChecksum = checksum,
       answerPages = (case pages of Some s \<Rightarrow> s | None \<Rightarrow> [])\<rparr>)))))"

definition varKv :: "Variant \<Rightarrow> KeyValue option result" where
  "varKv v = (case v of VarNull \<Rightarrow> Inr None | VarKeyValue kv \<Rightarrow> Inr kv | _ \<Rightarrow> Inl AssertError)"

definition varBool :: "Variant \<Rightarrow> bool result" where
  "varBool v = (case v of VarBool b \<Rightarrow> Inr b | _ \<Rightarrow> Inl AssertError)"

definition varVarLst :: "Variant \<Rightarrow> Variant list option result" where
  "varVarLst v = (case v of VarNull \<Rightarrow> Inr None | VarVariantList vl \<Rightarrow> Inr vl | _ \<Rightarrow> Inl AssertError)"

text \<open>An item of the list of page errors is a page or a range of two pages.\<close>

definition pageErrorItem :: "Variant \<Rightarrow> bool" where
  "pageErrorItem v = (case v of VarVariantList (Some [VarUInt64 _, VarUInt64 _]) \<Rightarrow> True | VarUInt64 _ \<Rightarrow> True | _ \<Rightarrow> False)"

text \<open>Whether there is an error in the pages, and the list of them.\<close>

definition pageErrors :: "KeyValue option \<Rightarrow> (bool \<times> Variant list option) result" where
  "pageErrors pages = (case pages of
     None \<Rightarrow> Inr (False, None)
   | Some kv \<Rightarrow>
       bindE (varBool (kvGet kv ''valid'')) (\<lambda>valid0.
       if valid0 then Inr (False, None)
       else
         bindE (varBool (kvGet kv ''align'')) (\<lambda>align0.
         if \<not> align0 then Inr (True, None)
         else
           bindE (varVarLst (kvGet kv ''error'')) (\<lambda>errors.
           bindE (ASSERT (errors \<noteq> None \<and> errors \<noteq> Some [])) (\<lambda>_.
           bindE (ASSERT (list_all pageErrorItem (the errors))) (\<lambda>_. Inr (True, errors))))))) "

definition backupJobResult ::
  "BuildManifest \<Rightarrow> string list \<Rightarrow> (string, ProtocolCommand, PackRead option) ProtocolParallelJob \<Rightarrow> u64 \<Rightarrow> (BuildManifest \<times> string list \<times> u64) result" where
  "backupJobResult manifest fileRemove job sizeCopied = (case jobCode job of
     Some e \<Rightarrow> Inl e
   | None \<Rightarrow>
       (case manifestFileFindDefault manifest (jobKey job) of
          None \<Rightarrow> Inl AssertError
        | Some f \<Rightarrow>
            bindE (case jobResult job of Some (Some r) \<Rightarrow> fst (backupResultRead r) | _ \<Rightarrow> Inl AssertError) (\<lambda>answer.
            bindE (bindE (jsonToVar (answerPages answer)) varKv) (\<lambda>pages.
            if answerCode answer = backupCopyResultCode backupCopyResultNoOp \<or> answerCode answer = backupCopyResultCode backupCopyResultChecksum then
              Inr (manifest, fileRemove, sizeCopied + answerSize answer)
            else if answerCode answer = backupCopyResultCode backupCopyResultSkip then
              Inr (manifest, fileRemove @ [name_mf f], sizeCopied + answerSize answer)
            else
              bindE (ASSERT (checksumPage f = (pages \<noteq> None))) (\<lambda>_.
              bindE (pageErrors pages) (\<lambda>(pageError, errorList).
              mapE (\<lambda>m. (m, fileRemove, sizeCopied + answerSize answer))
                (manifestFileUpdate manifest (name_mf f) (answerSize answer) (answerRepoSize answer) (answerChecksum answer) (Some None)
                  (checksumPage f) pageError errorList)))))))"

text \<open>Files that were removed by the database are removed from the manifest at the end.\<close>

fun backupRemoveFiles :: "string list \<Rightarrow> BuildManifest \<Rightarrow> BuildManifest result" where
  "backupRemoveFiles [] manifest = Inr manifest"
| "backupRemoveFiles (n # ns) manifest = bindE (manifestFileRemove manifest n) (backupRemoveFiles ns)"

end
