(* ===== verification/BackupRun.thy ===== *)
theory BackupRun
  imports BackupManifest
begin

text \<open>
  The course of a backup from src/command/backup/backup.c: the label of the new backup, the search for
  a backup that was interrupted and can be resumed, the cleanup of its files, and cmdBackup() up to the
  point where the files are copied. The listings of the repository, which of the backups in it have
  a manifest or only a copy of one, and the manifests are a parameter.
\<close>

section \<open>The repository\<close>

text \<open>A listing of a path of the repository; what is below a path is listed when the path is visited.\<close>

datatype ResumeEntry =
    EntryPath (entryName: string) "ResumeEntry list"
  | EntryFile (entryName: string)
  | EntryLink (entryName: string)
  | EntrySpecial (entryName: string)

record BackupRepo =
  backupNames :: "string list"
  backupNamesLater :: "string list"
  historyYears :: "string list"
  historyNames :: "string \<Rightarrow> string list"
  manifestExists :: "string \<Rightarrow> bool"
  manifestCopyExists :: "string \<Rightarrow> bool"
  manifestLoadFile :: "string \<Rightarrow> BuildManifest result"
  resumeEntries :: "string \<Rightarrow> ResumeEntry list"

definition listMatching :: "string \<Rightarrow> string list \<Rightarrow> string list result" where
  "listMatching expression names0 = mapE (\<lambda>r. filter (regExpMatch r) names0) (regExpNew expression)"

definition backupListDesc :: "string list \<Rightarrow> string list result" where
  "backupListDesc names0 =
     bindE (backupRegExp \<lparr>full = True, differential = True, incremental = True, noAnchorEnd = False\<rparr>) (\<lambda>expression.
     mapE (\<lambda>l. strLstSort l sortOrderDesc) (listMatching expression names0))"

section \<open>The label\<close>

definition latestHistory :: "BackupRepo \<Rightarrow> string option result" where
  "latestHistory repo =
     bindE (listMatching ''^2[0-9]{3}$'' (historyYears repo)) (\<lambda>years.
     case strLstSort years sortOrderDesc of
       [] \<Rightarrow> Inr None
     | year # _ \<Rightarrow>
         bindE (backupRegExp \<lparr>full = True, differential = True, incremental = True, noAnchorEnd = True\<rparr>) (\<lambda>expression.
         bindE (listMatching (expression @ [CHR 0x5C] @ ''.manifest'' @ [CHR 0x5C] @ ''.gz$'') (historyNames repo year)) (\<lambda>l.
         Inr (case strLstSort l sortOrderDesc of [] \<Rightarrow> None | h # _ \<Rightarrow> Some h))))"

text \<open>The new label is later than all labels; one second is added if the time alone does not do it.\<close>

definition backupLabelCreate :: "(int \<Rightarrow> string option) \<Rightarrow> BackupRepo \<Rightarrow> BackupType \<Rightarrow> string option \<Rightarrow> int \<Rightarrow> string result" where
  "backupLabelCreate timeText repo type0 prior timestamp =
     bindE (ASSERT (type0 = backupTypeFull \<and> prior = None \<or> type0 \<noteq> backupTypeFull \<and> prior \<noteq> None)) (\<lambda>_.
     bindE (ASSERT (timestamp > 0)) (\<lambda>_.
     bindE (backupListDesc (backupNamesLater repo)) (\<lambda>backupList.
     bindE (latestHistory repo) (\<lambda>history.
     let backupLatest = (case backupList of [] \<Rightarrow> None | l # _ \<Rightarrow> Some l);
         latest = (if history \<noteq> None \<and> (backupLatest = None \<or> strCmp history backupLatest > 0) then history else backupLatest)
     in bindE (backupLabelFormat timeText type0 prior timestamp) (\<lambda>result.
        if latest \<noteq> None \<and> strCmp (Some result) latest \<le> 0 then
          bindE (backupLabelFormat timeText type0 prior (timestamp + 1)) (\<lambda>result'.
          if strCmp (Some result') latest \<le> 0 then Inl FormatError else Inr result')
        else Inr result)))))"

section \<open>Resuming a backup\<close>

record ResumeState =
  manifestRs :: BuildManifest
  filesRs :: CopyState

definition repoRemove :: "CopyEnv \<Rightarrow> string \<Rightarrow> (ResumeState, unit) prog" where
  "repoRemove env path =
     bindP (maybeP (repoRemoveError env path)) (\<lambda>_.
     modifyP (\<lambda>s. s\<lparr>filesRs := (filesRs s)\<lparr>repoFiles := (repoFiles (filesRs s))(path := None)\<rparr>\<rparr>))"

definition repoPathRemove :: "CopyEnv \<Rightarrow> string \<Rightarrow> (ResumeState, unit) prog" where
  "repoPathRemove env path =
     bindP (maybeP (repoRemoveError env path)) (\<lambda>_.
     modifyP (\<lambda>s. s\<lparr>filesRs := (filesRs s)\<lparr>repoFiles := (\<lambda>q. if strBeginsWith q (path @ ''/'') then None else repoFiles (filesRs s) q)\<rparr>\<rparr>))"

text \<open>Only the last backup can be resumed. One that can not be used is removed.\<close>

definition backupResumeUsable :: "BackupRepo \<Rightarrow> bool \<Rightarrow> BackupOptions \<Rightarrow> BuildManifest \<Rightarrow> string \<Rightarrow> BuildManifest option" where
  "backupResumeUsable repo resume opt manifest label =
     (if manifestCopyExists repo label \<and> resume then
        (case manifestLoadFile repo label of
           Inl _ \<Rightarrow> None
         | Inr m \<Rightarrow>
             if backrestVersion_md (dataM m) \<noteq> backrestVersion_md (dataM manifest) then None
             else if backupType_md (dataM m) \<noteq> typeO opt then None
             else if backupLabelPrior (dataM m) \<noteq> backupLabelPrior (dataM manifest) then None
             else if compressType_md (dataM m) \<noteq> compressTypeO opt then None
             else Some m)
      else None)"

definition backupResumeFind :: "CopyEnv \<Rightarrow> BackupRepo \<Rightarrow> bool \<Rightarrow> BackupOptions \<Rightarrow> (ResumeState, BuildManifest option) prog" where
  "backupResumeFind env repo resume opt =
     bindP (liftP (backupListDesc (backupNames repo))) (\<lambda>backupList.
     case backupList of
       [] \<Rightarrow> retP None
     | label # _ \<Rightarrow>
         if manifestExists repo label then retP None
         else
           bindP (getP manifestRs) (\<lambda>manifest.
           case backupResumeUsable repo resume opt manifest label of
             Some m \<Rightarrow> retP (Some m)
           | None \<Rightarrow> bindP (repoPathRemove env (STORAGE_REPO_BACKUP @ ''/'' @ label)) (\<lambda>_. retP None)))"

definition compressTypeFromName :: "'a Libraries_scheme \<Rightarrow> string \<Rightarrow> u32" where
  "compressTypeFromName lib n =
     (case List.find (\<lambda>i. strEndsWith n (extCh (helpers lib ! i))) [1..<length (helpers lib)] of None \<Rightarrow> compressTypeNone | Some i \<Rightarrow> of_nat i)"

definition compressExtStrip :: "'a Libraries_scheme \<Rightarrow> string \<Rightarrow> u32 \<Rightarrow> string result" where
  "compressExtStrip lib file t =
     bindE (compressExtStr lib t) (\<lambda>ext.
     if \<not> strEndsWith file ext then Inl FormatError else strSubN file 0 (length file - length ext))"

text \<open>A file stays when the new manifest and the one that is resumed agree on it.\<close>

definition resumeFileKeep :: "BuildManifest \<Rightarrow> u32 \<Rightarrow> bool \<Rightarrow> BuildManifest \<Rightarrow> u32 \<Rightarrow> string \<Rightarrow> (BuildFile \<times> BuildFile) option" where
  "resumeFileKeep resume compressType delta manifest fileCompressType manifestName =
     (if fileCompressType \<noteq> compressType then None
      else case (manifestFileFindDefault manifest manifestName, manifestFileFindDefault resume manifestName) of
        (Some f, Some r) \<Rightarrow>
          if reference f \<noteq> None then None
          else if reference r \<noteq> None then None
          else if checksumSha1 r = [] then None
          else if size_mf f \<noteq> size_mf r then None
          else if \<not> delta \<and> timestamp_mf f \<noteq> timestamp_mf r then None
          else if size_mf f = 0 then None
          else Some (f, r)
      | _ \<Rightarrow> None)"

definition backupResumeFile :: "CopyEnv \<Rightarrow> BuildManifest \<Rightarrow> u32 \<Rightarrow> bool \<Rightarrow> string \<Rightarrow> string \<Rightarrow> (ResumeState, unit) prog" where
  "backupResumeFile env resume compressType delta manifestName backupPath0 =
     (let fileCompressType = compressTypeFromName env manifestName
      in bindP (liftP (if fileCompressType \<noteq> compressTypeNone then compressExtStrip env manifestName fileCompressType else Inr manifestName)) (\<lambda>n.
         bindP (getP manifestRs) (\<lambda>manifest.
         case resumeFileKeep resume compressType delta manifest fileCompressType n of
           None \<Rightarrow> repoRemove env backupPath0
         | Some (f, r) \<Rightarrow>
             bindP (liftP (manifestFileUpdate manifest n (size_mf f) (sizeRepo r) (Some (checksumSha1 r)) None
               (checksumPage r) (checksumPageError r) (checksumPageErrorList r))) (\<lambda>m.
             modifyP (\<lambda>s. s\<lparr>manifestRs := m\<rparr>)))))"

text \<open>A path that was removed is visited too, and its listing is empty.\<close>

fun backupResumeCallback ::
    "CopyEnv \<Rightarrow> string list \<Rightarrow> BuildManifest \<Rightarrow> u32 \<Rightarrow> bool \<Rightarrow> string option \<Rightarrow> string \<Rightarrow> ResumeEntry \<Rightarrow> (ResumeState, unit) prog"
  and backupResumeList ::
    "CopyEnv \<Rightarrow> string list \<Rightarrow> BuildManifest \<Rightarrow> u32 \<Rightarrow> bool \<Rightarrow> string option \<Rightarrow> string \<Rightarrow> ResumeEntry list \<Rightarrow> (ResumeState, unit) prog" where
  "backupResumeCallback env paths resume compressType delta parent path e =
     (if entryName e = ''.'' then retP ()
      else if parent = None \<and> entryName e = ''backup.manifest.copy'' then retP ()
      else
        let manifestName = (case parent of Some p \<Rightarrow> p @ ''/'' @ entryName e | None \<Rightarrow> entryName e);
            backupPath0 = path @ ''/'' @ entryName e
        in case e of
             EntryPath _ es \<Rightarrow>
               bindP (if manifestName \<notin> set paths then repoPathRemove env backupPath0 else retP ()) (\<lambda>_.
               backupResumeList env paths resume compressType delta (Some manifestName) backupPath0 (if manifestName \<notin> set paths then [] else es))
           | EntryFile _ \<Rightarrow> backupResumeFile env resume compressType delta manifestName backupPath0
           | EntryLink _ \<Rightarrow> repoRemove env backupPath0
           | EntrySpecial _ \<Rightarrow> repoRemove env backupPath0)"
| "backupResumeList env paths resume compressType delta parent path [] = retP ()"
| "backupResumeList env paths resume compressType delta parent path (e # es) =
     bindP (backupResumeCallback env paths resume compressType delta parent path e) (\<lambda>_.
     backupResumeList env paths resume compressType delta parent path es)"

definition backupResume :: "CopyEnv \<Rightarrow> BackupRepo \<Rightarrow> string list \<Rightarrow> bool \<Rightarrow> BackupOptions \<Rightarrow> bool \<Rightarrow> (ResumeState, bool) prog" where
  "backupResume env repo paths resume opt delta =
     bindP (backupResumeFind env repo resume opt) (\<lambda>found.
     case found of
       None \<Rightarrow> retP False
     | Some r \<Rightarrow>
         bindP (modifyP (\<lambda>s. s\<lparr>manifestRs := manifestBackupLabelSet (manifestRs s) (backupLabel_md (dataM r))\<rparr>)) (\<lambda>_.
         bindP (modifyP (\<lambda>s. if backupType_md (dataM (manifestRs s)) = backupTypeFull
           then s\<lparr>manifestRs := (manifestRs s)\<lparr>cipherSubPassM := cipherSubPassM r\<rparr>\<rparr> else s)) (\<lambda>_.
         bindP (backupResumeList env paths r (compressTypeO opt) delta None (STORAGE_REPO_BACKUP @ ''/'' @ backupLabel_md (dataM r))
           (resumeEntries repo (backupLabel_md (dataM r)))) (\<lambda>_.
         retP True))))"

section \<open>The manifest of the backup\<close>

text \<open>What the command knows besides the repository: its options, the data directory, the times and the passphrase it would generate.\<close>

record BackupCommand =
  optionsC :: BackupOptions
  deltaC :: bool
  resumeC :: bool
  onlineC :: bool
  standbyC :: bool
  pgIdC :: nat
  infoBackupC :: InfoBackup
  manifestNewBuild :: "BackupOptions \<Rightarrow> BuildManifest result"
  pathsC :: "string list"
  copyStartC :: u64
  archiveStartC :: "string option"
  lsnStartC :: u64
  cipherPassGen :: "string option"
  timestampStartC :: int
  timeTextC :: "int \<Rightarrow> string option"

text \<open>cmdBackup() from the choice of the prior backup on: the options, the manifest, and whether delta is set.\<close>

definition backupManifestBuild :: "BackupRepo \<Rightarrow> BackupCommand \<Rightarrow> (BackupOptions \<times> BuildManifest \<times> bool) result" where
  "backupManifestBuild repo c =
     bindE (backupBuildIncrPrior (manifestLoadFile repo) (pgIdC c) (infoBackupC c) (optionsC c)) (\<lambda>(prior, opt).
     bindE (manifestNewBuild c opt) (\<lambda>built.
     bindE (manifestBuildValidate built (deltaC c) (copyStartC c) (compressTypeO opt)) (\<lambda>valid.
     bindE (backupBuildIncr opt valid prior (archiveStartC c)) (\<lambda>(incr, m).
     bindE (if deltaC c then Inr True else varBoolOf (backupOptionDelta (dataM m))) (\<lambda>delta.
     Inr (opt, if incr then m else m\<lparr>cipherSubPassM := cipherPassGen c\<rparr>, delta))))))"

text \<open>Resuming a backup, or a new label.\<close>

definition backupPrepare :: "CopyEnv \<Rightarrow> BackupRepo \<Rightarrow> BackupCommand \<Rightarrow> BackupOptions \<Rightarrow> bool \<Rightarrow> (ResumeState, unit) prog" where
  "backupPrepare env repo c opt delta =
     bindP (backupResume env repo (pathsC c) (resumeC c) opt delta) (\<lambda>resumed.
     if resumed then retP ()
     else
       bindP (getP manifestRs) (\<lambda>m.
       bindP (liftP (backupLabelCreate (timeTextC c) repo (typeO opt) (backupLabelPrior (dataM m)) (timestampStartC c))) (\<lambda>label.
       modifyP (\<lambda>s. s\<lparr>manifestRs := manifestBackupLabelSet m label\<rparr>))))"

section \<open>Copying the files\<close>

definition backupProcessInit :: "BackupCommand \<Rightarrow> BackupOptions \<Rightarrow> bool \<Rightarrow> BuildManifest \<Rightarrow> (u64 \<times> BackupJobData) result" where
  "backupProcessInit c opt delta m =
     mapE (\<lambda>(sizeTotal, queues).
       (sizeTotal, \<lparr>backupLabel_bd = backupLabel_md (dataM m), backupStandby_bd = standbyC c, cipherSubPass_bd = cipherSubPassM m,
         compressType_bd = compressTypeO opt, compressLevel_bd = compressLevelO opt, delta_bd = delta,
         lsnStart_bd = (if onlineC c then lsnStartC c else - 1), queueList_bd = queues\<rparr>))
       (backupProcessQueue (standbyC c) delta (onlineC c) (jobManifest m))"

text \<open>The manifest, the files to remove from it, the files that wait for a copy, and the answers that wait for the main process.\<close>

record BackupProgress =
  manifestBp :: BuildManifest
  removeBp :: "string list"
  sizeBp :: u64
  filesBp :: CopyState
  pendingBp :: "JobFile list"
  answeredBp :: "(JobFile \<times> BackupFileResult \<times> string option) list"

definition backupResultFields :: "BackupFileResult \<Rightarrow> string option \<Rightarrow> PackField list" where
  "backupResultFields r json =
     [PackU32 (backupCopyResultCode (backupCopyResult r)), PackU64 (copySize r), PackU64 (repoSizeBf r), strField (copyChecksum r), strField json]"

abbreviation resultReader :: "BackupFileResult \<Rightarrow> string option \<Rightarrow> PackRead" where
  "resultReader r json \<equiv> the (pckReadNewBuf (Some (packBytes (backupResultFields r json))))"

text \<open>
  The local processes copy any of the files at any time, and fail and try again; the database changes its
  files; and the main process handles the answers in any order.
\<close>

inductive backupStep :: "CopyEnv \<Rightarrow> BackupJobData \<Rightarrow> BackupProgress \<Rightarrow> BackupProgress \<Rightarrow> bool" for env jobData where
  database: "backupStep env jobData p (p\<lparr>filesBp := (filesBp p)\<lparr>pgFiles := pg\<rparr>\<rparr>)"
| failed: "f \<in> set (pendingBp p) \<Longrightarrow> manifestPathPg (name_mf f) = Inr (Some pgPath) \<Longrightarrow> sameLibraries env env' \<Longrightarrow>
    backupFile env' (backupParams jobData f (Some pgPath)) (filesBp p) = (Inl e, files') \<Longrightarrow>
    backupStep env jobData p (p\<lparr>filesBp := files'\<rparr>)"
| copied: "f \<in> set (pendingBp p) \<Longrightarrow> manifestPathPg (name_mf f) = Inr (Some pgPath) \<Longrightarrow> sameLibraries env env' \<Longrightarrow>
    backupFile env' (backupParams jobData f (Some pgPath)) (filesBp p) = (Inr r, files') \<Longrightarrow>
    pageResultJson (pageChecksumResultBf r) = Inr json \<Longrightarrow>
    \<forall>s \<in> set_option (copyChecksum r) \<union> set_option json. int (length s) \<le> STRING_SIZE_MAX \<Longrightarrow>
    backupStep env jobData p (p\<lparr>filesBp := files', pendingBp := remove1 f (pendingBp p), answeredBp := answeredBp p @ [(f, r, json)]\<rparr>)"
| handled: "(f, r, json) \<in> set (answeredBp p) \<Longrightarrow> jobKey job = name_mf f \<Longrightarrow> jobCode job = None \<Longrightarrow>
    jobResult job = Some (Some (resultReader r json)) \<Longrightarrow>
    backupJobResult (manifestBp p) (removeBp p) job (sizeBp p) = Inr (m', remove', size') \<Longrightarrow>
    backupStep env jobData p (p\<lparr>manifestBp := m', removeBp := remove', sizeBp := size', answeredBp := remove1 (f, r, json) (answeredBp p)\<rparr>)"

definition backupProgressNew :: "BackupJobData \<Rightarrow> BuildManifest \<Rightarrow> CopyState \<Rightarrow> BackupProgress" where
  "backupProgressNew jobData m files =
     \<lparr>manifestBp = m, removeBp = [], sizeBp = 0, filesBp = files, pendingBp = concat (queueList_bd jobData), answeredBp = []\<rparr>"

end
