(* ===== verification/BackupSet.thy ===== *)
theory BackupSet
  imports BackupRun
begin

text \<open>
  The invariant of the steps of a backup (BackupRun): what an answer of a local process says is true of the
  repository, a copy changes no file but its own, references lead to files of earlier backups, and every file of the
  manifest that is not waiting for a copy or its answer is stored with its checksum and size.
\<close>

section \<open>The answer of the local process\<close>

definition backupAnswer :: "BackupFileResult \<Rightarrow> string option \<Rightarrow> BackupAnswer" where
  "backupAnswer r json = \<lparr>answerCode = backupCopyResultCode (backupCopyResult r), answerSize = copySize r, answerRepoSize = repoSizeBf r,
     answerChecksum = copyChecksum r, answerPages = (case json of None \<Rightarrow> ''null'' | Some s \<Rightarrow> s)\<rparr>"

lemma backupResultWrite_fields: "backupResultWrite r json = writeFields (backupResultFields r json)"
  unfolding backupResultWrite_def backupResultFields_def by (simp only: writeFields.simps writeField.simps writeField_strField bindP_unit)

lemma pckReadStr_default:
  "pckReadStr id0 None s = (Inr x, s') \<Longrightarrow> pckReadStr id0 (Some d) s = (Inr (case x of None \<Rightarrow> Some d | Some y \<Rightarrow> Some y), s')"
  unfolding pckReadStr_def run_bind_Inr by (fastforce simp: run_bind_Inr run_basic split: if_splits)

lemma yields_strDefault:
  "yields (following tm k (strField s # fs) tail st) (pckReadStr 0 (Some d)) (Some (case s of None \<Rightarrow> d | Some y \<Rightarrow> y)) (following tm (Suc k) fs tail st)"
  using yields_strField [of tm k s fs tail st] pckReadStr_default [of 0 _ s _ d] unfolding yields_def
  by (cases s) fastforce+

lemma backupResultRead_fields:
  assumes "\<forall>s \<in> set_option (copyChecksum r) \<union> set_option json. int (length s) \<le> STRING_SIZE_MAX"
  shows "fst (backupResultRead (resultReader r json)) = Inr (backupAnswer r json)"
proof (rule readsFields, rule yields_run)
  show "yields (following pckTypeMapObj 0 (backupResultFields r json) [] []) backupResultRead (backupAnswer r json) (\<lambda>_. True)"
    unfolding backupResultRead_def backupResultFields_def backupAnswer_def
    by (rule yields_bind [OF yields_fields(6)], rule yields_bind [OF yields_fields(7)], rule yields_bind [OF yields_fields(7)],
        rule yields_bind [OF yields_strField], rule yields_bind [OF yields_strDefault]) (auto intro!: yields_post [OF yields_ret] simp: yields_def run_basic)
qed (use assms in \<open>auto simp: backupResultFields_def strField_ok\<close>)

text \<open>The job of a file from end to end: the local process runs backupFile for the file, and the main process reads its result.\<close>

lemma backupFileParamRead_fields:
  assumes "manifestPathPg (name_mf f) = Inr pgPath"
    and "\<forall>s \<in> {name_mf f, backupLabel_bd jobData, checksumSha1 f} \<union> set_option pgPath \<union> set_option (cipherSubPass_bd jobData). int (length s) \<le> STRING_SIZE_MAX"
  shows "fst (backupFileParamRead (the (pckReadNewBuf (Some (packBytes (backupFields jobData f pgPath)))))) = Inr (backupParams jobData f pgPath)"
proof -
  obtain cmd param w where w: "backupJobNew jobData f = Inr cmd" "pack cmd = Some param" "pckWriteEnd param = (Inr (), w)"
      "fst (backupFileParamRead (the (pckReadNewBuf (Some (bufferW w))))) = Inr (backupParams jobData f pgPath)"
    using backupFileParam_packed [OF assms] by blast
  have "param = packOf (backupFields jobData f pgPath)" using w(1,2) backupJobNew_run [OF assms(1), of jobData] by auto
  then have "bufferW w = packBytes (backupFields jobData f pgPath)" using w(3) pckWriteEnd_packOf [of "backupFields jobData f pgPath"] by (metis prod.inject)
  then show ?thesis using w(4) by simp
qed

lemma backup_job_executed:
  assumes "manifestPathPg (name_mf f) = Inr pgPath"
    and "\<forall>s \<in> {name_mf f, backupLabel_bd jobData, checksumSha1 f} \<union> set_option pgPath \<union> set_option (cipherSubPass_bd jobData). int (length s) \<le> STRING_SIZE_MAX"
    and "backupFile env (backupParams jobData f pgPath) files = (Inr r, files')" "pageResultJson (pageChecksumResultBf r) = Inr json"
    and "0 < ioBufferSize env" "map_of handlers PROTOCOL_COMMAND_BACKUP_FILE = Some (backupFileProtocol env)"
    and "length (packBytes (backupFields jobData f pgPath)) < 2 ^ 64" "length (packBytes (backupResultFields r json)) < 2 ^ 64"
  shows "\<exists>cmd. backupJobNew jobData f = Inr cmd \<and>
    protocolExchange (retP ()) message stack (ioBufferSize env) retries handlers logDebug cmd True (idle files) = (Inr (Some (resultReader r json)), idle files')"
proof -
  let ?fs = "backupFields jobData f pgPath"
  have reader: "pckReadNewBuf (Some bytes) = Some (the (pckReadNewBuf (Some bytes)))" for bytes by (simp add: pckReadNewBuf_def)
  have "backupFileProtocol env (pckReadNewBuf (Some (packBytes ?fs))) (snd (idle files)) =
      bindP (modifyP (\<lambda>s. s\<lparr>handlerData := files'\<rparr>)) (\<lambda>_.
      bindP (protocolServerDataPut (ioBufferSize env) (Some (packOf (backupResultFields r json)))) (\<lambda>_.
      protocolServerDataEndPut (ioBufferSize env))) (snd (idle files))"
    by (subst reader) (simp add: backupFileProtocol_def onHandlerData_def backupResultWrite_fields writeFields_packOf run_simps
      backupFileParamRead_fields [OF assms(1,2)] assms(3,4))
  from exchange_run [OF assms(5,6) this assms(7,8)] show ?thesis using backupJobNew_run [OF assms(1)] reader by metis
qed

lemma code_inj: "backupCopyResultCode a = backupCopyResultCode b \<longleftrightarrow> a = b"
  by (cases a; cases b; simp add: backupCopyResultCode_def)

section \<open>A copy changes one file of the repository\<close>

definition onlyRepo :: "CopyState \<Rightarrow> string \<Rightarrow> CopyState \<Rightarrow> bool" where
  "onlyRepo s path s' \<longleftrightarrow> pgFiles s' = pgFiles s \<and> (\<forall>q. q \<noteq> path \<longrightarrow> repoFiles s' q = repoFiles s q)"

lemma keeps_repoPut: "keeps (onlyRepo s path) (repoPut path c)"
  by (auto simp: keeps_def repoPut_def run_basic onlyRepo_def)

lemma keeps_maybeP [keeps_intros]: "keeps P (maybeP e)"
  by (auto simp: maybeP_def intro!: keeps_intros split: option.split)

lemma keeps_tryP: "keeps P m \<Longrightarrow> (\<And>e. keeps P (h e)) \<Longrightarrow> keeps P (tryP m h)"
  unfolding tryP_def by (auto intro!: keeps_intros)

lemma keeps_pgOpen: "keeps P (pgOpen env name ignore limit)"
  unfolding pgOpen_def by (intro keeps_intros) (auto intro!: keeps_intros split: option.split)

lemma keeps_backupCopy: "keeps (onlyRepo s path) (backupCopy env p name path r)"
  unfolding backupCopy_def
  by (intro keeps_intros keeps_pgOpen) (auto intro!: keeps_intros keeps_repoPut split: option.split sum.split)

lemma keeps_backupCheck: "keeps (onlyRepo s path) (backupCheck env p name path r)"
proof -
  have "keeps (onlyRepo s path) (backupDelta env p name c r')" for c r'
    unfolding backupDelta_def by (intro keeps_intros keeps_pgOpen) (auto intro!: keeps_intros split: option.split)
  moreover have "keeps (onlyRepo s path) (backupRepoCheck env p path c r')" for c r'
    unfolding backupRepoCheck_def by (intro keeps_tryP keeps_intros) (auto simp: keeps_def backupRepoRead_state)
  ultimately show ?thesis unfolding backupCheck_def
    by (auto intro!: keeps_intros keeps_repoPut split: option.split)
qed

lemma backupFile_onlyRepo:
  assumes "backupFile env p s = (x, s')" "pgFile_bf p = Some name" "repoFile_bf p = Some repoFile'" "backupLabel_bf p = Some label"
    and "repoPathFileOf env label repoFile' (repoFileCompressType_bf p) = Inr path"
  shows "onlyRepo s path s'"
proof -
  have "keeps (onlyRepo s path) (backupFile env p)"
    unfolding backupFile_def assms(2-4) prod.case option.case
    by (intro keeps_liftP_bind keeps_intros keeps_backupCheck)
      (use assms(5) in \<open>auto intro!: keeps_intros keeps_backupCheck keeps_backupCopy split: option.split\<close>)
  moreover have "onlyRepo s path s" by (simp add: onlyRepo_def)
  ultimately show ?thesis using assms(1) by (metis keepsD snd_conv)
qed

lemma backupFile_noPath:
  assumes "pgFile_bf p = Some name" "repoFile_bf p = Some repoFile'" "backupLabel_bf p = Some label"
    and "repoPathFileOf env label repoFile' (repoFileCompressType_bf p) = Inl e"
  shows "\<exists>e. backupFile env p s = (Inl e, s)"
  unfolding backupFile_def assms prod.case option.case bindP_def liftP_def by (auto split: sum.split)

section \<open>Files that are stored\<close>

definition fileStored :: "CopyEnv \<Rightarrow> string \<Rightarrow> u32 \<Rightarrow> string option \<Rightarrow> CopyState \<Rightarrow> 'a JobFile_scheme \<Rightarrow> bool" where
  "fileStored env label t pass s f \<longleftrightarrow> (\<exists>path bytes data.
     repoPathFileOf env (case reference f of Some r \<Rightarrow> r | None \<Rightarrow> label) (name_mf f) t = Inr path \<and> repoFiles s path = Some bytes \<and>
     decodes env cipherTypeAes256Cbc pass t bytes data \<and> checksumSha1 f = hashSha1 env data \<and> size_mf f = sizeOf64 data)"

abbreviation labelM :: "BuildManifest \<Rightarrow> string" where "labelM m \<equiv> backupLabel_md (dataM m)"
abbreviation compressM :: "BuildManifest \<Rightarrow> u32" where "compressM m \<equiv> compressType_md (dataM m)"

definition manifestStored :: "CopyEnv \<Rightarrow> CopyState \<Rightarrow> BuildManifest \<Rightarrow> bool" where
  "manifestStored env s m \<longleftrightarrow> (\<forall>f \<in> set (filesM m). fileStored env (labelM m) (compressM m) (cipherSubPassM m) s f)"

text \<open>The labels a manifest uses are names of directories, and other ones than the label of the new backup.\<close>

definition usedLabels :: "BuildManifest \<Rightarrow> string set" where
  "usedLabels m = insert (labelM m) (\<Union>f \<in> set (filesM m). set_option (reference f))"

definition otherLabels :: "string \<Rightarrow> BuildManifest \<Rightarrow> bool" where
  "otherLabels label m \<longleftrightarrow> (\<forall>l \<in> usedLabels m. l \<noteq> label \<and> CHR ''/'' \<notin> set l)"

lemma append_slash_inj: "CHR ''/'' \<notin> set a \<Longrightarrow> CHR ''/'' \<notin> set b \<Longrightarrow> a @ CHR ''/'' # x = b @ CHR ''/'' # y \<longleftrightarrow> a = b \<and> x = y"
  by (auto simp: append_eq_append_conv2 append_eq_Cons_conv Cons_eq_append_conv)

lemma repoPathFileOf_inj:
  assumes "repoPathFileOf env a x t = Inr p" "repoPathFileOf env b y t' = Inr p" "CHR ''/'' \<notin> set a" "CHR ''/'' \<notin> set b"
  shows "a = b \<and> (t = t' \<longrightarrow> x = y)"
proof -
  obtain ext ext' where e: "compressExtStr env t = Inr ext" "compressExtStr env t' = Inr ext'"
      "STORAGE_REPO_BACKUP @ ''/'' @ a @ ''/'' @ x @ ext = STORAGE_REPO_BACKUP @ ''/'' @ b @ ''/'' @ y @ ext'"
    using assms(1,2) by (auto simp: repoPathFileOf_def bindE_eq_Inr)
  then have "a @ CHR ''/'' # x @ ext = b @ CHR ''/'' # y @ ext'" by simp
  then have "a = b \<and> x @ ext = y @ ext'" using append_slash_inj [OF assms(3,4)] by blast
  then show ?thesis using e(1,2) by auto
qed

abbreviation homeOf :: "string \<Rightarrow> 'a JobFile_scheme \<Rightarrow> string" where
  "homeOf label f \<equiv> (case reference f of Some r \<Rightarrow> r | None \<Rightarrow> label)"

lemma fileStored_other:
  assumes "fileStored env l t pass s f" "onlyRepo s path s'" "repoPathFileOf env label n t' = Inr path"
    and "CHR ''/'' \<notin> set label" "CHR ''/'' \<notin> set (homeOf l f)" "homeOf l f \<noteq> label \<or> t' = t \<and> name_mf f \<noteq> n"
  shows "fileStored env l t pass s' f"
proof -
  obtain p bytes data where p: "repoPathFileOf env (homeOf l f) (name_mf f) t = Inr p" "repoFiles s p = Some bytes"
      "decodes env cipherTypeAes256Cbc pass t bytes data" "checksumSha1 f = hashSha1 env data" "size_mf f = sizeOf64 data"
    using assms(1) unfolding fileStored_def by blast
  have "p \<noteq> path" using repoPathFileOf_inj [OF p(1) _ assms(5,4), of n t'] assms(3,6) by auto
  then have "repoFiles s' p = Some bytes" using p(2) assms(2) by (simp add: onlyRepo_def)
  then show ?thesis using p unfolding fileStored_def by blast
qed

lemma manifestStored_other:
  assumes "manifestStored env s m" "otherLabels label m" "CHR ''/'' \<notin> set label" "onlyRepo s path s'" "repoPathFileOf env label n t = Inr path"
  shows "manifestStored env s' m"
  unfolding manifestStored_def
proof
  fix f assume f: "f \<in> set (filesM m)"
  have "homeOf (labelM m) f \<noteq> label" "CHR ''/'' \<notin> set (homeOf (labelM m) f)"
    using assms(2) f unfolding otherLabels_def usedLabels_def by (cases "reference f"; force)+
  then show "fileStored env (labelM m) (compressM m) (cipherSubPassM m) s' f"
    using fileStored_other [OF _ assms(4,5,3)] assms(1) f unfolding manifestStored_def by blast
qed

section \<open>Updates of the manifest\<close>

abbreviation names :: "BuildManifest \<Rightarrow> string list" where "names m \<equiv> map name_mf (filesM m)"

lemma fileReplace_names: "(\<And>f. name_mf (g f) = name_mf f) \<Longrightarrow> map name_mf (fileReplace n g fs) = map name_mf fs"
  by (induction fs) auto

lemma fileReplace_set:
  "distinct (map name_mf fs) \<Longrightarrow> set (fileReplace n g fs) = (\<lambda>f. if name_mf f = n then g f else f) ` set fs"
  by (induction fs) (auto simp: image_iff)

lemma image_replace:
  "g \<in> A \<Longrightarrow> (\<And>x. x \<in> A \<Longrightarrow> n x = n g \<Longrightarrow> x = g) \<Longrightarrow> (\<lambda>x. if n x = n g then h x else x) ` A = insert (h g) (A - {g})"
  by (auto simp: image_iff split: if_splits) metis+

lemma manifestFileFindDefault_Some:
  "distinct (names m) \<Longrightarrow> manifestFileFindDefault m n = Some f \<longleftrightarrow> f \<in> set (filesM m) \<and> name_mf f = n"
  by (auto simp: manifestFileFindDefault_def find_Some_iff in_set_conv_nth distinct_conv_nth)

lemma manifestFileUpdate_Inr:
  assumes "manifestFileUpdate m n size0 sizeRepo0 checksum reference0 page pageError errorList = Inr m'" "distinct (names m)"
  obtains g where "set (filesM m') = (\<lambda>f. if name_mf f = n then g f else f) ` set (filesM m)" "names m' = names m"
    "\<And>f. name_mf (g f) = name_mf f" "\<And>f. size_mf (g f) = size0" "\<And>f c. checksum = Some c \<Longrightarrow> checksumSha1 (g f) = c"
    "\<And>f r. reference0 = Some r \<Longrightarrow> reference (g f) = r" "\<And>f. reference0 = None \<Longrightarrow> reference (g f) = reference f"
    "dataM m' = dataM m" "cipherSubPassM m' = cipherSubPassM m" "targetsM m' = targetsM m"
proof -
  let ?g = "\<lambda>f. f\<lparr>reference := (case reference0 of None \<Rightarrow> reference f | Some r \<Rightarrow> r), checksumSha1 := (case checksum of None \<Rightarrow> checksumSha1 f | Some c \<Rightarrow> c),
    size_mf := size0, sizeRepo := sizeRepo0, checksumPage := page, checksumPageError := pageError, checksumPageErrorList := errorList\<rparr>"
  have "filesM m' = fileReplace n ?g (filesM m)" "dataM m' = dataM m" "cipherSubPassM m' = cipherSubPassM m" "targetsM m' = targetsM m"
    using assms(1) unfolding manifestFileUpdate_def bindE_eq_Inr by (auto split: option.splits)
  then show thesis using fileReplace_set [OF assms(2), of n ?g] fileReplace_names [of ?g n "filesM m"] by (intro that [of ?g]) auto
qed

section \<open>References to the prior backup\<close>

text \<open>A file of the new manifest is as it was, or it was found in the prior manifest with the same size.\<close>

definition fromPrior :: "BuildManifest \<Rightarrow> BuildFile \<Rightarrow> bool" where
  "fromPrior prior f \<longleftrightarrow> reference f = None \<or> (\<exists>p \<in> set (filesM prior). name_mf f = name_mf p \<and> size_mf f = size_mf p \<and> checksumSha1 f = checksumSha1 p \<and>
     reference f = Some (homeOf (labelM prior) p))"

lemma incrReference_keeps:
  assumes "incrReference prior delta i m = Inr m'" "distinct (names m)" "\<forall>f \<in> set (filesM m). fromPrior prior f"
  shows "names m' = names m \<and> (\<forall>f \<in> set (filesM m'). fromPrior prior f) \<and> dataM m' = dataM m \<and> cipherSubPassM m' = cipherSubPassM m \<and> targetsM m' = targetsM m"
proof (cases "m' = m")
  case True
  then show ?thesis using assms(3) by simp
next
  case False
  let ?f = "filesM m ! i"
  obtain p where p: "manifestFileFindDefault prior (name_mf ?f) = Some p" "size_mf ?f = size_mf p"
    and u: "manifestFileUpdate m (name_mf ?f) (size_mf ?f) (sizeRepo p) (Some (checksumSha1 p)) (Some (Some (homeOf (labelM prior) p)))
      (checksumPage p) (checksumPageError p) (checksumPageErrorList p) = Inr m'"
    using assms(1) False by (auto simp: incrReference_def Let_def split: option.splits if_splits)
  have in_prior: "p \<in> set (filesM prior)" "name_mf p = name_mf ?f"
    using p(1) by (auto simp: manifestFileFindDefault_def find_Some_iff)
  show ?thesis
  proof (rule manifestFileUpdate_Inr [OF u assms(2)])
    fix g assume g: "set (filesM m') = (\<lambda>f. if name_mf f = name_mf ?f then g f else f) ` set (filesM m)" "names m' = names m"
      "\<And>f. name_mf (g f) = name_mf f" "\<And>f. size_mf (g f) = size_mf ?f" "\<And>f c. Some (checksumSha1 p) = Some c \<Longrightarrow> checksumSha1 (g f) = c"
      "\<And>f r. Some (Some (homeOf (labelM prior) p)) = Some r \<Longrightarrow> reference (g f) = r"
      "dataM m' = dataM m" "cipherSubPassM m' = cipherSubPassM m" "targetsM m' = targetsM m"
    have "fromPrior prior (g f)" if "name_mf f = name_mf ?f" for f
      using in_prior p(2) g(3-6) that unfolding fromPrior_def by (intro disjI2 bexI [of _ p]) auto
    then show ?thesis using g(1,2,7-9) assms(3) by auto
  qed
qed

lemma incrReferences_keeps:
  assumes "incrReferences prior delta is m = Inr m'" "distinct (names m)" "\<forall>f \<in> set (filesM m). fromPrior prior f"
  shows "names m' = names m \<and> (\<forall>f \<in> set (filesM m'). fromPrior prior f) \<and> dataM m' = dataM m \<and> cipherSubPassM m' = cipherSubPassM m \<and> targetsM m' = targetsM m"
  using assms
proof (induction "is" arbitrary: m)
  case (Cons i "is")
  obtain m1 where m1: "incrReference prior delta i m = Inr m1" "incrReferences prior delta is m1 = Inr m'" using Cons.prems(1) by (auto simp: bindE_eq_Inr)
  note k = incrReference_keeps [OF m1(1) Cons.prems(2,3)]
  show ?case using Cons.IH [OF m1(2)] k Cons.prems(2) by simp
qed simp

lemma manifestBuildIncr_keeps:
  assumes "manifestBuildIncr m prior type0 start = Inr m'" "distinct (names m)" "\<forall>f \<in> set (filesM m). reference f = None"
  shows "names m' = names m" "\<forall>f \<in> set (filesM m'). fromPrior prior f" "compressM m' = compressM m" "backupType_md (dataM m') \<noteq> backupTypeFull" "backupLabelPrior (dataM m') = Some (labelM prior)"
proof -
  obtain m1 delta where m1: "incrReferences prior delta [0..<length (filesM m)] m1 = Inr m'" "filesM m1 = filesM m"
      "compressM m1 = compressM m" "backupType_md (dataM m1) \<noteq> backupTypeFull" "backupLabelPrior (dataM m1) = Some (labelM prior)"
    using assms(1) unfolding manifestBuildIncr_def bindE_eq_Inr Let_def by fastforce
  have "\<forall>f \<in> set (filesM m1). fromPrior prior f" using assms(3) m1(2) by (simp add: fromPrior_def)
  from incrReferences_keeps [OF m1(1) _ this] show "names m' = names m" "\<forall>f \<in> set (filesM m'). fromPrior prior f" "compressM m' = compressM m" "backupType_md (dataM m') \<noteq> backupTypeFull"
      "backupLabelPrior (dataM m') = Some (labelM prior)"
    using m1(2-5) assms(2) by auto
qed

lemma fromPrior_stored:
  assumes "fromPrior prior f" "reference f \<noteq> None" "manifestStored env s prior" "t = compressM prior" "pass = cipherSubPassM prior"
  shows "fileStored env label t pass s f"
  using assms by (fastforce simp: fromPrior_def manifestStored_def fileStored_def)

section \<open>What holds while the files are copied\<close>

text \<open>The files of which a copy or its answer is open.\<close>

abbreviation openFiles :: "BackupProgress \<Rightarrow> JobFile list" where
  "openFiles p \<equiv> pendingBp p @ map fst (answeredBp p)"

text \<open>An answer describes what is in the repository.\<close>

definition answerTrue :: "CopyEnv \<Rightarrow> BuildManifest \<Rightarrow> CopyState \<Rightarrow> JobFile \<Rightarrow> BackupFileResult \<Rightarrow> bool" where
  "answerTrue env m s f r \<longleftrightarrow> (case backupCopyResult r of
     backupCopyResultSkip \<Rightarrow> name_mf f \<noteq> pgControlName
   | backupCopyResultNoOp \<Rightarrow> reference f \<noteq> None
   | backupCopyResultChecksum \<Rightarrow> reference f = None \<longrightarrow> fileStored env (labelM m) (compressM m) (cipherSubPassM m) s f
   | _ \<Rightarrow> (\<exists>checksum. copyChecksum r = Some checksum \<and>
       fileStored env (labelM m) (compressM m) (cipherSubPassM m) s (f\<lparr>reference := None, checksumSha1 := checksum, size_mf := copySize r\<rparr>)))"

definition inProgress :: "CopyEnv \<Rightarrow> BuildManifest list \<Rightarrow> BuildManifest \<Rightarrow> BackupProgress \<Rightarrow> bool" where
  "inProgress env older m p \<longleftrightarrow>
     names (manifestBp p) = names m \<and> distinct (names m) \<and> dataM (manifestBp p) = dataM m \<and> cipherSubPassM (manifestBp p) = cipherSubPassM m \<and>
     distinct (map name_mf (openFiles p)) \<and> (\<forall>f \<in> set (openFiles p). f \<in> JobFile.truncate ` set (filesM (manifestBp p))) \<and>
     distinct (removeBp p) \<and> set (removeBp p) \<subseteq> set (names m) - insert pgControlName (name_mf ` set (openFiles p)) \<and>
     (\<forall>f \<in> set (filesM (manifestBp p)). (\<forall>l \<in> set_option (reference f). l \<noteq> labelM m \<and> CHR ''/'' \<notin> set l) \<and>
       (reference f \<noteq> None \<or> name_mf f \<notin> name_mf ` set (openFiles p) \<union> set (removeBp p) \<longrightarrow>
         fileStored env (labelM m) (compressM m) (cipherSubPassM m) (filesBp p) f)) \<and>
     (\<forall>(f, r, json) \<in> set (answeredBp p). answerTrue env m (filesBp p) f r \<and>
       (\<forall>s \<in> set_option (copyChecksum r) \<union> set_option json. int (length s) \<le> STRING_SIZE_MAX)) \<and>
     (\<forall>q \<in> set older. manifestStored env (filesBp p) q)"

abbreviation jobFor :: "BuildManifest \<Rightarrow> BackupJobData \<Rightarrow> bool" where
  "jobFor m jobData \<equiv> backupLabel_bd jobData = labelM m \<and> compressType_bd jobData = compressM m \<and> cipherSubPass_bd jobData = cipherSubPassM m"

abbreviation onlyLabel :: "BuildManifest list \<Rightarrow> BuildManifest \<Rightarrow> bool" where
  "onlyLabel older m \<equiv> CHR ''/'' \<notin> set (labelM m) \<and> (\<forall>q \<in> set older. otherLabels (labelM m) q)"

lemma fileStored_truncate [simp]: "fileStored env l t pass s (JobFile.truncate f) = fileStored env l t pass s f"
  by (simp add: fileStored_def JobFile.truncate_def)

lemma truncate_sels [simp]:
  "name_mf (JobFile.truncate f) = name_mf f" "reference (JobFile.truncate f) = reference f" "size_mf (JobFile.truncate f) = size_mf f"
  "checksumSha1 (JobFile.truncate f) = checksumSha1 f"
  by (simp_all add: JobFile.truncate_def)

lemma answerTrue_other:
  assumes "answerTrue env m s g r" "onlyRepo s path s'" "repoPathFileOf env (labelM m) n (compressM m) = Inr path"
    and "CHR ''/'' \<notin> set (labelM m)" "name_mf g \<noteq> n"
  shows "answerTrue env m s' g r"
  using assms fileStored_other [OF _ assms(2,3,4)] unfolding answerTrue_def by (fastforce split: BackupCopyResult.splits)

lemma inProgressD:
  assumes "inProgress env older m p"
  shows "names (manifestBp p) = names m" "distinct (names m)" "dataM (manifestBp p) = dataM m" "cipherSubPassM (manifestBp p) = cipherSubPassM m"
    "distinct (map name_mf (openFiles p))" "distinct (removeBp p)" "set (removeBp p) \<subseteq> set (names m) - insert pgControlName (name_mf ` set (openFiles p))"
    "\<And>f. f \<in> set (openFiles p) \<Longrightarrow> f \<in> JobFile.truncate ` set (filesM (manifestBp p))"
    "\<And>f l. f \<in> set (filesM (manifestBp p)) \<Longrightarrow> reference f = Some l \<Longrightarrow> l \<noteq> labelM m \<and> CHR ''/'' \<notin> set l"
    "\<And>f. f \<in> set (filesM (manifestBp p)) \<Longrightarrow> reference f \<noteq> None \<or> name_mf f \<notin> name_mf ` set (openFiles p) \<union> set (removeBp p) \<Longrightarrow>
      fileStored env (labelM m) (compressM m) (cipherSubPassM m) (filesBp p) f"
    "\<And>f r json. (f, r, json) \<in> set (answeredBp p) \<Longrightarrow> answerTrue env m (filesBp p) f r"
    "\<And>f r json. (f, r, json) \<in> set (answeredBp p) \<Longrightarrow> \<forall>s \<in> set_option (copyChecksum r) \<union> set_option json. int (length s) \<le> STRING_SIZE_MAX"
    "\<And>q. q \<in> set older \<Longrightarrow> manifestStored env (filesBp p) q"
proof -
  note inv = assms [unfolded inProgress_def]
  show "names (manifestBp p) = names m" "distinct (names m)" "dataM (manifestBp p) = dataM m" "cipherSubPassM (manifestBp p) = cipherSubPassM m"
    "distinct (map name_mf (openFiles p))" "distinct (removeBp p)" "set (removeBp p) \<subseteq> set (names m) - insert pgControlName (name_mf ` set (openFiles p))"
    using inv by blast+
qed (use assms [unfolded inProgress_def] in \<open>blast, fastforce, blast, blast, blast, blast\<close>)

lemma inProgressI:
  assumes "names (manifestBp p) = names m" "distinct (names m)" "dataM (manifestBp p) = dataM m" "cipherSubPassM (manifestBp p) = cipherSubPassM m"
    "distinct (map name_mf (openFiles p))" "distinct (removeBp p)" "set (removeBp p) \<subseteq> set (names m) - insert pgControlName (name_mf ` set (openFiles p))"
    "\<And>f. f \<in> set (openFiles p) \<Longrightarrow> f \<in> JobFile.truncate ` set (filesM (manifestBp p))"
    "\<And>f l. f \<in> set (filesM (manifestBp p)) \<Longrightarrow> reference f = Some l \<Longrightarrow> l \<noteq> labelM m \<and> CHR ''/'' \<notin> set l"
    "\<And>f. f \<in> set (filesM (manifestBp p)) \<Longrightarrow> reference f \<noteq> None \<or> name_mf f \<notin> name_mf ` set (openFiles p) \<union> set (removeBp p) \<Longrightarrow>
      fileStored env (labelM m) (compressM m) (cipherSubPassM m) (filesBp p) f"
    "\<And>f r json. (f, r, json) \<in> set (answeredBp p) \<Longrightarrow> answerTrue env m (filesBp p) f r"
    "\<And>f r json. (f, r, json) \<in> set (answeredBp p) \<Longrightarrow> \<forall>s \<in> set_option (copyChecksum r) \<union> set_option json. int (length s) \<le> STRING_SIZE_MAX"
    "\<And>q. q \<in> set older \<Longrightarrow> manifestStored env (filesBp p) q"
  shows "inProgress env older m p"
  unfolding inProgress_def using assms(8-13) by (intro conjI assms(1-7)) (blast, force, fast, blast)

lemma inProgress_files:
  assumes "inProgress env older m p" "onlyLabel older m" "f \<in> set (pendingBp p)"
    and "onlyRepo (filesBp p) path s'" "repoPathFileOf env (labelM m) (name_mf f) (compressM m) = Inr path"
  shows "inProgress env older m (p\<lparr>filesBp := s'\<rparr>)"
proof -
  note inv = inProgressD [OF assms(1)] and label = conjunct1 [OF assms(2)]
  have "fileStored env (labelM m) (compressM m) (cipherSubPassM m) s' g"
    if g: "g \<in> set (filesM (manifestBp p))" "reference g \<noteq> None \<or> name_mf g \<notin> name_mf ` set (openFiles p) \<union> set (removeBp p)" for g
  proof (rule fileStored_other [OF inv(10) [OF g] assms(4,5) label])
    show "CHR ''/'' \<notin> set (homeOf (labelM m) g)" using inv(9) [OF g(1)] label by (cases "reference g") auto
    show "homeOf (labelM m) g \<noteq> labelM m \<or> compressM m = compressM m \<and> name_mf g \<noteq> name_mf f"
      using inv(9) [OF g(1)] g(2) assms(3) by (cases "reference g") auto
  qed
  moreover have "answerTrue env m s' g r" if a: "(g, r, json) \<in> set (answeredBp p)" for g r json
  proof (rule answerTrue_other [OF inv(11) [OF a] assms(4,5) label])
    show "name_mf g \<noteq> name_mf f" using inv(5) a assms(3) by force
  qed
  moreover have "manifestStored env s' q" if "q \<in> set older" for q
    using inv(13) [OF that] that assms(2) manifestStored_other [OF _ _ label assms(4,5)] by blast
  ultimately show ?thesis using inv by (intro inProgressI) simp_all
qed

lemma answer_new:
  assumes "librariesOk env" "sameLibraries env env'" "backupFile env' (backupParams jobData f (Some pgPath)) s = (Inr r, s')" "jobFor m jobData"
  obtains path where "repoPathFileOf env (labelM m) (name_mf f) (compressM m) = Inr path" "onlyRepo s path s'" "answerTrue env m s' f r"
proof -
  let ?p = "backupParams jobData f (Some pgPath)"
  have p: "pgFile_bf ?p = Some pgPath" "repoFile_bf ?p = Some (name_mf f)" "backupLabel_bf ?p = Some (labelM m)" "repoFileCompressType_bf ?p = compressM m"
    "cipherPass_bf ?p = cipherSubPassM m" "cipherType ?p = (if cipherSubPassM m = None then cipherTypeNone else cipherTypeAes256Cbc)"
    "pgFileIgnoreMissing ?p = (name_mf f \<noteq> pgControlName)" "repoFileHasReference ?p = (reference f \<noteq> None)" "pgFileSize_bf ?p = size_mf f"
    "pgFileChecksum_bf ?p = (if checksumSha1 f \<noteq> [] then Some (checksumSha1 f) else None)"
    using assms(4) by (simp_all add: backupParams_def)
  note eqs = sameLibraries_eqs [OF assms(2)]
  have ok: "librariesOk env'" using assms(1,2) by (simp add: librariesOk_def sameLibraries_def)
  obtain path where path: "repoPathFileOf env' (labelM m) (name_mf f) (compressM m) = Inr path"
    using backupFile_noPath [OF p(1-3), of env' _ s] assms(3) p(4) by (cases "repoPathFileOf env' (labelM m) (name_mf f) (compressM m)") auto
  note out = backupFile_outcome [OF ok assms(3) p(1-3), unfolded p(4), OF path]
  have stored: "fileStored env (labelM m) (compressM m) (cipherSubPassM m) s' g"
    if "stored env' ?p path s' data" "name_mf g = name_mf f" "reference g = None" "checksumSha1 g = hashSha1 env' data" "size_mf g = sizeOf64 data" for g :: JobFile and data
    using that path p(4-6) decodes_cipher [of env' _ _ _ _ _ cipherTypeAes256Cbc] unfolding fileStored_def stored_def eqs by fastforce
  have "answerTrue env m s' f r"
    using out stored p(7-10) unfolding answerTrue_def by (auto split: BackupCopyResult.splits if_splits)
  moreover have "onlyRepo s path s'" using out by (simp add: onlyRepo_def)
  ultimately show thesis using that path eqs by simp
qed

lemma backupJobResult_cases:
  assumes "backupJobResult m remove job size0 = Inr (m', remove', size')" "jobKey job = name_mf g" "jobCode job = None"
    and "jobResult job = Some (Some (resultReader r json))" "\<forall>s \<in> set_option (copyChecksum r) \<union> set_option json. int (length s) \<le> STRING_SIZE_MAX"
    and "manifestFileFindDefault m (name_mf g) = Some g"
  shows "case backupCopyResult r of
     backupCopyResultSkip \<Rightarrow> m' = m \<and> remove' = remove @ [name_mf g]
   | backupCopyResultNoOp \<Rightarrow> m' = m \<and> remove' = remove
   | backupCopyResultChecksum \<Rightarrow> m' = m \<and> remove' = remove
   | _ \<Rightarrow> remove' = remove \<and> (\<exists>pageError errorList.
       manifestFileUpdate m (name_mf g) (copySize r) (repoSizeBf r) (copyChecksum r) (Some None) (checksumPage g) pageError errorList = Inr m')"
  using assms(1) unfolding backupJobResult_def assms(2-4,6) option.case backupResultRead_fields [OF assms(5)]
  by (auto simp: backupAnswer_def code_inj bindE_eq_Inr split: BackupCopyResult.split if_splits)

lemma open_file:
  assumes "inProgress env older m p" "f \<in> set (openFiles p)"
  obtains g where "g \<in> set (filesM (manifestBp p))" "f = JobFile.truncate g" "name_mf g = name_mf f" "reference g = reference f"
    "manifestFileFindDefault (manifestBp p) (name_mf g) = Some g" "\<And>h. h \<in> set (filesM (manifestBp p)) \<Longrightarrow> name_mf h = name_mf f \<Longrightarrow> h = g"
proof -
  note inv = inProgressD [OF assms(1)]
  obtain g where g: "g \<in> set (filesM (manifestBp p))" "f = JobFile.truncate g" using inv(8) [OF assms(2)] by blast
  have d: "distinct (names (manifestBp p))" using inv(1,2) by simp
  have "h = g" if "h \<in> set (filesM (manifestBp p))" "name_mf h = name_mf f" for h
    using d g that by (auto simp: distinct_map inj_on_def)
  moreover have "manifestFileFindDefault (manifestBp p) (name_mf g) = Some g" using manifestFileFindDefault_Some [OF d] g(1) by blast
  ultimately show thesis using that g by (metis truncate_sels(1,2))
qed

lemma inProgress_copied:
  assumes "inProgress env older m p" "onlyLabel older m" "librariesOk env" "jobFor m jobData"
    and "f \<in> set (pendingBp p)" "sameLibraries env env'" "backupFile env' (backupParams jobData f (Some pgPath)) (filesBp p) = (Inr r, files')"
    and "\<forall>s \<in> set_option (copyChecksum r) \<union> set_option json. int (length s) \<le> STRING_SIZE_MAX"
  shows "inProgress env older m (p\<lparr>filesBp := files', pendingBp := remove1 f (pendingBp p), answeredBp := answeredBp p @ [(f, r, json)]\<rparr>)"
proof -
  obtain path where path: "repoPathFileOf env (labelM m) (name_mf f) (compressM m) = Inr path" "onlyRepo (filesBp p) path files'" "answerTrue env m files' f r"
    using answer_new [OF assms(3,6,7,4)] .
  note inv = inProgressD [OF inProgress_files [OF assms(1,2,5) path(2,1)], simplified]
  let ?p = "p\<lparr>filesBp := files', pendingBp := remove1 f (pendingBp p), answeredBp := answeredBp p @ [(f, r, json)]\<rparr>"
  have m: "mset (openFiles ?p) = mset (openFiles p)" using assms(5) by simp
  then have s: "set (openFiles ?p) = set (openFiles p)" by (rule mset_eq_setD)
  have "mset (map name_mf (openFiles ?p)) = mset (map name_mf (openFiles p))" unfolding mset_map m ..
  then have d: "distinct (map name_mf (openFiles ?p))" using inProgressD(5) [OF assms(1)] mset_eq_imp_distinct_iff by blast
  show ?thesis
  proof (rule inProgressI)
    show "distinct (map name_mf (openFiles ?p))" by (rule d)
    show "set (removeBp ?p) \<subseteq> set (names m) - insert pgControlName (name_mf ` set (openFiles ?p))" unfolding s using inv(7) by simp
    show "g \<in> JobFile.truncate ` set (filesM (manifestBp ?p))" if "g \<in> set (openFiles ?p)" for g using that inv(8) unfolding s by simp
    show "fileStored env (labelM m) (compressM m) (cipherSubPassM m) (filesBp ?p) g"
      if "g \<in> set (filesM (manifestBp ?p))" "reference g \<noteq> None \<or> name_mf g \<notin> name_mf ` set (openFiles ?p) \<union> set (removeBp ?p)" for g
      using that inv(10) unfolding s by simp
    show "answerTrue env m (filesBp ?p) g r'" "\<forall>s \<in> set_option (copyChecksum r') \<union> set_option json'. int (length s) \<le> STRING_SIZE_MAX"
      if "(g, r', json') \<in> set (answeredBp ?p)" for g r' json'
      using that inv(11,12) path(3) assms(8) by auto
  qed (use inv(1-4,6,9,13) in simp_all)
qed

text \<open>A result replaces the file in the manifest by one that is stored, or lists it for removal.\<close>

lemma handled_effect:
  assumes "inProgress env older m p" "(f, r, json) \<in> set (answeredBp p)" "jobKey job = name_mf f" "jobCode job = None"
    and "jobResult job = Some (Some (resultReader r json))"
    and "backupJobResult (manifestBp p) (removeBp p) job (sizeBp p) = Inr (m', remove', size')"
  obtains g h where "g \<in> set (filesM (manifestBp p))" "name_mf g = name_mf f" "set (filesM m') = insert h (set (filesM (manifestBp p)) - {g})" "name_mf h = name_mf f"
    "names m' = names m" "dataM m' = dataM m" "cipherSubPassM m' = cipherSubPassM m" "h = g \<or> reference h = None"
    "name_mf f \<in> set remove' \<or> fileStored env (labelM m) (compressM m) (cipherSubPassM m) (filesBp p) h"
    "remove' = removeBp p \<or> remove' = removeBp p @ [name_mf f] \<and> name_mf f \<noteq> pgControlName"
proof -
  have "f \<in> set (openFiles p)" using assms(2) by force
  from open_file [OF assms(1) this] obtain g where g: "g \<in> set (filesM (manifestBp p))" "f = JobFile.truncate g" "name_mf g = name_mf f" "reference g = reference f"
    "manifestFileFindDefault (manifestBp p) (name_mf g) = Some g" "\<And>h. h \<in> set (filesM (manifestBp p)) \<Longrightarrow> name_mf h = name_mf f \<Longrightarrow> h = g" by blast
  note inv = inProgressD [OF assms(1)] and true = inProgressD(11) [OF assms(1,2)]
  note c = backupJobResult_cases [OF assms(6) trans [OF assms(3) g(3) [symmetric]] assms(4,5) inv(12) [OF assms(2)] g(5)]
  have same: "set (filesM (manifestBp p)) = insert g (set (filesM (manifestBp p)) - {g})" using g(1) by blast
  have stored: "fileStored env (labelM m) (compressM m) (cipherSubPassM m) (filesBp p) g" if "reference g \<noteq> None" using inv(10) [OF g(1)] that by blast
  consider "backupCopyResult r \<in> {backupCopyResultNoOp, backupCopyResultChecksum}" | "backupCopyResult r = backupCopyResultSkip"
    | "backupCopyResult r \<in> {backupCopyResultCopy, backupCopyResultReCopy}" by (cases "backupCopyResult r") auto
  then show thesis
  proof cases
    case 1
    then have "m' = manifestBp p" "remove' = removeBp p" using c by auto
    moreover have "fileStored env (labelM m) (compressM m) (cipherSubPassM m) (filesBp p) g"
      using true stored 1 unfolding answerTrue_def g(2) by (cases "reference g") auto
    ultimately show thesis using that [OF g(1,3), of g] same inv(1,3,4) g(3) by metis
  next
    case 2
    then show thesis using c true that [OF g(1,3), of g] same inv(1,3,4) g(3) by (simp add: answerTrue_def)
  next
    case 3
    obtain checksum where checksum: "copyChecksum r = Some checksum"
        "fileStored env (labelM m) (compressM m) (cipherSubPassM m) (filesBp p) (f\<lparr>reference := None, checksumSha1 := checksum, size_mf := copySize r\<rparr>)"
      using true 3 unfolding answerTrue_def by auto
    obtain pageError errorList where u: "manifestFileUpdate (manifestBp p) (name_mf g) (copySize r) (repoSizeBf r) (copyChecksum r) (Some None) (checksumPage g) pageError errorList = Inr m'"
      and rm: "remove' = removeBp p" using c 3 by auto
    have "distinct (names (manifestBp p))" using inv(1,2) by simp
    then show thesis
    proof (rule manifestFileUpdate_Inr [OF u])
      fix h assume h: "set (filesM m') = (\<lambda>f. if name_mf f = name_mf g then h f else f) ` set (filesM (manifestBp p))" "names m' = names (manifestBp p)"
        "\<And>f. name_mf (h f) = name_mf f" "\<And>f. size_mf (h f) = copySize r" "\<And>f c. copyChecksum r = Some c \<Longrightarrow> checksumSha1 (h f) = c"
        "\<And>f r. Some None = Some r \<Longrightarrow> reference (h f) = r"
        "dataM m' = dataM (manifestBp p)" "cipherSubPassM m' = cipherSubPassM (manifestBp p)"
      have "set (filesM m') = insert (h g) (set (filesM (manifestBp p)) - {g})"
        unfolding h(1) by (rule image_replace [OF g(1)]) (use g(3,6) in metis)
      moreover have "fileStored env (labelM m) (compressM m) (cipherSubPassM m) (filesBp p) (h g)"
        using checksum h(3-6) g(3) by (simp add: fileStored_def)
      ultimately show thesis using that [OF g(1,3), of "h g"] h inv(1,3,4) g(3) rm by simp
    qed
  qed
qed

lemma subset_extend: "A' \<subseteq> insert x A \<Longrightarrow> x \<in> A' \<longrightarrow> x \<noteq> c \<Longrightarrow> A \<subseteq> N - insert c (insert x B) \<Longrightarrow> x \<in> N \<Longrightarrow> x \<notin> B \<Longrightarrow> A' \<subseteq> N - insert c B"
  by blast

lemma inProgress_handled:
  assumes "inProgress env older m p" "(f, r, json) \<in> set (answeredBp p)" "jobKey job = name_mf f" "jobCode job = None"
    and "jobResult job = Some (Some (resultReader r json))"
    and "backupJobResult (manifestBp p) (removeBp p) job (sizeBp p) = Inr (m', remove', size')"
  shows "inProgress env older m (p\<lparr>manifestBp := m', removeBp := remove', sizeBp := size', answeredBp := remove1 (f, r, json) (answeredBp p)\<rparr>)"
proof -
  let ?p = "p\<lparr>manifestBp := m', removeBp := remove', sizeBp := size', answeredBp := remove1 (f, r, json) (answeredBp p)\<rparr>"
  from handled_effect [OF assms] obtain g h where e: "g \<in> set (filesM (manifestBp p))" "name_mf g = name_mf f"
    "set (filesM m') = insert h (set (filesM (manifestBp p)) - {g})" "name_mf h = name_mf f"
    "names m' = names m" "dataM m' = dataM m" "cipherSubPassM m' = cipherSubPassM m" "h = g \<or> reference h = None"
    "name_mf f \<in> set remove' \<or> fileStored env (labelM m) (compressM m) (cipherSubPassM m) (filesBp p) h"
    "remove' = removeBp p \<or> remove' = removeBp p @ [name_mf f] \<and> name_mf f \<noteq> pgControlName" .
  note inv = inProgressD [OF assms(1)]
  have m: "mset (openFiles p) = add_mset f (mset (openFiles ?p))" using arg_cong [OF insert_DiffM, of "(f, r, json)" "mset (answeredBp p)" "image_mset fst"] assms(2)
    by (simp del: insert_DiffM add: image_mset_Diff)
  have "mset (map name_mf (openFiles p)) = add_mset (name_mf f) (mset (map name_mf (openFiles ?p)))" unfolding mset_map m by simp
  then have "mset (map name_mf (openFiles p)) = mset (name_mf f # map name_mf (openFiles ?p))" by simp
  then have "distinct (name_mf f # map name_mf (openFiles ?p))" using inv(5) mset_eq_imp_distinct_iff by blast
  then have d: "distinct (map name_mf (openFiles ?p))" "name_mf f \<notin> name_mf ` set (openFiles ?p)" by auto
  have "set_mset (mset (openFiles p)) = insert f (set_mset (mset (openFiles ?p)))" unfolding m by simp
  then have s: "set (openFiles p) = insert f (set (openFiles ?p))" by (simp only: set_mset_mset)
  have other: "x \<in> set (filesM (manifestBp p)) \<and> name_mf x \<noteq> name_mf f" if "x \<in> set (filesM m')" "x \<noteq> h" for x
    using that e(1-3) inv(2) [folded inv(1)] by (auto simp: distinct_map inj_on_def)
  have "f \<in> set (openFiles p)" using s by blast
  then have fresh: "name_mf f \<notin> set (removeBp p)" "name_mf f \<in> set (names m)"
    using inv(7) e(1,2) image_eqI [of "name_mf f" name_mf g] unfolding inv(1) [symmetric] by auto
  have rm: "set remove' \<subseteq> insert (name_mf f) (set (removeBp p))" "name_mf f \<in> set remove' \<longrightarrow> name_mf f \<noteq> pgControlName" using e(10) fresh(1) by auto
  show ?thesis
  proof (rule inProgressI)
    show "distinct (map name_mf (openFiles ?p))" by (rule d)
    show "distinct (removeBp ?p)" using inv(6) e(10) fresh by auto
    show "set (removeBp ?p) \<subseteq> set (names m) - insert pgControlName (name_mf ` set (openFiles ?p))"
      using subset_extend [OF rm inv(7) [unfolded s image_insert] fresh(2) d(2)] by simp
    show "x \<in> JobFile.truncate ` set (filesM (manifestBp ?p))" if x: "x \<in> set (openFiles ?p)" for x
    proof -
      obtain y where "y \<in> set (filesM (manifestBp p))" "x = JobFile.truncate y" using inv(8) [of x] x unfolding s by blast
      moreover have "name_mf x \<noteq> name_mf f" using d(2) image_eqI [OF refl x, of name_mf] by metis
      ultimately show ?thesis using e(2,3) by auto
    qed
    show "l \<noteq> labelM m \<and> CHR ''/'' \<notin> set l" if "x \<in> set (filesM (manifestBp ?p))" "reference x = Some l" for x l
      using that other [of x] e(1,8) inv(9) by (cases "x = h") auto
    show "fileStored env (labelM m) (compressM m) (cipherSubPassM m) (filesBp ?p) x"
      if x: "x \<in> set (filesM (manifestBp ?p))" "reference x \<noteq> None \<or> name_mf x \<notin> name_mf ` set (openFiles ?p) \<union> set (removeBp ?p)" for x
    proof (cases "x = h")
      case True
      show ?thesis
      proof (cases "reference x = None")
        case False
        then have "h = g" "reference g \<noteq> None" using True e(8) by auto
        then show ?thesis using True inv(10) [OF e(1)] by simp
      qed (use True x(2) e(4,9) in simp)
    next
      case False
      then have o: "x \<in> set (filesM (manifestBp p))" "name_mf x \<noteq> name_mf f" using other x(1) by auto
      have "reference x \<noteq> None \<or> name_mf x \<notin> name_mf ` set (openFiles p) \<union> set (removeBp p)" using x(2) o(2) e(10) unfolding s by auto
      then show ?thesis using inv(10) [OF o(1)] by simp
    qed
    show "answerTrue env m (filesBp ?p) x r'" "\<forall>s \<in> set_option (copyChecksum r') \<union> set_option json'. int (length s) \<le> STRING_SIZE_MAX"
      if "(x, r', json') \<in> set (answeredBp ?p)" for x r' json'
      using that inv(11,12) by (auto dest: notin_set_remove1 set_remove1_subset [THEN subsetD])
  qed (use inv(2,13) e(5-7) in simp_all)
qed

lemma pg_irrelevant:
  "fileStored env l t pass (s\<lparr>pgFiles := pg\<rparr>) f = fileStored env l t pass s f"
  "answerTrue env m (s\<lparr>pgFiles := pg\<rparr>) g r = answerTrue env m s g r" "manifestStored env (s\<lparr>pgFiles := pg\<rparr>) m = manifestStored env s m"
  by (simp_all add: fileStored_def answerTrue_def manifestStored_def split: BackupCopyResult.split)

lemma inProgress_step:
  assumes "backupStep env jobData p p'" "inProgress env older m p" "onlyLabel older m" "librariesOk env" "jobFor m jobData"
  shows "inProgress env older m p'"
  using assms(1)
proof cases
  case (database pg)
  show ?thesis using inProgressD [OF assms(2)] unfolding database by (intro inProgressI) (simp_all add: pg_irrelevant)
next
  case (failed f pgPath env' e files')
  let ?p = "backupParams jobData f (Some pgPath)"
  have q: "pgFile_bf ?p = Some pgPath" "repoFile_bf ?p = Some (name_mf f)" "backupLabel_bf ?p = Some (labelM m)" "repoFileCompressType_bf ?p = compressM m"
    using assms(5) by (simp_all add: backupParams_def)
  note eqs = sameLibraries_eqs [OF failed(4)]
  show ?thesis
  proof (cases "repoPathFileOf env' (labelM m) (name_mf f) (compressM m)")
    case (Inl e')
    then have "files' = filesBp p" using backupFile_noPath [OF q(1-3), of env' e' "filesBp p"] failed(5) q(4) by auto
    then show ?thesis using assms(2) failed(1) by simp
  next
    case (Inr path)
    then show ?thesis
      using inProgress_files [OF assms(2,3) failed(2), of path files'] backupFile_onlyRepo [OF failed(5) q(1-3), of path] failed(1) q(4) eqs by simp
  qed
next
  case (copied f pgPath env' r files' json)
  show ?thesis unfolding copied(1) by (rule inProgress_copied [OF assms(2,3,4,5) copied(2,4,5,7)])
next
  case (handled f r json job m' remove' size')
  show ?thesis unfolding handled(1) by (rule inProgress_handled [OF assms(2) handled(2-6)])
qed

lemma inProgress_steps:
  assumes "(backupStep env jobData)\<^sup>*\<^sup>* p p'" "inProgress env older m p" "onlyLabel older m" "librariesOk env" "jobFor m jobData"
  shows "inProgress env older m p'"
  using assms(1,2) by induction (use inProgress_step assms(3-5) in blast)+

section \<open>The queues\<close>

definition queued :: "bool \<Rightarrow> JobFile \<Rightarrow> bool" where
  "queued delta f \<longleftrightarrow> \<not> (reference f \<noteq> None \<and> (\<not> delta \<or> size_mf f = 0))"

lemma backupQueueFill_all:
  "backupQueueFill standby delta targets fs st = Inr st' \<Longrightarrow> length (queues_bq st) = length targets + (if standby then 1 else 0) \<Longrightarrow>
     mset (concat (queues_bq st')) = mset (concat (queues_bq st)) + mset (filter (queued delta) fs)"
proof (induction fs arbitrary: st)
  case (Cons f fs)
  show ?case
  proof (cases "queued delta f")
    case False
    then show ?thesis using Cons by (simp add: queued_def split: if_splits)
  next
    case True
    let ?st = "\<lambda>i. \<lparr>backupSize = backupSize st + size_mf f, fileTotal = fileTotal st + 1,
      pgControlFound = (pgControlFound st \<or> name_mf f = pgControlName), queues_bq = queueAdd (queues_bq st) i f\<rparr>"
    obtain i where i: "(if standby \<and> primary f then Inr 0 else mapE (\<lambda>targetIdx. targetIdx + (if standby then 1 else 0)) (targetScan (name_mf f) targets 0)) = Inr i"
        "backupQueueFill standby delta targets fs (?st i) = Inr st'"
      using Cons.prems(1) True by (auto simp: queued_def bindE_eq_Inr split: if_splits)
    have "i < length (queues_bq st)" using i(1) targetScan_bound [of "name_mf f" targets 0] Cons.prems(2) by (auto split: if_splits)
    note add = mset_queueAdd [OF this, of f]
    from Cons.IH [OF i(2)] show ?thesis using add Cons.prems(2) True by simp
  qed
qed simp

lemma backupProcessInit_queues:
  assumes "backupProcessInit c opt delta m = Inr (sizeTotal, jobData)"
  shows "mset (concat (queueList_bd jobData)) = mset (filter (queued delta) (map JobFile.truncate (filesM m)))"
    "backupLabel_bd jobData = labelM m" "compressType_bd jobData = compressTypeO opt" "cipherSubPass_bd jobData = cipherSubPassM m"
proof -
  obtain q where q: "backupProcessQueue (standbyC c) delta (onlineC c) (jobManifest m) = Inr (sizeTotal, q)" and j: "queueList_bd jobData = q"
    and rest: "backupLabel_bd jobData = labelM m" "compressType_bd jobData = compressTypeO opt" "cipherSubPass_bd jobData = cipherSubPassM m"
    using assms unfolding backupProcessInit_def by auto
  have "concat (replicate n []) = ([] :: JobFile list)" for n by (induction n) auto
  then show "mset (concat (queueList_bd jobData)) = mset (filter (queued delta) (map JobFile.truncate (filesM m)))"
    using q backupQueueFill_all [of "standbyC c" delta "processTargets (jobManifest m)" "fileList (jobManifest m)"] unfolding j
    by (fastforce simp: backupProcessQueue_def bindE_eq_Inr Let_def mset_concat_msort jobManifest_def split: if_splits)
  show "backupLabel_bd jobData = labelM m" "compressType_bd jobData = compressTypeO opt" "cipherSubPass_bd jobData = cipherSubPassM m" using rest by auto
qed

end
