(* ===== verification/BackupDone.thy ===== *)
theory BackupDone
  imports BackupSet
begin

text \<open>
  A backup from the first step of cmdBackup() to the manifest at its end: the label is a new one, resuming a
  backup touches nothing but the files of that backup, and in the end every file of the manifest is in the
  repository, in this backup or in the one it refers to, with the checksum and size of the manifest.
\<close>

section \<open>Removing files from the manifest\<close>

lemma fileRemoveFirst_filter: "distinct (map name_mf fs) \<Longrightarrow> fileRemoveFirst n fs = filter (\<lambda>f. name_mf f \<noteq> n) fs"
  by (induction fs) (auto simp: filter_id_conv image_iff intro!: filter_True [symmetric])

lemma backupRemoveFiles_filter:
  "distinct (names m) \<Longrightarrow> distinct ns \<Longrightarrow> set ns \<subseteq> set (names m) \<Longrightarrow>
     backupRemoveFiles ns m = Inr (m\<lparr>filesM := filter (\<lambda>f. name_mf f \<notin> set ns) (filesM m)\<rparr>)"
proof (induction ns arbitrary: m)
  case (Cons n ns)
  let ?m = "m\<lparr>filesM := filter (\<lambda>f. name_mf f \<noteq> n) (filesM m)\<rparr>"
  obtain f where "f \<in> set (filesM m)" "name_mf f = n" using Cons.prems(3) by auto
  then have "manifestFileFindDefault m n = Some f" using manifestFileFindDefault_Some [OF Cons.prems(1)] by blast
  then have "manifestFileRemove m n = Inr ?m" using fileRemoveFirst_filter [OF Cons.prems(1)] by (simp add: manifestFileRemove_def)
  moreover have "distinct (names ?m)" using Cons.prems(1) by (simp add: distinct_map_filter)
  moreover have "set (names ?m) = set (names m) - {n}" by auto
  then have "set ns \<subseteq> set (names ?m)" using Cons.prems(2,3) by auto
  ultimately show ?case using Cons.IH [of ?m] Cons.prems(2) by (simp add: conj_commute)
qed simp

section \<open>The label is new\<close>

lemma backupLabelCreate_later:
  assumes "backupLabelCreate timeText repo type0 prior timestamp = Inr label" "backupListDesc (backupNamesLater repo) = Inr ls"
  shows "label \<notin> set ls"
proof
  assume "label \<in> set ls"
  then obtain l rest where l: "ls = l # rest" by (cases ls) auto
  obtain xs where xs: "ls = strLstSort xs sortOrderDesc" using assms(2) by (auto simp: backupListDesc_def bindE_eq_Inr)
  have "strcmp label l \<le> 0" using strLstSort_desc [of xs] \<open>label \<in> set ls\<close> str_order.cmp_refl [of l] unfolding xs [symmetric] l lstComparatorStr_def by auto
  moreover obtain latest where latest: "strcmp l latest \<le> 0" "0 < strcmp label latest"
  proof -
    obtain history where h: "latestHistory repo = Inr history" using assms(1) by (auto simp: backupLabelCreate_def bindE_eq_Inr)
    let ?latest = "if history \<noteq> None \<and> 0 < strCmp history (Some l) then history else Some l"
    have "0 < strCmp (Some label) ?latest"
      using assms h l unfolding backupLabelCreate_def bindE_eq_Inr Let_def by (auto simp: bindE_eq_Inr split: if_splits)
    moreover have "strCmp (Some l) ?latest \<le> 0" using str_order.flip_iffs(1) [of "the history" l] str_order.cmp_refl [of l]
      by (auto simp: lstComparatorStr_def)
    ultimately show thesis using that by (cases ?latest) (auto split: if_splits)
  qed
  ultimately have "strcmp label latest \<le> 0" using str_order.not_greater_trans [of label l latest] by (simp add: lstComparatorStr_def)
  then show False using latest(2) by simp
qed

lemma backupLabelCreate_slash:
  assumes "backupLabelCreate timeText repo type0 prior timestamp = Inr label" "\<And>t x. timeText t = Some x \<Longrightarrow> CHR ''/'' \<notin> set x"
    and "\<And>l. prior = Some l \<Longrightarrow> CHR ''/'' \<notin> set l"
  shows "CHR ''/'' \<notin> set label"
proof -
  obtain t where "backupLabelFormat timeText type0 prior t = Inr label"
    using assms(1) unfolding backupLabelCreate_def bindE_eq_Inr Let_def by (auto simp: bindE_eq_Inr split: if_splits)
  then obtain buffer where b: "timeText t = Some buffer" "(case prior of None \<Rightarrow> Inr (buffer @ ''F'')
      | Some l \<Rightarrow> bindE (strSubN l 0 16) (\<lambda>fullLabel. Inr (fullLabel @ ''_'' @ buffer @ (if type0 = backupTypeDiff then ''D'' else ''I'')))) = (Inr label :: string result)"
    unfolding backupLabelFormat_def bindE_eq_Inr by (auto split: option.splits)
  have b0: "CHR ''/'' \<notin> set buffer" by (rule assms(2) [OF b(1)])
  show ?thesis
  proof (cases prior)
    case None
    then show ?thesis using b(2) b0 by auto
  next
    case (Some l)
    then have "label = take 16 l @ ''_'' @ buffer @ (if type0 = backupTypeDiff then ''D'' else ''I'')" using b(2) by (auto simp: strSubN_def bindE_eq_Inr split: if_splits)
    then show ?thesis using b0 assms(3) [OF Some] by (auto dest: in_set_takeD)
  qed
qed

section \<open>Resuming touches one backup only\<close>

definition underLabel :: "string \<Rightarrow> string \<Rightarrow> bool" where
  "underLabel label q \<longleftrightarrow> (\<exists>x. q = STORAGE_REPO_BACKUP @ ''/'' @ label @ ''/'' @ x)"

lemma strBeginsWith_append: "strBeginsWith q p \<longleftrightarrow> (\<exists>x. q = p @ x)"
  by (metis append_eq_conv_conj append_take_drop_id strBeginsWith_iff)

definition resumeKept :: "string \<Rightarrow> BuildManifest \<Rightarrow> CopyState \<Rightarrow> ResumeState \<Rightarrow> bool" where
  "resumeKept label m s st \<longleftrightarrow>
     names (manifestRs st) = names m \<and> dataM (manifestRs st) = dataM m \<and> cipherSubPassM (manifestRs st) = cipherSubPassM m \<and>
     (\<forall>f \<in> set (filesM (manifestRs st)). reference f = None \<or> f \<in> set (filesM m)) \<and>
     (\<forall>q. \<not> underLabel label q \<longrightarrow> repoFiles (filesRs st) q = repoFiles s q)"

lemma keeps_repoRemove: "underLabel label path \<Longrightarrow> keeps (resumeKept label m s) (repoRemove env path)"
  unfolding repoRemove_def by (intro keeps_intros) (auto simp: resumeKept_def)

lemma keeps_repoPathRemove:
  "(\<And>x. underLabel label (path @ ''/'' @ x)) \<Longrightarrow> keeps (resumeKept label m s) (repoPathRemove env path)"
  unfolding repoPathRemove_def by (intro keeps_intros) (auto simp: resumeKept_def strBeginsWith_append simp del: strBeginsWith_iff)

lemma keeps_resumeFile:
  assumes "distinct (names m)" "underLabel label path"
  shows "keeps (resumeKept label m s) (backupResumeFile env resume compressType delta n path)"
proof (rule keepsI)
  fix st assume st: "resumeKept label m s st"
  let ?n = "if compressTypeFromName env n \<noteq> compressTypeNone then compressExtStrip env n (compressTypeFromName env n) else Inr n"
  show "resumeKept label m s (snd (backupResumeFile env resume compressType delta n path st))"
  proof (cases ?n)
    case (Inl e)
    then show ?thesis using st by (simp add: backupResumeFile_def Let_def run_simps)
  next
    case (Inr n')
    let ?keep = "resumeFileKeep resume compressType delta (manifestRs st) (compressTypeFromName env n) n'"
    show ?thesis
    proof (cases ?keep)
      case None
      then have "backupResumeFile env resume compressType delta n path st = repoRemove env path st" using Inr by (simp add: backupResumeFile_def Let_def run_simps)
      then show ?thesis using keeps_repoRemove [OF assms(2)] st by (metis keepsD)
    next
      case (Some fr)
      obtain f r where fr: "fr = (f, r)" by fastforce
      let ?u = "manifestFileUpdate (manifestRs st) n' (size_mf f) (sizeRepo r) (Some (checksumSha1 r)) None (checksumPage r) (checksumPageError r) (checksumPageErrorList r)"
      have f: "manifestFileFindDefault (manifestRs st) n' = Some f" "reference f = None"
        using Some fr by (auto simp: resumeFileKeep_def split: if_splits option.splits)
      show ?thesis
      proof (cases ?u)
        case (Inl e)
        then show ?thesis using st \<open>?n = Inr n'\<close> Some fr by (simp add: backupResumeFile_def Let_def run_simps)
      next
        case u: (Inr m')
        then have run: "snd (backupResumeFile env resume compressType delta n path st) = st\<lparr>manifestRs := m'\<rparr>"
          using Inr Some fr by (simp add: backupResumeFile_def Let_def run_simps)
        have d: "distinct (names (manifestRs st))" using st assms(1) by (simp add: resumeKept_def)
        show ?thesis
        proof (rule manifestFileUpdate_Inr [OF u d])
          fix g assume g: "set (filesM m') = (\<lambda>f. if name_mf f = n' then g f else f) ` set (filesM (manifestRs st))" "names m' = names (manifestRs st)"
            "\<And>f. None = (None :: string option option) \<Longrightarrow> reference (g f) = reference f"
            "dataM m' = dataM (manifestRs st)" "cipherSubPassM m' = cipherSubPassM (manifestRs st)"
          have "reference (g x) = None" if "x \<in> set (filesM (manifestRs st))" "name_mf x = n'" for x
            using f that manifestFileFindDefault_Some [OF d, of n' x] g(3) by simp
          then show ?thesis using st g(1,2,4,5) unfolding run by (auto simp: resumeKept_def)
        qed
      qed
    qed
  qed
qed

text \<open>The path of an entry, in the directory of the backup.\<close>

definition resumePath :: "string \<Rightarrow> string \<Rightarrow> bool" where
  "resumePath label path \<longleftrightarrow> (\<forall>x. underLabel label (path @ ''/'' @ x))"

lemma resumePath_entry: "resumePath label path \<Longrightarrow> resumePath label (path @ ''/'' @ n)" "resumePath label (STORAGE_REPO_BACKUP @ ''/'' @ label)"
proof -
  show "resumePath label (path @ ''/'' @ n)" if p: "resumePath label path"
    unfolding resumePath_def
  proof
    fix x
    have "underLabel label (path @ ''/'' @ (n @ ''/'' @ x))" using p unfolding resumePath_def by blast
    then show "underLabel label ((path @ ''/'' @ n) @ ''/'' @ x)" by simp
  qed
qed (simp add: resumePath_def underLabel_def)

lemma keeps_resume:
  assumes "distinct (names m)"
  shows "resumePath label path \<Longrightarrow> keeps (resumeKept label m s) (backupResumeCallback env paths resume compressType delta parent path e)"
    and "resumePath label path \<Longrightarrow> keeps (resumeKept label m s) (backupResumeList env paths resume compressType delta parent path es)"
proof (induction env paths resume compressType delta parent path e and env paths resume compressType delta parent path es
    rule: backupResumeCallback_backupResumeList.induct)
  case (1 env paths resume compressType delta parent path e)
  have u: "underLabel label (path @ ''/'' @ n)" for n using 1(2) unfolding resumePath_def by blast
  have sub: "\<And>x. underLabel label ((path @ ''/'' @ n) @ ''/'' @ x)" for n using resumePath_entry(1) [OF 1(2)] unfolding resumePath_def by blast
  show ?case
  proof (cases e)
    case (EntryPath n es)
    let ?name = "case parent of Some p \<Rightarrow> p @ ''/'' @ entryName e | None \<Rightarrow> entryName e"
    have "keeps (resumeKept label m s) (backupResumeList env paths resume compressType delta (Some ?name) (path @ ''/'' @ entryName e) (if ?name \<notin> set paths then [] else es))"
      if "entryName e \<noteq> ''.''" "\<not> (parent = None \<and> entryName e = ''backup.manifest.copy'')"
      using 1(1) [OF that refl refl EntryPath resumePath_entry(1) [OF 1(2)]] .
    then show ?thesis
      unfolding backupResumeCallback.simps [of env paths resume compressType delta parent path e] Let_def
      using EntryPath sub by (auto intro!: keeps_bind keeps_if keeps_basic keeps_repoPathRemove simp del: append_assoc)
  qed (auto simp: backupResumeCallback.simps u [simplified] intro!: keeps_intros keeps_repoRemove keeps_resumeFile [OF assms])
qed (auto intro!: keeps_intros)

text \<open>Files of the repository that are in no backup without a manifest.\<close>

definition kept :: "BackupRepo \<Rightarrow> string \<Rightarrow> bool" where
  "kept repo q \<longleftrightarrow> (\<forall>l. CHR ''/'' \<notin> set l \<longrightarrow> \<not> manifestExists repo l \<longrightarrow> \<not> underLabel l q)"

lemma backupListDesc_subset: "backupListDesc ns = Inr ls \<Longrightarrow> set ls \<subseteq> set ns"
  by (auto simp: backupListDesc_def listMatching_def bindE_eq_Inr)

lemma backupResumeFind_run:
  assumes "backupResumeFind env repo resume opt st = (Inr found, st')" "\<forall>l \<in> set (backupNames repo). CHR ''/'' \<notin> set l"
  shows "manifestRs st' = manifestRs st \<and> (\<forall>q. kept repo q \<longrightarrow> repoFiles (filesRs st') q = repoFiles (filesRs st) q) \<and>
    (\<forall>r. found = Some r \<longrightarrow> (\<exists>l. CHR ''/'' \<notin> set l \<and> \<not> manifestExists repo l \<and> manifestLoadFile repo l = Inr r))"
proof -
  obtain ls where ls: "backupListDesc (backupNames repo) = Inr ls" using assms(1) by (auto simp: backupResumeFind_def run_bind_Inr run_basic)
  show ?thesis
  proof (cases "ls = [] \<or> manifestExists repo (hd ls)")
    case True
    then show ?thesis using assms(1) ls by (auto simp: backupResumeFind_def run_bind_Inr run_basic split: list.splits)
  next
    case False
    then obtain l rest where l: "ls = l # rest" "\<not> manifestExists repo l" by (cases ls) auto
    then have slash: "CHR ''/'' \<notin> set l" using backupListDesc_subset [OF ls] assms(2) by auto
    show ?thesis
    proof (cases "backupResumeUsable repo resume opt (manifestRs st) l")
      case (Some r)
      then have "manifestLoadFile repo l = Inr r" by (auto simp: backupResumeUsable_def split: if_splits sum.splits)
      then show ?thesis using assms(1) ls l slash Some by (auto simp: backupResumeFind_def run_bind_Inr run_basic)
    next
      case None
      have "underLabel l q" if "strBeginsWith q ((STORAGE_REPO_BACKUP @ ''/'' @ l) @ ''/'')" for q
        using that unfolding strBeginsWith_append by (auto simp: underLabel_def)
      then have "kept repo q \<Longrightarrow> \<not> strBeginsWith q ((STORAGE_REPO_BACKUP @ ''/'' @ l) @ ''/'')" for q using l(2) slash unfolding kept_def by blast
      then show ?thesis using assms(1) ls l None
        by (auto simp: backupResumeFind_def repoPathRemove_def run_bind_Inr run_basic simp del: strBeginsWith_iff append_assoc)
    qed
  qed
qed

text \<open>What is known of the manifest before the files are copied.\<close>

lemma backupPrepare_run:
  assumes "backupPrepare env repo c opt delta \<lparr>manifestRs = m0, filesRs = s0\<rparr> = (Inr (), st)" "distinct (names m0)"
    and "\<forall>l \<in> set (backupNames repo). CHR ''/'' \<notin> set l" "\<And>l q. manifestLoadFile repo l = Inr q \<Longrightarrow> labelM q = l"
    and "\<And>t x. timeTextC c t = Some x \<Longrightarrow> CHR ''/'' \<notin> set x" "\<And>l. backupLabelPrior (dataM m0) = Some l \<Longrightarrow> CHR ''/'' \<notin> set l"
  shows "names (manifestRs st) = names m0 \<and> compressM (manifestRs st) = compressM m0 \<and>
    (backupType_md (dataM m0) = backupTypeFull \<or> cipherSubPassM (manifestRs st) = cipherSubPassM m0) \<and>
    (\<forall>f \<in> set (filesM (manifestRs st)). reference f = None \<or> f \<in> set (filesM m0)) \<and>
    (\<forall>q. kept repo q \<longrightarrow> repoFiles (filesRs st) q = repoFiles s0 q) \<and> CHR ''/'' \<notin> set (labelM (manifestRs st)) \<and>
    (manifestExists repo (labelM (manifestRs st)) \<longrightarrow> (\<forall>ls. backupListDesc (backupNamesLater repo) = Inr ls \<longrightarrow> labelM (manifestRs st) \<notin> set ls))"
proof -
  let ?st0 = "\<lparr>manifestRs = m0, filesRs = s0\<rparr>"
  obtain found st1 where f: "backupResumeFind env repo (resumeC c) opt ?st0 = (Inr found, st1)"
    using assms(1) by (auto simp: backupPrepare_def backupResume_def run_bind_Inr)
  note find = backupResumeFind_run [OF f assms(3)]
  show ?thesis
  proof (cases found)
    case None
    then have "backupResume env repo (pathsC c) (resumeC c) opt delta ?st0 = (Inr False, st1)" using f by (simp add: backupResume_def run_simps)
    then obtain label where label: "backupLabelCreate (timeTextC c) repo (typeO opt) (backupLabelPrior (dataM m0)) (timestampStartC c) = Inr label"
        "st = st1\<lparr>manifestRs := manifestBackupLabelSet m0 label\<rparr>"
      using assms(1) find by (auto simp: backupPrepare_def run_bind_Inr run_basic)
    show ?thesis
      using find backupLabelCreate_later [OF label(1)] backupLabelCreate_slash [OF label(1) assms(5,6)] unfolding label(2) by (simp add: manifestBackupLabelSet_def)
  next
    case (Some r)
    then obtain l where l: "CHR ''/'' \<notin> set l" "\<not> manifestExists repo l" "manifestLoadFile repo l = Inr r" using find by blast
    then have lr: "labelM r = l" using assms(4) by blast
    let ?m1 = "manifestBackupLabelSet m0 l"
    let ?m = "if backupType_md (dataM m0) = backupTypeFull then ?m1\<lparr>cipherSubPassM := cipherSubPassM r\<rparr> else ?m1"
    let ?list = "backupResumeList env (pathsC c) r (compressTypeO opt) delta None (STORAGE_REPO_BACKUP @ ''/'' @ l) (resumeEntries repo l)"
    have "?list (st1\<lparr>manifestRs := ?m\<rparr>) = (Inr (), st)"
      using assms(1) f Some find lr
      by (cases "backupType_md (dataM m0) = backupTypeFull") (auto simp: backupPrepare_def backupResume_def run_bind_Inr run_basic manifestBackupLabelSet_def split: if_splits)
    moreover have "keeps (resumeKept l ?m (filesRs st1)) ?list" by (rule keeps_resume(2)) (use assms(2) resumePath_entry(2) in \<open>simp_all add: manifestBackupLabelSet_def\<close>)
    ultimately have "resumeKept l ?m (filesRs st1) st" using keepsD [of _ ?list "st1\<lparr>manifestRs := ?m\<rparr>"] by (fastforce simp: resumeKept_def)
    moreover have m: "filesM ?m = filesM m0" "dataM ?m = (dataM m0)\<lparr>backupLabel_md := l\<rparr>" "backupType_md (dataM m0) = backupTypeFull \<or> cipherSubPassM ?m = cipherSubPassM m0"
      by (auto simp: manifestBackupLabelSet_def)
    ultimately have k: "names (manifestRs st) = names m0" "dataM (manifestRs st) = (dataM m0)\<lparr>backupLabel_md := l\<rparr>"
        "backupType_md (dataM m0) = backupTypeFull \<or> cipherSubPassM (manifestRs st) = cipherSubPassM m0"
        "\<forall>f \<in> set (filesM (manifestRs st)). reference f = None \<or> f \<in> set (filesM m0)"
        "\<forall>q. \<not> underLabel l q \<longrightarrow> repoFiles (filesRs st) q = repoFiles (filesRs st1) q"
      unfolding resumeKept_def m(1,2) by metis+
    have "\<forall>q. kept repo q \<longrightarrow> repoFiles (filesRs st) q = repoFiles s0 q" using k(5) find l unfolding kept_def by simp
    then show ?thesis using k(1-4) l by simp
  qed
qed

section \<open>The backup as a whole\<close>

text \<open>
  The earlier backups: their files are stored, the backups they use have a manifest and are listed, the manifests
  the command loads are among them, and a manifest has the label of its backup.
\<close>

definition priorBackups :: "CopyEnv \<Rightarrow> BackupRepo \<Rightarrow> BackupCommand \<Rightarrow> CopyState \<Rightarrow> BuildManifest list \<Rightarrow> bool" where
  "priorBackups env repo c s older \<longleftrightarrow>
     (\<forall>q \<in> set older. manifestStored env s q \<and> (\<forall>l \<in> usedLabels q. CHR ''/'' \<notin> set l \<and> manifestExists repo l \<and>
       (\<exists>ls. backupListDesc (backupNamesLater repo) = Inr ls \<and> l \<in> set ls))) \<and>
     (\<forall>b \<in> set (backup (infoBackupC c)). \<forall>q. manifestLoadFile repo (backupLabel b) = Inr q \<longrightarrow> q \<in> set older) \<and>
     (\<forall>l q. manifestLoadFile repo l = Inr q \<longrightarrow> labelM q = l) \<and> (\<forall>l \<in> set (backupNames repo). CHR ''/'' \<notin> set l)"

text \<open>A manifest that was built from the data directory has each file once and no references, and a time has no slash.\<close>

definition freshBuild :: "BackupCommand \<Rightarrow> bool" where
  "freshBuild c \<longleftrightarrow>
     (\<forall>opt m. manifestNewBuild c opt = Inr m \<longrightarrow> distinct (names m) \<and> (\<forall>f \<in> set (filesM m). reference f = None) \<and>
       backupType_md (dataM m) = backupTypeFull \<and> backupLabelPrior (dataM m) = None) \<and>
     (\<forall>t x. timeTextC c t = Some x \<longrightarrow> CHR ''/'' \<notin> set x)"

lemma backupBuildIncrPrior_run:
  assumes "backupBuildIncrPrior load pgId info opt = Inr (Some prior, opt')"
  shows "compressTypeO opt' = compressM prior" "\<exists>b \<in> set (backup info). load (backupLabel b) = Inr prior"
proof -
  obtain label where label: "backupPriorLabel (typeO opt) pgId info = Some label" "load label = Inr prior"
    using assms by (auto simp: backupBuildIncrPrior_def bindE_eq_Inr split: if_splits option.splits)
  then obtain P b where "List.find P (rev (backup info)) = Some b" "label = backupLabel b" by (auto simp: backupPriorLabel_def)
  then have "b \<in> set (rev (backup info))" by (metis find_Some_iff nth_mem)
  then show "\<exists>b \<in> set (backup info). load (backupLabel b) = Inr prior" using label(2) \<open>label = backupLabel b\<close> by auto
  show "compressTypeO opt' = compressM prior"
    using assms label by (auto simp: backupBuildIncrPrior_def bindE_eq_Inr split: if_splits option.splits)
qed

lemma backupManifestBuild_run:
  assumes "backupManifestBuild repo c = Inr (opt, m, delta)" "freshBuild c"
  shows "distinct (names m) \<and> compressM m = compressTypeO opt \<and>
    ((\<forall>f \<in> set (filesM m). reference f = None) \<and> backupLabelPrior (dataM m) = None \<or>
     (\<exists>b \<in> set (backup (infoBackupC c)). \<exists>prior. manifestLoadFile repo (backupLabel b) = Inr prior \<and> (\<forall>f \<in> set (filesM m). fromPrior prior f) \<and>
       compressM m = compressM prior \<and> cipherSubPassM m = cipherSubPassM prior \<and> backupType_md (dataM m) \<noteq> backupTypeFull \<and>
       backupLabelPrior (dataM m) = Some (labelM prior)))"
proof -
  obtain prior built valid incr m1 where b: "backupBuildIncrPrior (manifestLoadFile repo) (pgIdC c) (infoBackupC c) (optionsC c) = Inr (prior, opt)"
      "manifestNewBuild c opt = Inr built" "manifestBuildValidate built (deltaC c) (copyStartC c) (compressTypeO opt) = Inr valid"
      "backupBuildIncr opt valid prior (archiveStartC c) = Inr (incr, m1)" "m = (if incr then m1 else m1\<lparr>cipherSubPassM := cipherPassGen c\<rparr>)"
    using assms(1) unfolding backupManifestBuild_def bindE_eq_Inr by (auto simp: bindE_eq_Inr)
  have v: "filesM valid = filesM built" "compressM valid = compressTypeO opt" "backupLabelPrior (dataM valid) = backupLabelPrior (dataM built)"
    using b(3) by (auto simp: manifestBuildValidate_def bindE_eq_Inr)
  have f: "distinct (names valid)" "\<forall>f \<in> set (filesM valid). reference f = None" "backupLabelPrior (dataM valid) = None"
    using assms(2) b(2) v unfolding freshBuild_def by auto
  show ?thesis
  proof (cases prior)
    case None
    then have "m1 = valid" "\<not> incr" using b(4) by (auto simp: backupBuildIncr_def)
    then show ?thesis using f v b(5) by simp
  next
    case (Some q)
    then obtain m2 where m2: "manifestBuildIncr valid q (typeO opt) (archiveStartC c) = Inr m2" "m1 = m2\<lparr>cipherSubPassM := cipherSubPassM q\<rparr>" incr
      using b(4) by (auto simp: backupBuildIncr_def bindE_eq_Inr)
    note k = manifestBuildIncr_keeps [OF m2(1) f(1,2)] and p = backupBuildIncrPrior_run [OF b(1) [unfolded Some]]
    then show ?thesis using m2(2,3) f(1) v(2) b(5) by auto
  qed
qed

lemma manifestStored_kept:
  assumes "manifestStored env s q" "\<forall>l \<in> usedLabels q. CHR ''/'' \<notin> set l \<and> manifestExists repo l" "\<forall>x. kept repo x \<longrightarrow> repoFiles s' x = repoFiles s x"
  shows "manifestStored env s' q"
  unfolding manifestStored_def
proof
  fix f assume f: "f \<in> set (filesM q)"
  let ?home = "homeOf (labelM q) f"
  have home: "CHR ''/'' \<notin> set ?home" "manifestExists repo ?home" using assms(2) f unfolding usedLabels_def by (cases "reference f"; force)+
  obtain path bytes data where p: "repoPathFileOf env ?home (name_mf f) (compressM q) = Inr path" "repoFiles s path = Some bytes"
      "decodes env cipherTypeAes256Cbc (cipherSubPassM q) (compressM q) bytes data" "checksumSha1 f = hashSha1 env data" "size_mf f = sizeOf64 data"
    using assms(1) f unfolding manifestStored_def fileStored_def by blast
  obtain x where x: "path = STORAGE_REPO_BACKUP @ ''/'' @ ?home @ ''/'' @ x" using p(1) by (auto simp: repoPathFileOf_def bindE_eq_Inr)
  have "kept repo path" unfolding kept_def underLabel_def x using append_slash_inj [OF home(1)] home(2) by auto
  then have "repoFiles s' path = Some bytes" using assms(3) p(2) by simp
  then show "fileStored env (labelM q) (compressM q) (cipherSubPassM q) s' f" using p unfolding fileStored_def by blast
qed

lemma inProgress_start:
  assumes "mset (concat (queueList_bd jobData)) = mset (filter (queued delta) (map JobFile.truncate (filesM m)))" "distinct (names m)"
    and "\<And>f l. f \<in> set (filesM m) \<Longrightarrow> reference f = Some l \<Longrightarrow> l \<noteq> labelM m \<and> CHR ''/'' \<notin> set l"
    and "\<And>f. f \<in> set (filesM m) \<Longrightarrow> reference f \<noteq> None \<Longrightarrow> fileStored env (labelM m) (compressM m) (cipherSubPassM m) s f"
    and "\<And>q. q \<in> set older \<Longrightarrow> manifestStored env s q"
  shows "inProgress env older m (backupProgressNew jobData m s)"
proof -
  let ?q = "concat (queueList_bd jobData)"
  have set: "set ?q = {f \<in> JobFile.truncate ` set (filesM m). queued delta f}" using mset_eq_setD [OF assms(1)] by auto
  have "distinct (map name_mf (map JobFile.truncate (filesM m)))" using assms(2) by (simp add: comp_def)
  then have "distinct (map name_mf (filter (queued delta) (map JobFile.truncate (filesM m))))" by (rule distinct_map_filter)
  moreover have "mset (map name_mf ?q) = mset (map name_mf (filter (queued delta) (map JobFile.truncate (filesM m))))" unfolding mset_map assms(1) ..
  ultimately have d: "distinct (map name_mf ?q)" using mset_eq_imp_distinct_iff by blast
  have "name_mf f \<in> name_mf ` set ?q" if "f \<in> set (filesM m)" "reference f = None" for f
    using that unfolding set by (intro image_eqI [of _ _ "JobFile.truncate f"]) (auto simp: queued_def)
  then have stored: "fileStored env (labelM m) (compressM m) (cipherSubPassM m) s f" if "f \<in> set (filesM m)" "reference f \<noteq> None \<or> name_mf f \<notin> name_mf ` set ?q" for f
    using that assms(4) by blast
  show ?thesis
    unfolding backupProgressNew_def using assms(2,3,5) d set stored by (intro inProgressI) simp_all
qed

text \<open>
  C1. A finished backup can be restored from, and so can the earlier ones. Take any run of a backup: the choice of the
  prior backup and the references to it, an interrupted backup that is resumed or removed, and then
  copies in any order, interleaved with changes of the database, with attempts that fail and with the
  handling of the answers. When nothing is left to do, the files that vanished can be removed from the
  manifest, pg_control is not among them, and every file that remains is in the repository, in this backup
  or in the one it refers to, and decodes to data of the checksum and the size in the manifest. The label is a
  new one and the files of all earlier backups are as good as before.
\<close>

theorem backup_set_restorable:
  assumes "librariesOk env" "priorBackups env repo c s older" "freshBuild c"
    and "backupManifestBuild repo c = Inr (opt, m0, delta)"
    and "backupPrepare env0 repo c opt delta \<lparr>manifestRs = m0, filesRs = s\<rparr> = (Inr (), st)"
    and "backupProcessInit c opt delta (manifestRs st) = Inr (sizeTotal, jobData)"
    and "(backupStep env jobData)\<^sup>*\<^sup>* (backupProgressNew jobData (manifestRs st) (filesRs st)) p" "pendingBp p = []" "answeredBp p = []"
  shows "\<exists>m. backupRemoveFiles (removeBp p) (manifestBp p) = Inr m \<and> names m = filter (\<lambda>n. n \<notin> set (removeBp p)) (names m0) \<and>
    pgControlName \<notin> set (removeBp p) \<and> manifestStored env (filesBp p) m \<and>
    (\<forall>q \<in> set older. manifestStored env (filesBp p) q \<and> labelM m \<notin> usedLabels q)"
proof -
  let ?m = "manifestRs st"
  note build = backupManifestBuild_run [OF assms(4,3)] and laws = assms(2) [unfolded priorBackups_def]
  have slash: "CHR ''/'' \<notin> set l" if prior: "backupLabelPrior (dataM m0) = Some l" for l
  proof -
    obtain prior where "prior \<in> set older" "l = labelM prior" using build laws prior by auto
    then show ?thesis using laws unfolding usedLabels_def by blast
  qed
  have "names ?m = names m0 \<and> compressM ?m = compressM m0 \<and> (backupType_md (dataM m0) = backupTypeFull \<or> cipherSubPassM ?m = cipherSubPassM m0) \<and>
    (\<forall>f \<in> set (filesM ?m). reference f = None \<or> f \<in> set (filesM m0)) \<and>
    (\<forall>q. kept repo q \<longrightarrow> repoFiles (filesRs st) q = repoFiles s q) \<and> CHR ''/'' \<notin> set (labelM ?m) \<and>
    (manifestExists repo (labelM ?m) \<longrightarrow> (\<forall>ls. backupListDesc (backupNamesLater repo) = Inr ls \<longrightarrow> labelM ?m \<notin> set ls))"
    by (rule backupPrepare_run [OF assms(5)]) (use build laws slash assms(3) in \<open>auto simp: freshBuild_def\<close>)
  then have prep: "names ?m = names m0" "compressM ?m = compressM m0" "backupType_md (dataM m0) = backupTypeFull \<or> cipherSubPassM ?m = cipherSubPassM m0"
      "\<forall>f \<in> set (filesM ?m). reference f = None \<or> f \<in> set (filesM m0)" "\<forall>q. kept repo q \<longrightarrow> repoFiles (filesRs st) q = repoFiles s q"
      "CHR ''/'' \<notin> set (labelM ?m)"
      "manifestExists repo (labelM ?m) \<longrightarrow> (\<forall>ls. backupListDesc (backupNamesLater repo) = Inr ls \<longrightarrow> labelM ?m \<notin> set ls)"
    by blast+
  have older: "manifestStored env (filesRs st) q" "otherLabels (labelM ?m) q" if "q \<in> set older" for q
    using manifestStored_kept [OF _ _ prep(5), of env q] laws prep(7) that unfolding otherLabels_def by blast+
  have ref: "l \<noteq> labelM ?m \<and> CHR ''/'' \<notin> set l" "fileStored env (labelM ?m) (compressM ?m) (cipherSubPassM ?m) (filesRs st) f"
    if f: "f \<in> set (filesM ?m)" "reference f = Some l" for f l
  proof -
    have "f \<in> set (filesM m0)" using prep(4) f by fastforce
    then obtain prior where prior: "prior \<in> set older" "fromPrior prior f" "compressM m0 = compressM prior" "cipherSubPassM m0 = cipherSubPassM prior"
        "backupType_md (dataM m0) \<noteq> backupTypeFull"
      using build laws f(2) by fastforce
    then show "fileStored env (labelM ?m) (compressM ?m) (cipherSubPassM ?m) (filesRs st) f"
      using fromPrior_stored [OF prior(2) _ older(1)] f(2) prep(2,3) by simp
    have "l \<in> usedLabels prior" using prior(2) f(2) unfolding fromPrior_def usedLabels_def by (auto split: option.splits)
    then show "l \<noteq> labelM ?m \<and> CHR ''/'' \<notin> set l" using older(2) [OF prior(1)] unfolding otherLabels_def by blast
  qed
  note job = backupProcessInit_queues [OF assms(6)]
  have "distinct (names ?m)" using build prep(1) by simp
  then have "inProgress env older ?m (backupProgressNew jobData ?m (filesRs st))"
    using inProgress_start [OF job(1), of env "filesRs st" older] ref older(1) by fastforce
  moreover have "onlyLabel older ?m" "jobFor ?m jobData" using prep(2,6) older(2) job(2-4) build by auto
  ultimately have "inProgress env older ?m p" using inProgress_steps [OF assms(7)] assms(1) by blast
  note fin = inProgressD [OF this]
  let ?final = "(manifestBp p)\<lparr>filesM := filter (\<lambda>f. name_mf f \<notin> set (removeBp p)) (filesM (manifestBp p))\<rparr>"
  have "backupRemoveFiles (removeBp p) (manifestBp p) = Inr ?final" using backupRemoveFiles_filter [of "manifestBp p" "removeBp p"] fin(1,2,6,7) by auto
  moreover have "names ?final = filter (\<lambda>n. n \<notin> set (removeBp p)) (names m0)"
    using fin(1) prep(1) filter_map [of "\<lambda>n. n \<notin> set (removeBp p)" name_mf "filesM (manifestBp p)"] by (simp add: comp_def)
  moreover have "manifestStored env (filesBp p) ?final" using fin(3,4,10) assms(8,9) unfolding manifestStored_def by simp
  moreover have "manifestStored env (filesBp p) q \<and> labelM ?final \<notin> usedLabels q" if "q \<in> set older" for q
    using fin(3,13) older(2) that unfolding otherLabels_def by auto
  ultimately show ?thesis using fin(7) by blast
qed

text \<open>
  An incremental backup of two files, of which one is as it was in the full backup before it.
\<close>

definition setFile :: "string \<Rightarrow> u64 \<Rightarrow> string \<Rightarrow> BuildFile" where
  "setFile n size0 checksum = \<lparr>name_mf = n, reference = None, size_mf = size0, sizeRepo = 0, primary = False, checksumPage = False, mode_mf = 384,
     checksumSha1 = checksum, user_mf = None, group_mf = None, timestamp_mf = 7, checksumPageError = False, checksumPageErrorList = None\<rparr>"

definition setData :: "string \<Rightarrow> BuildData" where
  "setData label = \<lparr>backrestVersion_md = ''2.36'', backupLabel_md = label, backupLabelPrior = None, timestampStart_md = 0, timestampStop_md = 0,
     backupType_md = backupTypeFull, archiveStart = None, archiveStop = None, pgId_md = 1, pgVersion_md = 130000, pgSystemId_md = 5,
     backupOptionArchiveCheck = True, backupOptionArchiveCopy = False, backupOptionStandby = None, backupOptionChecksumPage = Some False,
     backupOptionCompress = True, backupOptionHardLink = False, backupOptionOnline = True,
     timestampCopyStart_md = 9, compressType_md = 2, compressLevel_md = Some 6, backupOptionDelta = Some False\<rparr>"

definition setManifest :: "string \<Rightarrow> BuildFile list \<Rightarrow> BuildManifest" where
  "setManifest label files = \<lparr>dataM = setData label, filesM = files,
     targetsM = [\<lparr>targetName = ''pg_data'', targetPath = ''/pg'', tablespaceId = 0\<rparr>], referencesM = [], cipherSubPassM = Some ''x''\<rparr>"

abbreviation setChecksum :: string where "setChecksum \<equiv> CHR ''h'' # map char_of [4, 5, 6 :: nat]"
abbreviation setPrior :: BuildManifest where "setPrior \<equiv> setManifest ''20191002-070640F'' [setFile ''pg_data/base/1'' 3 setChecksum]"

definition setRepo :: BackupRepo where
  "setRepo = \<lparr>backupNames = [''20191002-070640F''], backupNamesLater = [''20191002-070640F''], historyYears = [], historyNames = (\<lambda>_. []),
     manifestExists = (\<lambda>l. l = ''20191002-070640F''), manifestCopyExists = (\<lambda>_. False),
     manifestLoadFile = (\<lambda>l. if l = ''20191002-070640F'' then Inr setPrior else Inl FileMissingError), resumeEntries = (\<lambda>_. [])\<rparr>"

definition setCommand :: BackupCommand where
  "setCommand = \<lparr>optionsC = \<lparr>typeO = backupTypeIncr, compressTypeO = 1, compressLevelO = 3, hardLinkO = False, checksumPageO = False\<rparr>, deltaC = False, resumeC = True,
     onlineC = True, standbyC = False, pgIdC = 1,
     infoBackupC = sampleInfo\<lparr>backup := [InfoBackup.sampleBackup ''20191002-070640F'' backupTypeFull None ''000000010000000000000002'' ''000000010000000000000003'']\<rparr>,
     manifestNewBuild = (\<lambda>_. Inr (setManifest [] [setFile ''pg_data/base/1'' 3 [], setFile pgControlName 2 []])), pathsC = [], copyStartC = 9,
     archiveStartC = None, lsnStartC = 1, cipherPassGen = Some ''y'', timestampStartC = 100, timeTextC = (\<lambda>_. Some ''20191003-105320'')\<rparr>"

abbreviation setOptions :: BackupOptions where
  "setOptions \<equiv> \<lparr>typeO = backupTypeIncr, compressTypeO = 2, compressLevelO = 6, hardLinkO = False, checksumPageO = False\<rparr>"

text \<open>The manifest with the reference, for a label, and for what is known of pg_control.\<close>

definition setBuilt :: "string \<Rightarrow> u64 \<Rightarrow> string \<Rightarrow> BuildManifest" where
  "setBuilt label sizeRepo0 checksum = (setManifest [] [])\<lparr>
     dataM := (setData label)\<lparr>backupLabelPrior := Some ''20191002-070640F'', backupType_md := backupTypeIncr, timestampCopyStart_md := 10\<rparr>,
     filesM := [(setFile ''pg_data/base/1'' 3 setChecksum)\<lparr>reference := Some ''20191002-070640F''\<rparr>, (setFile pgControlName 2 checksum)\<lparr>sizeRepo := sizeRepo0\<rparr>],
     referencesM := [''20191002-070640F'']\<rparr>"

abbreviation setLabel :: string where "setLabel \<equiv> ''20191002-070640F_20191003-105320I''"

lemmas set_defs = setFile_def setData_def setManifest_def setRepo_def setCommand_def setBuilt_def

lemma set_prior:
  "backupBuildIncrPrior (manifestLoadFile setRepo) (pgIdC setCommand) (infoBackupC setCommand) (optionsC setCommand) = Inr (Some setPrior, setOptions)"
  by (simp add: backupBuildIncrPrior_def backupPriorLabel_def InfoBackup.sampleBackup_def set_defs)

lemma set_times: "0 <s (9 :: u64)" "\<not> 9 <s (7 :: u64)" "\<not> 7 <s (7 :: u64)"
  by code_simp+

lemma set_valid:
  "manifestBuildValidate (setManifest [] fs) False 9 2 = Inr ((setManifest [] fs)\<lparr>dataM := (setData [])\<lparr>timestampCopyStart_md := 10, backupOptionDelta := Some (list_ex (\<lambda>f. 9 <s timestamp_mf f) fs)\<rparr>\<rparr>)"
  by (simp add: manifestBuildValidate_def set_times set_defs)

lemma set_incr:
  "manifestBuildIncr ((setManifest [] [setFile ''pg_data/base/1'' 3 [], setFile pgControlName 2 []])\<lparr>dataM := (setData [])\<lparr>timestampCopyStart_md := 10, backupOptionDelta := Some False\<rparr>\<rparr>)
     setPrior backupTypeIncr None = Inr (setBuilt [] 0 [])"
  by (simp add: manifestBuildIncr_def incrDelta_def varBoolOf_def incrAnomaly_def incrReference_def manifestFileUpdate_def manifestFileFindDefault_def
      strLstAddIfMissing_def pgControlName_def MANIFEST_TARGET_PGDATA_def Let_def set_times set_defs)

lemma set_build: "backupManifestBuild setRepo setCommand = Inr (setOptions, setBuilt [] 0 [], False)"
proof -
  have c: "manifestNewBuild setCommand opt = Inr (setManifest [] [setFile ''pg_data/base/1'' 3 [], setFile pgControlName 2 []])" "deltaC setCommand = False"
    "copyStartC setCommand = 9" "archiveStartC setCommand = None" for opt by (simp_all add: setCommand_def)
  have t: "timestamp_mf (setFile n k x) = 7" for n k x by (simp add: setFile_def)
  have d: "backupOptionDelta (dataM (setBuilt [] 0 [])) = Some False" "(setBuilt [] 0 [])\<lparr>cipherSubPassM := cipherSubPassM setPrior\<rparr> = setBuilt [] 0 []" by (simp_all add: set_defs)
  show ?thesis unfolding backupManifestBuild_def set_prior bindE_simps prod.case c using set_valid set_incr d
    by (simp add: t set_times backupBuildIncr_def varBoolOf_def)
qed

lemma set_prepare:
  "backupPrepare sampleEnv setRepo setCommand setOptions False \<lparr>manifestRs = setBuilt [] 0 [], filesRs = s\<rparr> = (Inr (), \<lparr>manifestRs = setBuilt setLabel 0 [], filesRs = s\<rparr>)"
proof -
  have l: "backupListDesc [''20191002-070640F''] = Inr [''20191002-070640F'']" by code_simp
  have "latestHistory setRepo = Inr None"
  proof -
    have "listMatching ''^2[0-9]{3}$'' [] = Inr []" by code_simp
    then show ?thesis by (simp add: latestHistory_def setRepo_def strLstSort_def msort.simps)
  qed
  moreover have "strcmp setLabel ''20191002-070640F'' > 0" by code_simp
  ultimately show ?thesis using l
    by (simp add: backupPrepare_def backupResume_def backupResumeFind_def backupLabelCreate_def backupLabelFormat_def strSubN_def manifestBackupLabelSet_def
        Let_def run_simps set_defs)
qed

abbreviation setControl :: JobFile where "setControl \<equiv> JobFile.truncate (setFile pgControlName 2 [])"

abbreviation setJob :: BackupJobData where
  "setJob \<equiv> \<lparr>backupLabel_bd = setLabel, backupStandby_bd = False, cipherSubPass_bd = Some ''x'', compressType_bd = 2, compressLevel_bd = 6, delta_bd = False,
     lsnStart_bd = 1, queueList_bd = [[setControl]]\<rparr>"

lemma set_init: "backupProcessInit setCommand setOptions False (setBuilt setLabel 0 []) = Inr (2, setJob)"
proof -
  have t: "processTargets (jobManifest (setBuilt setLabel 0 [])) = [''pg_data/'']"
    by (simp add: processTargets_def MANIFEST_TARGET_PGDATA_def jobManifest_def set_defs)
  show ?thesis unfolding backupProcessInit_def backupProcessQueue_def t
    by (simp add: jobManifest_def queueAdd_def msort.simps JobFile.truncate_def pgControlName_def MANIFEST_TARGET_PGDATA_def Let_def set_defs)
qed

abbreviation setPg :: "string \<Rightarrow> PgFile option" where
  "setPg \<equiv> [''global/pg_control'' \<mapsto> \<lparr>content = [8, 9], modePf = 384, userPf = ''pg'', groupPf = ''pg'', modifiedPf = 8\<rparr>]"

abbreviation setPath :: string where
  "setPath \<equiv> ''<REPO:BACKUP>/20191002-070640F_20191003-105320I/pg_data/global/pg_control.gz''"

abbreviation setAfter :: CopyState where
  "setAfter \<equiv> sampleAfter\<lparr>pgFiles := setPg, repoFiles := (repoFiles sampleAfter)(setPath \<mapsto> [2, 1, 8, 9])\<rparr>"

abbreviation setResult :: BackupFileResult where
  "setResult \<equiv> \<lparr>backupCopyResult = backupCopyResultCopy, copySize = 2, copyChecksum = Some (CHR ''h'' # map char_of [8, 9 :: nat]), repoSizeBf = 4, pageChecksumResultBf = None\<rparr>"

lemma set_copy: "backupFile sampleEnv (backupParams setJob setControl (Some ''global/pg_control'')) (sampleAfter\<lparr>pgFiles := setPg\<rparr>) = (Inr setResult, setAfter)"
proof -
  have "repoPathFileOf sampleEnv setLabel ''pg_data/global/pg_control'' 2 = Inr setPath" by code_simp
  then show ?thesis
    by (simp add: backupFile_def backupCheck_def backupCopy_def pgOpen_def backupLimit_def encodeFilter_def compressFilter_def compressTypePresent_def
      compressHelperLocal_def pageFilter_def repoPut_def sizeOf64_def run_simps sampleFiles_def sampleEnv_fields cipherTypeNone_def cipherTypeAes256Cbc_def
      backupParams_def JobFile.truncate_def pgControlName_def MANIFEST_TARGET_PGDATA_def setFile_def)
qed

abbreviation setBack :: "(string, ProtocolCommand, PackRead option) ProtocolParallelJob" where
  "setBack \<equiv> \<lparr>jobKey = pgControlName, jobCommand = \<lparr>command = PROTOCOL_COMMAND_BACKUP_FILE, pack = None\<rparr>, processId = 1, jobState = JobStateDone, jobCode = None,
     jobResult = Some (Some (resultReader setResult None))\<rparr>"

lemma set_handle:
  "backupJobResult (setBuilt setLabel 0 []) [] setBack 0 = Inr (setBuilt setLabel 4 (CHR ''h'' # map char_of [8, 9 :: nat]), [], 2)"
proof -
  have "fst (backupResultRead (resultReader setResult None)) = Inr (backupAnswer setResult None)" by (rule backupResultRead_fields) (simp add: STRING_SIZE_MAX_def)
  moreover have "jsonToVar ''null'' = Inr VarNull" by code_simp
  ultimately show ?thesis
    by (simp add: backupJobResult_def backupAnswer_def backupCopyResultCode_def varKv_def pageErrors_def manifestFileFindDefault_def manifestFileUpdate_def
      pgControlName_def MANIFEST_TARGET_PGDATA_def set_defs)
qed

lemma set_prior_stored: "priorBackups sampleEnv setRepo setCommand sampleAfter [setPrior]"
proof -
  have l: "backupListDesc (backupNamesLater setRepo) = Inr [''20191002-070640F'']"
  proof -
    have "backupListDesc [''20191002-070640F''] = Inr [''20191002-070640F'']" by code_simp
    then show ?thesis by (simp add: setRepo_def)
  qed
  have used: "usedLabels setPrior = {''20191002-070640F''}" by (simp add: usedLabels_def set_defs)
  have "manifestStored sampleEnv sampleAfter setPrior"
    unfolding manifestStored_def fileStored_def using sample_path
    by (simp add: decodes_def decodeFilter_def decompressFilter_def compressTypePresent_def compressHelperLocal_def sizeOf64_def sampleEnv_fields set_defs)
  then show ?thesis unfolding priorBackups_def using l used by (simp add: set_defs)
qed

lemma set_fresh: "freshBuild setCommand"
  by (simp add: freshBuild_def pgControlName_def MANIFEST_TARGET_PGDATA_def set_defs)

abbreviation setEnd :: BackupProgress where
  "setEnd \<equiv> \<lparr>manifestBp = setBuilt setLabel 4 (CHR ''h'' # map char_of [8, 9 :: nat]), removeBp = [], sizeBp = 2, filesBp = setAfter, pendingBp = [], answeredBp = []\<rparr>"

lemma set_steps: "(backupStep sampleEnv setJob)\<^sup>*\<^sup>* (backupProgressNew setJob (setBuilt setLabel 0 []) sampleAfter) setEnd"
proof -
  let ?p0 = "backupProgressNew setJob (setBuilt setLabel 0 []) sampleAfter"
  let ?p1 = "?p0\<lparr>filesBp := sampleAfter\<lparr>pgFiles := setPg\<rparr>\<rparr>"
  let ?p2 = "?p1\<lparr>filesBp := setAfter, pendingBp := [], answeredBp := [(setControl, setResult, None)]\<rparr>"
  have n: "name_mf setControl = pgControlName" by (simp add: setFile_def)
  have path: "manifestPathPg pgControlName = Inr (Some ''global/pg_control'')" by code_simp
  have "backupStep sampleEnv setJob ?p0 ?p1" using database [of sampleEnv setJob ?p0 setPg] by (simp add: backupProgressNew_def)
  moreover have "backupStep sampleEnv setJob ?p1 ?p2"
    using copied [of setControl ?p1 "''global/pg_control''" sampleEnv sampleEnv setJob setResult setAfter None] set_copy sample_laws(3) path n
    by (simp add: backupProgressNew_def pageResultJson_def STRING_SIZE_MAX_def)
  moreover have "backupStep sampleEnv setJob ?p2 setEnd"
    using handled [of setControl setResult None ?p2 setBack] set_handle n by (simp add: backupProgressNew_def)
  ultimately show ?thesis by (meson converse_rtranclp_into_rtranclp r_into_rtranclp)
qed

theorem backup_set_restorable_witness:
  "manifestStored sampleEnv setAfter (setBuilt setLabel 4 (CHR ''h'' # map char_of [8, 9 :: nat])) \<and> manifestStored sampleEnv setAfter setPrior"
  using backup_set_restorable [OF sample_laws(1) set_prior_stored set_fresh set_build set_prepare, of 2 setJob setEnd] set_init set_steps
  by (simp add: set_defs)

end
