(* ===== verification/Spec2Isabelle.thy ===== *)
theory Spec2Isabelle
  imports StringId Encode ListType StringType Convert RegExp BackupLabel InfoPg InfoBackup Repository
    ExpireBackups ExpireArchive Reconstruct ExpireCommand PackErrors BackupDone
begin

text \<open>
  pgBackRest keeps backups of PostgreSQL clusters and their write-ahead log (WAL) in repositories. A
  command (backup, archive-push, expire, restore, and others) loads the info files of a repository,
  works on the lists they hold, and reads, writes and removes files through a storage driver. The
  backup and restore commands let local processes copy the files: the main process sends each of them
  a job after the other through a binary protocol. The development models the types those commands are
  built on, the info files, the expire command, which decides what is removed from a repository and so
  must never remove too much, and the way of a file: its job, the protocol, its copy to the repository
  and back.

  \<^bold>\<open>Conventions.\<close> The build is the one with assertions. Errors are values, \<^typ>\<open>ErrorType\<close> in a
  result (Prelude); behaviour that C leaves undefined is a result of its own. Programs that change
  a repository return the result and the state reached, also when they throw (Program); \<open>keeps\<close> and
  \<open>okeeps\<close> are the rules for invariants of all runs and of successful runs. Unsigned integers are
  words where the code relies on their width. Log messages and memory contexts are left out.

  \<^bold>\<open>Base types\<close> (src/common).
  \<^item> StringId: the two packings of short strings in 64-bit integers, from stringId.c, with the
    fall-through encoder and the unrolled decoder.
  \<^item> Encode: encode.c, base64 in both directions, with the reads outside of a table or a string.
  \<^item> ListType: list.c, the growing array with a moving start, its searches and sorts; the array
    refines a sequence, and a list that says it is sorted is sorted.
  \<^item> StringType: the parts of string.c and stringList.c the commands use.
  \<^item> Convert: the conversions of convert.c between numbers and text, with strtoll and strtoull.
  \<^item> Json: json.c over variants and key/value lists. What is written is read back; reading takes fuel,
    twice the size of the text and three more, and never uses it up.
  \<^item> RegExp: regExp.c over a parser and a matcher of POSIX extended expressions. The parser takes
    fuel, one more than the length of the expression is enough.

  \<^bold>\<open>Info files\<close> (src/info).
  \<^item> InfoPg: the history of clusters of infoPg.c and the version strings of postgres/interface.c.
  \<^item> BackupLabel: the labels of command/backup/common.c; the expressions match the labels exactly.
  \<^item> InfoBackup: the list of current backups of infoBackup.c. Its invariant \<open>backups_wf\<close>: sorted by
    label, and the prior of every backup is in it. The single pass that finds the dependents of a
    backup refines the transitive closure of the prior relation.
  \<^item> Reconstruct: loading with reconstruction and saving.

  \<^bold>\<open>The repository\<close> (Repository, src/storage/storage.c): entries, info files and manifests, and
  which removals and writes a driver refuses. The locale \<open>removal_laws\<close> is what clients rely on, its
  interpretation \<open>repo_removal\<close> shows it for the storage operations.

  \<^bold>\<open>The expire command\<close> (src/command/expire/expire.c).
  \<^item> ExpireBackups: expireBackup and the four ways to choose what it expires. Each retention keeps
    exactly what it should; an abort halfway leaves usable backups. The loop of the time-based
    expiration takes fuel, one more than the number of backups; it is never used up.
  \<^item> ExpireArchive: removeExpiredArchive. The WAL of listed backups, and all WAL from the backups in
    archive retention on, is kept on every outcome.
  \<^item> ExpireCommand: removal of backup directories and history, and cmdExpire over the repositories.
    A dry run changes nothing; after a success the saved list is consistent with the repository.

  \<^bold>\<open>Packs and the protocol\<close> (src/common/type/pack.c, src/protocol).
  \<^item> Pack: the writer and the reader of packs, over buffers and over an io. PackRoundtrip and PackFields:
    what is written is read back. PackErrors: a field of another type is refused, and what happens
    when fields are skipped. The loop over the tags takes the number of unread bytes as fuel; each
    round reads one.
  \<^item> Protocol and ProtocolProof: commands, data and errors between a client and a server over two streams
    of bytes. A command returns the answer of its handler or its error, and the streams are empty again.
    The loop of the server takes fuel, as it runs until the client sends the exit command.
  \<^item> Parallel and ParallelJobs: the executor that gives each client one job at a time. The locale
    \<open>job_source\<close> is what it relies on of the callback that makes the jobs; ParallelJobs shows in it
    that each job is done once.

  \<^bold>\<open>Jobs of backup and restore\<close> (src/command/backup/backup.c, src/command/restore/restore.c).
  \<^item> JobQueues and Jobs: the queues of files, the callbacks, the parameters of the jobs and the results. Both
    commands interpret \<open>job_source\<close>. The scan of the queues takes their number as fuel.
  \<^item> JobsDone: when the local processes keep answering, the loop of the restore ends, with some fuel, and
    every file was restored once.

  \<^bold>\<open>Copies of files\<close> (src/command/backup/file.c, src/command/restore/file.c).
  \<^item> PageChecksum: the filter that validates the pages of a relation, with the checksum in 32-bit
    arithmetic; it reports exactly the pages that fail.
  \<^item> FileCopy and FileCopyProof: backupFile and restoreFile over the data directory and the repository. Hash,
    cipher and compression are parameters, with the laws that what is encoded can be decoded; errors
    of the file systems are the environment. The result of a backup is true of the files,
    and a restore gives the data back.
  \<^item> RestoreWorker: the handler of the local process, and a restore job from end to end.
  \<^item> BackupManifest: the manifest while a backup is made (src/info/manifest.c): the comparison with the prior
    backup, updates, removal and validation, the handler of the local process and the result of a job.
  \<^item> BackupRun: the course of a backup (cmdBackup() and backupProcess()): the manifest with its references, the
    new label, an interrupted backup that is resumed or removed, and a step relation in which local
    processes copy files, or fail and try again, while the database changes them and the main process handles the answers.
    The listings of the repository and the manifests in it are a parameter.
  \<^item> BackupSet and BackupDone: the invariant of these steps and what follows for a finished backup: every file
    of its manifest is in the repository with the checksum and size of the manifest, in this backup or the one it
    refers to, and the files of the earlier backups are untouched.

  \<^bold>\<open>How the parts interact.\<close> cmdExpire runs expireRepo for each repository: it loads the list
  (Reconstruct over Repository, InfoBackup, BackupLabel), expires backups from it (ExpireBackups),
  saves it, and removes directories, WAL and history (ExpireCommand, ExpireArchive). The restore puts
  the files of a manifest in queues (JobQueues), the executor (Parallel) takes jobs from them and sends
  them (Protocol, Pack) to local processes, which copy the files (RestoreWorker, FileCopy). The backup builds its
  manifest over the prior one (BackupManifest, BackupRun) and lets local processes copy the files in the same
  way; their answers complete the manifest.

  \<^bold>\<open>Outside the model.\<close> The C library enters as a parameter or a contract: qsort (any sort that
  permutes and orders), strftime (the text of a time), select and the answers of other processes. So do
  OpenSSL and the compression libraries. The text of info files and manifests is not modelled: an info file is
  the object it contains or the error of reading it. Nor are the object store and remote drivers, the network, the io filters as streams, starting of processes, memory contexts, the
  configuration parser, listing of the data directory and saving of manifests, the start and stop of a backup in
  PostgreSQL, hard links, and the other commands as a whole: they are input and output around the parts above, or not reached yet.
\<close>

end
